(* ===== verification/Prelude.thy ===== *)
theory Prelude
  imports Main "HOL-Library.Word" "HOL-Library.Multiset" "HOL-Library.List_Lexorder"
    "HOL-Library.Char_ord"
begin

text \<open>
  Shared notions of the development. Go's machine types (\<open>byte\<close>, \<open>uint16\<close>, \<open>uint32\<close>,
  \<open>uint64\<close>) are words; an \<open>int64\<close> (times, durations, lengths) is an \<open>int\<close> together with
  the explicit wrap-around \<open>i64\<close>. A Go \<open>string\<close> is a \<open>string\<close> (a list of 8-bit characters,
  Go's strings being byte sequences), a \<open>[]byte\<close> a \<open>byte list\<close>. A Go map that is ranged
  over is enumerated by a list in an arbitrary order (\<open>enumerates\<close>).
  The collections \<open>bytes_simps\<close> and \<open>map_simps\<close> gather the rewrite rules the component
  theories use.
\<close>

named_theorems bytes_simps \<open>rewrite rules for byte buffers and little-endian integers\<close>
named_theorems map_simps \<open>rewrite rules for maps of stores\<close>

type_synonym byte = "8 word"
type_synonym uint8 = "8 word"
type_synonym uint16 = "16 word"
type_synonym uint32 = "32 word"
type_synonym uint64 = "64 word"

section \<open>Two's complement 64-bit integers\<close>

definition i64 :: "int \<Rightarrow> int" where
  "i64 x = signed_take_bit 63 x"

abbreviation i64_range :: "int \<Rightarrow> bool" where
  "i64_range x \<equiv> - (2 ^ 63) \<le> x \<and> x < 2 ^ 63"

lemma i64_id: "i64_range x \<Longrightarrow> i64 x = x"
  by (simp add: i64_def signed_take_bit_int_eq_self)

lemma i64_in_range: "i64_range (i64 x)"
  using signed_take_bit_int_less_exp [of 63 x] signed_take_bit_int_greater_eq_minus_exp [of 63 x]
  by (simp add: i64_def)

lemma i64_wrap: "2 ^ 63 \<le> x \<Longrightarrow> x < 2 ^ 64 \<Longrightarrow> i64 x = x - 2 ^ 64"
proof -
  assume x: "2 ^ 63 \<le> x" "x < 2 ^ 64"
  have "take_bit (Suc 63) x = take_bit (Suc 63) (x - 2 ^ 64)" by (simp add: take_bit_eq_mod mod_diff_right_eq)
  then have "i64 x = i64 (x - 2 ^ 64)" by (simp only: i64_def signed_take_bit_eq_iff_take_bit_eq)
  then show ?thesis using x by (simp add: i64_id)
qed

text \<open>Go's integer division truncates towards zero.\<close>

definition go_div :: "int \<Rightarrow> int \<Rightarrow> int" where
  "go_div a b = sgn a * sgn b * (\<bar>a\<bar> div \<bar>b\<bar>)"

definition go_mod :: "int \<Rightarrow> int \<Rightarrow> int" where
  "go_mod a b = a - b * go_div a b"

lemma go_div_nonneg: "0 \<le> a \<Longrightarrow> 0 < b \<Longrightarrow> go_div a b = a div b"
  by (cases "a = 0") (auto simp: go_div_def)

section \<open>Enumerations of Go maps\<close>

definition enumerates :: "'a list \<Rightarrow> 'a set \<Rightarrow> bool" where
  "enumerates xs S \<longleftrightarrow> distinct xs \<and> set xs = S"

lemma enumerates_set: "enumerates xs S \<Longrightarrow> set xs = S"
  by (simp add: enumerates_def)

lemma enumerates_distinct: "enumerates xs S \<Longrightarrow> distinct xs"
  by (simp add: enumerates_def)

section \<open>Little-endian integers and byte buffers\<close>

text \<open>
  \<open>encoding/binary\<close>'s \<open>LittleEndian.PutUintN\<close> and \<open>UintN\<close> through the value of a byte
  string, and assignment of a slice of a buffer (\<open>copy(buf[off:], bs)\<close>).
\<close>

fun le_bytes :: "nat \<Rightarrow> nat \<Rightarrow> byte list" where
  "le_bytes 0 v = []"
| "le_bytes (Suc n) v = of_nat (v mod 256) # le_bytes n (v div 256)"

fun le_val :: "byte list \<Rightarrow> nat" where
  "le_val [] = 0"
| "le_val (b # bs) = unat b + 256 * le_val bs"

lemma length_le_bytes [simp]: "length (le_bytes n v) = n"
  by (induction n arbitrary: v) auto

lemma unat_byte_less: "unat (b :: byte) < 256"
  using unsigned_less [of b] by simp

lemma unat_of_nat_byte [simp]: "unat (of_nat (v mod 256) :: byte) = v mod 256"
  by (simp add: unat_of_nat take_bit_eq_mod)

lemma le_val_le_bytes: "v < 256 ^ n \<Longrightarrow> le_val (le_bytes n v) = v"
proof (induction n arbitrary: v)
  case 0
  then show ?case by simp
next
  case (Suc n)
  then have "v div 256 < 256 ^ n" by (simp add: less_mult_imp_div_less mult.commute)
  with Suc.IH show ?case by simp
qed

lemma le_val_bound: "le_val bs < 256 ^ length bs"
proof (induction bs)
  case Nil
  then show ?case by simp
next
  case (Cons b bs)
  have "unat b < 256" by (rule unat_byte_less)
  with Cons show ?case by simp
qed

lemma le_bytes_le_val: "le_bytes (length bs) (le_val bs) = bs"
proof (induction bs)
  case Nil
  then show ?case by simp
next
  case (Cons b bs)
  have b: "unat b < 256" by (rule unat_byte_less)
  have "(of_nat (unat b) :: byte) = b" by simp
  with b Cons show ?case by simp
qed

definition put_at :: "byte list \<Rightarrow> nat \<Rightarrow> byte list \<Rightarrow> byte list" where
  "put_at buf off bs = take off buf @ bs @ drop (off + length bs) buf"

definition subslice :: "nat \<Rightarrow> nat \<Rightarrow> byte list \<Rightarrow> byte list" where
  "subslice i j buf = take (j - i) (drop i buf)"

lemma length_put_at [bytes_simps]:
  "off + length bs \<le> length buf \<Longrightarrow> length (put_at buf off bs) = length buf"
  by (simp add: put_at_def)

lemma length_slice [bytes_simps]: "i \<le> j \<Longrightarrow> j \<le> length buf \<Longrightarrow> length (subslice i j buf) = j - i"
  by (simp add: subslice_def)

lemma slice_put_same [bytes_simps]:
  "off + length bs \<le> length buf \<Longrightarrow> j = off + length bs \<Longrightarrow> subslice off j (put_at buf off bs) = bs"
  by (simp add: subslice_def put_at_def)

lemma slice_put_before [bytes_simps]:
  "i \<le> j \<Longrightarrow> j \<le> off \<Longrightarrow> off + length bs \<le> length buf \<Longrightarrow>
   subslice i j (put_at buf off bs) = subslice i j buf"
  by (rule nth_equalityI) (auto simp: subslice_def put_at_def nth_append)

lemma slice_put_after [bytes_simps]:
  "off + length bs \<le> i \<Longrightarrow> off + length bs \<le> length buf \<Longrightarrow>
   subslice i j (put_at buf off bs) = subslice i j buf"
  by (simp add: subslice_def put_at_def)

lemma nth_put_at [bytes_simps]:
  "off + length bs \<le> length buf \<Longrightarrow> i < length buf \<Longrightarrow>
   put_at buf off bs ! i =
     (if off \<le> i \<and> i < off + length bs then bs ! (i - off) else buf ! i)"
  by (auto simp: put_at_def nth_append min_def)

lemma slice_append [bytes_simps]: "j \<le> length a \<Longrightarrow> subslice i j (a @ b) = subslice i j a"
  by (simp add: subslice_def)

section \<open>Bytes of strings\<close>

definition bytes_of :: "string \<Rightarrow> byte list" where
  "bytes_of s = map of_char s"

definition string_of :: "byte list \<Rightarrow> string" where
  "string_of bs = map (\<lambda>b. char_of (unat b)) bs"

lemma length_bytes_of [simp]: "length (bytes_of s) = length s"
  by (simp add: bytes_of_def)

lemma length_string_of [simp]: "length (string_of bs) = length bs"
  by (simp add: string_of_def)

lemma unat_of_char_byte: "unat (of_char c :: byte) = of_char c"
proof -
  have "(of_char c :: nat) < 256" by simp
  moreover have "(of_char c :: byte) = of_nat (of_char c)" by (simp only: of_nat_of_char)
  ultimately show ?thesis by (simp add: unat_of_nat take_bit_eq_mod)
qed

lemma string_of_bytes_of [simp]: "string_of (bytes_of s) = s"
  by (simp add: string_of_def bytes_of_def o_def unat_of_char_byte)

lemma bytes_of_inject [simp]: "bytes_of s = bytes_of t \<longleftrightarrow> s = t"
  by (metis string_of_bytes_of)

end
