(* ===== verification/GoHeap.thy ===== *)
theory GoHeap
  imports Prelude
begin

text \<open>
  Go's \<open>container/heap\<close> on a slice, as the expiry queue of the key-value store and the
  node queue of the router use it: \<open>heap.Push\<close> (append, sift up) and \<open>heap.Pop\<close> (swap the
  root with the last element, sift down, drop the last). \<open>Less(i, j)\<close> compares a key of the
  elements. The invariant \<open>is_heap\<close> says that no element is below its parent; the lemmas
  show that both operations keep it, what they do to the multiset of elements, and that
  \<open>heap.Pop\<close> returns an element with a least key. \<open>go_queue\<close> is the interface a user
  of the heap relies on, interpreted here on the two operations.
\<close>

section \<open>Operations\<close>

definition swap_at :: "'a list \<Rightarrow> nat \<Rightarrow> nat \<Rightarrow> 'a list" where
  "swap_at h i j = h[i := h ! j, j := h ! i]"

abbreviation parent_ix :: "nat \<Rightarrow> nat" where
  "parent_ix j \<equiv> (j - 1) div 2"

function heap_up :: "('a \<Rightarrow> 'k::linorder) \<Rightarrow> 'a list \<Rightarrow> nat \<Rightarrow> 'a list" where
  "heap_up key h j =
     (let i = parent_ix j in
      if i = j \<or> \<not> key (h ! j) < key (h ! i) then h
      else heap_up key (swap_at h i j) i)"
  by pat_completeness auto
termination
  by (relation "measure (\<lambda>(key, h, j). j)") auto

function heap_down :: "('a \<Rightarrow> 'k::linorder) \<Rightarrow> 'a list \<Rightarrow> nat \<Rightarrow> nat \<Rightarrow> 'a list" where
  "heap_down key h i n =
     (let j1 = 2 * i + 1 in
      if n \<le> j1 then h
      else
        let j2 = j1 + 1;
            j = (if j2 < n \<and> key (h ! j2) < key (h ! j1) then j2 else j1)
        in if \<not> key (h ! j) < key (h ! i) then h
           else heap_down key (swap_at h i j) j n)"
  by pat_completeness auto
termination
  by (relation "measure (\<lambda>(key, h, i, n). n - i)") (auto split: if_splits)

declare heap_up.simps [simp del] heap_down.simps [simp del]
declare One_nat_def [simp del]

definition heap_push :: "('a \<Rightarrow> 'k::linorder) \<Rightarrow> 'a list \<Rightarrow> 'a \<Rightarrow> 'a list" where
  "heap_push key h x = heap_up key (h @ [x]) (length h)"

definition heap_pop :: "('a \<Rightarrow> 'k::linorder) \<Rightarrow> 'a list \<Rightarrow> ('a \<times> 'a list) option" where
  "heap_pop key h =
     (if h = [] then None
      else let n = length h - 1; h' = heap_down key (swap_at h 0 n) 0 n
           in Some (h' ! n, take n h'))"

section \<open>Invariants\<close>

definition is_heap :: "('a \<Rightarrow> 'k::linorder) \<Rightarrow> 'a list \<Rightarrow> bool" where
  "is_heap key h \<longleftrightarrow> (\<forall>k. 0 < k \<longrightarrow> k < length h \<longrightarrow> key (h ! parent_ix k) \<le> key (h ! k))"

text \<open>The first \<open>n\<close> elements form a heap except between \<open>j\<close> and its parent.\<close>

definition heap_but_up :: "('a \<Rightarrow> 'k::linorder) \<Rightarrow> 'a list \<Rightarrow> nat \<Rightarrow> bool" where
  "heap_but_up key h j \<longleftrightarrow>
     (\<forall>k. 0 < k \<longrightarrow> k < length h \<longrightarrow>
        (k \<noteq> j \<longrightarrow> key (h ! parent_ix k) \<le> key (h ! k)) \<and>
        (parent_ix k = j \<longrightarrow> 0 < j \<longrightarrow> key (h ! parent_ix j) \<le> key (h ! k)))"

text \<open>The first \<open>n\<close> elements form a heap except between \<open>i\<close> and its children.\<close>

definition heap_but_down :: "('a \<Rightarrow> 'k::linorder) \<Rightarrow> 'a list \<Rightarrow> nat \<Rightarrow> nat \<Rightarrow> bool" where
  "heap_but_down key h i n \<longleftrightarrow>
     (\<forall>k. 0 < k \<longrightarrow> k < n \<longrightarrow>
        (parent_ix k \<noteq> i \<longrightarrow> key (h ! parent_ix k) \<le> key (h ! k)) \<and>
        (parent_ix k = i \<longrightarrow> 0 < i \<longrightarrow> key (h ! parent_ix i) \<le> key (h ! k)))"

lemma length_swap_at [simp]: "length (swap_at h i j) = length h"
  by (simp add: swap_at_def)

lemma nth_swap_at:
  "i < length h \<Longrightarrow> j < length h \<Longrightarrow> k < length h \<Longrightarrow>
   swap_at h i j ! k = (if k = j then h ! i else if k = i then h ! j else h ! k)"
  by (auto simp: swap_at_def nth_list_update)

lemma mset_swap_at: "i < length h \<Longrightarrow> j < length h \<Longrightarrow> mset (swap_at h i j) = mset h"
  by (simp add: swap_at_def mset_swap)

section \<open>Sifting up\<close>

lemma heap_up_step:
  assumes but: "heap_but_up key h j" and j: "0 < j" "j < length h"
    and less: "key (h ! j) < key (h ! parent_ix j)"
  shows "heap_but_up key (swap_at h (parent_ix j) j) (parent_ix j)"
proof -
  let ?i = "parent_ix j" and ?h = "swap_at h (parent_ix j) j"
  have i: "?i < j" "?i < length h" using j by auto
  have nth: "?h ! k = (if k = j then h ! ?i else if k = ?i then h ! j else h ! k)"
    if "k < length h" for k using that i j by (simp add: nth_swap_at)
  have *: "key (h ! parent_ix k) \<le> key (h ! k)" if "0 < k" "k < length h" "k \<noteq> j" for k
    using but that by (simp add: heap_but_up_def)
  have **: "key (h ! ?i) \<le> key (h ! k)" if "0 < k" "k < length h" "parent_ix k = j" for k
    using but that j by (simp add: heap_but_up_def)
  show ?thesis unfolding heap_but_up_def
  proof (intro allI impI conjI)
    fix k assume k: "0 < k" "k < length ?h" and ne: "k \<noteq> ?i"
    have pk: "parent_ix k < length h" using k by auto
    show "key (?h ! parent_ix k) \<le> key (?h ! k)"
    proof (cases "k = j")
      case True
      then show ?thesis using i j less by (simp add: nth)
    next
      case False
      consider "parent_ix k = j" | "parent_ix k = ?i" "parent_ix k \<noteq> j"
        | "parent_ix k \<noteq> j" "parent_ix k \<noteq> ?i" by blast
      then show ?thesis
      proof cases
        case 1
        then show ?thesis using k False ne j ** [of k] by (simp add: nth)
      next
        case 2
        then have "key (h ! ?i) \<le> key (h ! k)" using * [of k] k False by simp
        then show ?thesis using 2 k False ne i less by (simp add: nth)
      next
        case 3
        then show ?thesis using k pk False ne * [of k] by (simp add: nth)
      qed
    qed
  next
    fix k assume k: "0 < k" "k < length ?h" and pk: "parent_ix k = ?i" and pos: "0 < ?i"
    have up: "key (h ! parent_ix ?i) \<le> key (h ! ?i)" using * [of ?i] i pos by simp
    have pi: "parent_ix ?i < ?i" using pos by auto
    show "key (?h ! parent_ix ?i) \<le> key (?h ! k)"
    proof (cases "k = j")
      case True
      then show ?thesis using up i j pi by (simp add: nth)
    next
      case False
      have ki: "k \<noteq> ?i" using pk pos by auto
      have "key (h ! ?i) \<le> key (h ! k)" using * [of k] k False pk by simp
      then show ?thesis using up i j pi k False ki by (simp add: nth)
    qed
  qed
qed

lemma length_heap_up [simp]: "length (heap_up key h j) = length h"
proof (induction key h j rule: heap_up.induct)
  case (1 key h j)
  then show ?case by (subst heap_up.simps) (simp add: Let_def)
qed

lemma mset_heap_up: "j < length h \<Longrightarrow> mset (heap_up key h j) = mset h"
proof (induction key h j rule: heap_up.induct)
  case (1 key h j)
  then show ?case by (subst heap_up.simps) (auto simp: Let_def mset_swap_at)
qed

lemma heap_up_is_heap:
  "heap_but_up key h j \<Longrightarrow> j < length h \<Longrightarrow> is_heap key (heap_up key h j)"
proof (induction key h j rule: heap_up.induct)
  case (1 key h j)
  show ?case
  proof (cases "parent_ix j = j \<or> \<not> key (h ! j) < key (h ! parent_ix j)")
    case True
    have "is_heap key h" unfolding is_heap_def
    proof (intro allI impI)
      fix k assume "0 < k" "k < length h"
      then show "key (h ! parent_ix k) \<le> key (h ! k)"
        using True "1.prems" by (cases "k = j") (auto simp: heap_but_up_def)
    qed
    with True show ?thesis by (subst heap_up.simps) (simp add: Let_def)
  next
    case False
    then have "0 < j" by (cases j) auto
    with False "1.prems" have "heap_but_up key (swap_at h (parent_ix j) j) (parent_ix j)"
      by (intro heap_up_step) auto
    with "1.IH" [OF refl False] "1.prems" False show ?thesis
      by (subst heap_up.simps) (simp add: Let_def)
  qed
qed

lemma mset_heap_push: "mset (heap_push key h x) = add_mset x (mset h)"
  by (simp add: heap_push_def mset_heap_up)

lemma heap_push_is_heap:
  assumes "is_heap key h"
  shows "is_heap key (heap_push key h x)"
  unfolding heap_push_def
proof (rule heap_up_is_heap)
  show "heap_but_up key (h @ [x]) (length h)"
    using assms by (auto simp: heap_but_up_def is_heap_def nth_append)
qed simp

section \<open>Sifting down\<close>

lemma length_heap_down [simp]: "length (heap_down key h i n) = length h"
proof (induction key h i n rule: heap_down.induct)
  case (1 key h i n)
  then show ?case by (subst heap_down.simps) (simp add: Let_def)
qed

lemma mset_heap_down: "n \<le> length h \<Longrightarrow> mset (heap_down key h i n) = mset h"
proof (induction key h i n rule: heap_down.induct)
  case (1 key h i n)
  then show ?case by (subst heap_down.simps) (auto simp: Let_def mset_swap_at)
qed

lemma heap_down_frame: "n \<le> k \<Longrightarrow> n \<le> length h \<Longrightarrow> k < length h \<Longrightarrow> heap_down key h i n ! k = h ! k"
proof (induction key h i n rule: heap_down.induct)
  case (1 key h i n)
  then show ?case by (subst heap_down.simps) (auto simp: Let_def nth_swap_at)
qed

lemma heap_down_step:
  assumes but: "heap_but_down key h i n" and n: "n \<le> length h"
    and j: "parent_ix j = i" "0 < j" "j < n"
    and min: "\<And>k. 0 < k \<Longrightarrow> k < n \<Longrightarrow> parent_ix k = i \<Longrightarrow> key (h ! j) \<le> key (h ! k)"
    and less: "key (h ! j) < key (h ! i)"
  shows "heap_but_down key (swap_at h i j) j n"
proof -
  let ?h = "swap_at h i j"
  have i: "i < j" "i < length h" "j < length h" using j n by auto
  have nth: "?h ! k = (if k = j then h ! i else if k = i then h ! j else h ! k)"
    if "k < length h" for k using that i by (simp add: nth_swap_at)
  have *: "key (h ! parent_ix k) \<le> key (h ! k)" if "0 < k" "k < n" "parent_ix k \<noteq> i" for k
    using but that by (simp add: heap_but_down_def)
  have **: "key (h ! parent_ix i) \<le> key (h ! k)" if "0 < k" "k < n" "parent_ix k = i" "0 < i" for k
    using but that by (simp add: heap_but_down_def)
  show ?thesis unfolding heap_but_down_def
  proof (intro allI impI conjI)
    fix k assume k: "0 < k" "k < n" and ne: "parent_ix k \<noteq> j"
    have kl: "k < length h" "parent_ix k < length h" using k n by auto
    consider "parent_ix k = i" "k = j" | "parent_ix k = i" "k \<noteq> j" | "parent_ix k \<noteq> i" "k = i"
      | "parent_ix k \<noteq> i" "k \<noteq> i" by blast
    then show "key (?h ! parent_ix k) \<le> key (?h ! k)"
    proof cases
      case 1
      then show ?thesis using kl less i by (simp add: nth)
    next
      case 2
      have "k \<noteq> i" using 2 k by auto
      then show ?thesis using 2 kl ne i min [OF k 2(1)] by (simp add: nth)
    next
      case 3
      then have "key (h ! parent_ix i) \<le> key (h ! j)" using ** [of j] j k by simp
      moreover have "parent_ix i \<noteq> j" using i by auto
      ultimately show ?thesis using 3 kl ne i by (simp add: nth)
    next
      case 4
      then have "k \<noteq> j" using j by auto
      then show ?thesis using 4 kl ne * [OF k 4(1)] by (simp add: nth)
    qed
  next
    fix k assume k: "0 < k" "k < n" and pk: "parent_ix k = j"
    have "k \<noteq> j" "k \<noteq> i" using pk k i by auto
    moreover have "key (h ! j) \<le> key (h ! k)" using * [OF k] pk i by simp
    ultimately show "key (?h ! parent_ix j) \<le> key (?h ! k)" using k n j i by (simp add: nth)
  qed
qed

lemma parent_ix_children: "0 < k \<Longrightarrow> parent_ix k = i \<longleftrightarrow> k = 2 * i + 1 \<or> k = 2 * i + 2"
  by auto

lemma heap_down_is_heap:
  "heap_but_down key h i n \<Longrightarrow> n \<le> length h \<Longrightarrow> is_heap key (take n (heap_down key h i n))"
proof (induction key h i n rule: heap_down.induct)
  case (1 key h i n)
  let ?j1 = "2 * i + 1"
  define j where "j = (if ?j1 + 1 < n \<and> key (h ! (?j1 + 1)) < key (h ! ?j1) then ?j1 + 1 else ?j1)"
  have eq: "heap_down key h i n =
      (if n \<le> ?j1 then h else if \<not> key (h ! j) < key (h ! i) then h
       else heap_down key (swap_at h i j) j n)"
    by (subst heap_down.simps) (simp only: Let_def j_def)
  have min: "key (h ! j) \<le> key (h ! k)" if "0 < k" "k < n" "parent_ix k = i" for k
  proof -
    from that have "k = ?j1 \<or> k = ?j1 + 1" by auto
    then show ?thesis using that(2) by (auto simp: j_def not_less)
  qed
  have done': "is_heap key (take n h)"
    if "n \<le> ?j1 \<or> \<not> key (h ! j) < key (h ! i)"
    unfolding is_heap_def
  proof (intro allI impI)
    fix k assume k: "0 < k" "k < length (take n h)"
    then have kn: "k < n" "parent_ix k < n" by auto
    have "key (h ! parent_ix k) \<le> key (h ! k)"
    proof (cases "parent_ix k = i")
      case True
      then have "?j1 < n" using kn k by auto
      then have "key (h ! i) \<le> key (h ! j)" using that by auto
      also have "\<dots> \<le> key (h ! k)" using min [OF k(1) kn(1) True] .
      finally show ?thesis using True by simp
    next
      case False
      then show ?thesis using "1.prems"(1) k kn by (simp add: heap_but_down_def)
    qed
    then show "key (take n h ! parent_ix k) \<le> key (take n h ! k)" using kn by simp
  qed
  show ?case
  proof (cases "n \<le> ?j1 \<or> \<not> key (h ! j) < key (h ! i)")
    case True
    then show ?thesis using done' eq by auto
  next
    case False
    have j: "parent_ix j = i" "0 < j" "j < n" using False by (auto simp: j_def)
    have "heap_but_down key (swap_at h i j) j n"
      by (rule heap_down_step [OF "1.prems" j min]) (use False in auto)
    then have "is_heap key (take n (heap_down key (swap_at h i j) j n))"
      using "1.IH" [OF refl _ refl j_def] False "1.prems" by simp
    then show ?thesis using False by (simp add: eq)
  qed
qed

lemma is_heap_root:
  assumes "is_heap key h" and "k < length h"
  shows "key (h ! 0) \<le> key (h ! k)"
  using assms(2)
proof (induction k rule: less_induct)
  case (less k)
  show ?case
  proof (cases "k = 0")
    case False
    then have "key (h ! 0) \<le> key (h ! parent_ix k)" using less by simp
    also have "\<dots> \<le> key (h ! k)" using False less assms(1) by (simp add: is_heap_def)
    finally show ?thesis .
  qed simp
qed

lemma heap_pop_Some:
  assumes "heap_pop key h = Some (x, h')"
  shows "h \<noteq> []" "x = h ! 0" "mset h = add_mset x (mset h')"
proof -
  let ?n = "length h - 1" and ?d = "heap_down key (swap_at h 0 (length h - 1)) 0 (length h - 1)"
  from assms show ne: "h \<noteq> []" by (auto simp: heap_pop_def)
  with assms have x: "x = ?d ! ?n" and h': "h' = take ?n ?d"
    by (simp_all add: heap_pop_def Let_def)
  have "?d ! ?n = swap_at h 0 ?n ! ?n" using ne by (intro heap_down_frame) auto
  also have "\<dots> = h ! 0" using ne by (auto simp: nth_swap_at)
  finally show x0: "x = h ! 0" using x by simp
  have len: "length ?d = Suc ?n" using ne by (simp add: Suc_diff_1)
  then have "take (Suc ?n) ?d = take ?n ?d @ [?d ! ?n]" by (intro take_Suc_conv_app_nth) simp
  then have "?d = h' @ [x]" using len x h' by simp
  then have "mset ?d = add_mset x (mset h')" by simp
  moreover have "mset ?d = mset h" using ne by (simp add: mset_heap_down mset_swap_at)
  ultimately show "mset h = add_mset x (mset h')" by simp
qed

lemma heap_pop_is_heap:
  assumes heap: "is_heap key h" and pop: "heap_pop key h = Some (x, h')"
  shows "is_heap key h'"
proof -
  let ?n = "length h - 1"
  have ne: "h \<noteq> []" using pop by (auto simp: heap_pop_def)
  have h': "h' = take ?n (heap_down key (swap_at h 0 ?n) 0 ?n)"
    using pop ne by (simp add: heap_pop_def Let_def)
  have "heap_but_down key (swap_at h 0 ?n) 0 ?n"
    unfolding heap_but_down_def
  proof (intro allI impI conjI)
    fix k assume k: "0 < k" "k < ?n" "parent_ix k \<noteq> 0"
    then have p: "parent_ix k < ?n" by auto
    have len: "0 < length h" "?n < length h" "k < length h" "parent_ix k < length h" "k \<noteq> ?n"
      "parent_ix k \<noteq> ?n" using ne k p by auto
    have "key (h ! parent_ix k) \<le> key (h ! k)" using heap k len by (simp add: is_heap_def)
    with k len show "key (swap_at h 0 ?n ! parent_ix k) \<le> key (swap_at h 0 ?n ! k)"
      by (simp add: nth_swap_at)
  qed simp
  then show ?thesis unfolding h' by (rule heap_down_is_heap) simp
qed

lemma heap_pop_min:
  assumes "is_heap key h" and "heap_pop key h = Some (x, h')" and "y \<in> set h"
  shows "key x \<le> key y"
  using assms heap_pop_Some(2) [OF assms(2)] is_heap_root [OF assms(1)]
  by (metis in_set_conv_nth)

lemma heap_pop_None: "heap_pop key h = None \<longleftrightarrow> h = []"
  by (simp add: heap_pop_def Let_def)

lemma is_heap_Nil [simp]: "is_heap key []"
  by (simp add: is_heap_def)

declare One_nat_def [simp]

section \<open>The interface of a user of the heap\<close>

locale go_queue =
  fixes inv :: "'q \<Rightarrow> bool" and elems :: "'q \<Rightarrow> 'a multiset" and rank :: "'a \<Rightarrow> 'k::linorder"
    and push :: "'q \<Rightarrow> 'a \<Rightarrow> 'q" and pop :: "'q \<Rightarrow> ('a \<times> 'q) option"
  assumes inv_push: "inv q \<Longrightarrow> inv (push q x)"
    and inv_pop: "inv q \<Longrightarrow> pop q = Some (x, q') \<Longrightarrow> inv q'"
    and elems_push: "elems (push q x) = add_mset x (elems q)"
    and elems_pop: "pop q = Some (x, q') \<Longrightarrow> elems q = add_mset x (elems q')"
    and pop_least: "inv q \<Longrightarrow> pop q = Some (x, q') \<Longrightarrow> y \<in># elems q \<Longrightarrow> rank x \<le> rank y"
    and pop_empty: "pop q = None \<longleftrightarrow> elems q = {#}"
begin

lemma pop_set: "pop q = Some (x, q') \<Longrightarrow> set_mset (elems q) = insert x (set_mset (elems q'))"
  by (simp add: elems_pop)

lemma pop_size: "pop q = Some (x, q') \<Longrightarrow> size (elems q) = Suc (size (elems q'))"
  by (simp add: elems_pop)

lemma push_set: "set_mset (elems (push q x)) = insert x (set_mset (elems q))"
  by (simp add: elems_push)

lemma pop_rest_ge: "inv q \<Longrightarrow> pop q = Some (x, q') \<Longrightarrow> y \<in># elems q' \<Longrightarrow> rank x \<le> rank y"
  using pop_least [of q x q' y] by (simp add: elems_pop)

end

interpretation go_heap: go_queue "is_heap key" mset key "heap_push key" "heap_pop key"
  for key :: "'a \<Rightarrow> 'k::linorder"
proof unfold_locales
  show "is_heap key q \<Longrightarrow> is_heap key (heap_push key q x)" for q x
    by (rule heap_push_is_heap)
  show "is_heap key q \<Longrightarrow> heap_pop key q = Some (x, q') \<Longrightarrow> is_heap key q'" for q x q'
    by (rule heap_pop_is_heap)
  show "mset (heap_push key q x) = add_mset x (mset q)" for q x
    by (rule mset_heap_push)
  show "heap_pop key q = Some (x, q') \<Longrightarrow> mset q = add_mset x (mset q')" for q x q'
    by (rule heap_pop_Some)
  show "is_heap key q \<Longrightarrow> heap_pop key q = Some (x, q') \<Longrightarrow> y \<in># mset q \<Longrightarrow> key x \<le> key y"
    for q x q' y by (simp add: heap_pop_min)
  show "heap_pop key q = None \<longleftrightarrow> mset q = {#}" for q
    by (simp add: heap_pop_None)
qed

end
