(* ===== verification/Memkv.thy ===== *)
theory Memkv
  imports GoHeap
begin

unbundle bit_operations_syntax

text \<open>
  The in-memory key-value store of \<open>pkg/memkv/store.go\<close>: sharded map with per-entry expiry
  times, byte accounting with an optional limit, metrics, and the queue and loop of the
  background expirer. Every operation is a function of the store and of the values its
  calls of \<open>nowFn\<close> return (nanoseconds since the epoch). A byte slice is a value, so
  \<open>copyIfNeeded\<close> is the identity on it. The \<open>index\<close> field of queue items is written by the
  heap and never read, and is left out.

  \<open>kv_map\<close> forgets the sharding; \<open>kv_view\<close> is what a reader sees at a moment. The lemmas show
  how every operation acts on \<open>kv_map\<close>, that every operation keeps the store well formed
  (\<open>kv_inv\<close>: heap-ordered queue that covers every expiring entry), when the counters agree
  with the contents (\<open>kv_acct\<close>), and what one drain of the queue removes.
\<close>

section \<open>State\<close>

record Options =
  opt_Shards :: int
  opt_CopyOnSet :: bool
  opt_CopyOnGet :: bool
  opt_ExpireJitter :: int
  opt_MaxBytes :: uint64

definition withDefaults :: "Options \<Rightarrow> Options" where
  "withDefaults o' =
     (let res = o';
          res = (if opt_Shards res \<le> 0 then res\<lparr>opt_Shards := 256\<rparr> else res);
          res = (if \<not> opt_CopyOnSet res then res\<lparr>opt_CopyOnSet := True\<rparr> else res);
          res = (if \<not> opt_CopyOnGet res then res\<lparr>opt_CopyOnGet := True\<rparr> else res)
      in res)"

record kv_entry =
  ent_val :: "byte list"
  ent_expireAt :: int

type_synonym kv_shard = "string \<Rightarrow> kv_entry option"

record expItem =
  it_when :: int
  it_key :: string

record Store =
  st_opts :: Options
  st_shards :: "kv_shard list"
  st_expq :: "expItem list"
  st_closed :: bool
  mKeys :: uint64
  mBytes :: uint64
  mSets :: uint64
  mGets :: uint64
  mHits :: uint64
  mMisses :: uint64
  mDels :: uint64
  mExpired :: uint64
  mUpdates :: uint64

definition New :: "Options \<Rightarrow> Store" where
  "New opts =
     (let opts = withDefaults opts in
      \<lparr>st_opts = opts, st_shards = replicate (nat (opt_Shards opts)) Map.empty, st_expq = [],
       st_closed = False, mKeys = 0, mBytes = 0, mSets = 0, mGets = 0, mHits = 0, mMisses = 0,
       mDels = 0, mExpired = 0, mUpdates = 0\<rparr>)"

text \<open>Closing a closed channel panics: \<open>None\<close>.\<close>

definition Close :: "Store \<Rightarrow> Store option" where
  "Close s = (if st_closed s then None else Some (s\<lparr>st_closed := True\<rparr>))"

section \<open>Shards\<close>

definition fnv_step :: "uint64 \<Rightarrow> char \<Rightarrow> uint64" where
  "fnv_step h c = (h XOR of_char c) * 1099511628211"

definition shard_ix :: "Store \<Rightarrow> string \<Rightarrow> nat" where
  "shard_ix s key = unat (foldl fnv_step 1469598103934665603 key mod of_nat (length (st_shards s)))"

definition shardFor :: "Store \<Rightarrow> string \<Rightarrow> kv_shard" where
  "shardFor s key = st_shards s ! shard_ix s key"

definition put_shard :: "Store \<Rightarrow> string \<Rightarrow> kv_shard \<Rightarrow> Store" where
  "put_shard s key m = s\<lparr>st_shards := (st_shards s)[shard_ix s key := m]\<rparr>"

abbreviation store_entry :: "Store \<Rightarrow> string \<Rightarrow> kv_entry \<Rightarrow> Store" where
  "store_entry s key e \<equiv> put_shard s key ((shardFor s key)(key \<mapsto> e))"

abbreviation delete_entry :: "Store \<Rightarrow> string \<Rightarrow> Store" where
  "delete_entry s key \<equiv> put_shard s key ((shardFor s key)(key := None))"

definition copyIfNeeded :: "byte list \<Rightarrow> bool \<Rightarrow> byte list" where
  "copyIfNeeded b doCopy = (if \<not> doCopy then b else map (\<lambda>x. x) b)"

section \<open>Byte accounting\<close>

definition tryAddBytes :: "Store \<Rightarrow> uint64 \<Rightarrow> bool \<times> Store" where
  "tryAddBytes s delta =
     (if opt_MaxBytes (st_opts s) = 0 then (True, s\<lparr>mBytes := mBytes s + delta\<rparr>)
      else let nxt = mBytes s + delta in
        if nxt > opt_MaxBytes (st_opts s) then (False, s) else (True, s\<lparr>mBytes := nxt\<rparr>))"

definition addBytesDelta :: "Store \<Rightarrow> int \<Rightarrow> Store" where
  "addBytesDelta s delta =
     (if delta = 0 then s
      else let cur = mBytes s;
               nxt = (if delta > 0 then cur + of_int delta
                      else let sub = of_int (- delta) in if sub > cur then 0 else cur - sub)
           in s\<lparr>mBytes := nxt\<rparr>)"

section \<open>Operations\<close>

definition enqueueExpire :: "Store \<Rightarrow> string \<Rightarrow> int \<Rightarrow> Store" where
  "enqueueExpire s key when =
     s\<lparr>st_expq := heap_push it_when (st_expq s) \<lparr>it_when = when, it_key = key\<rparr>\<rparr>"

definition set_expAt :: "Store \<Rightarrow> int \<Rightarrow> int \<Rightarrow> int" where
  "set_expAt s ttl now =
     (if ttl > 0 then
        let j = opt_ExpireJitter (st_opts s);
            ttl = (if j > 0 then
                     let t = i64 (ttl + i64 (j * (go_mod now 3 - 1))) in if t < 0 then 0 else t
                   else ttl)
        in i64 (now + ttl)
      else 0)"

definition Set :: "Store \<Rightarrow> string \<Rightarrow> byte list \<Rightarrow> int \<Rightarrow> int \<Rightarrow> bool \<times> Store" where
  "Set s key val ttl now =
     (let expAt = set_expAt s ttl now;
          v = copyIfNeeded val (opt_CopyOnSet (st_opts s));
          prev = shardFor s key key;
          existed = (prev \<noteq> None);
          oldLen = (case prev of None \<Rightarrow> 0 | Some e \<Rightarrow> int (length (ent_val e)));
          delta = int (length v) - oldLen;
          (ok, s) = (if delta > 0 then tryAddBytes s (of_int delta) else (True, s))
      in if \<not> ok then (False, s)
         else
           let s = store_entry s key \<lparr>ent_val = v, ent_expireAt = expAt\<rparr>;
               s = (if \<not> existed then s\<lparr>mKeys := mKeys s + 1\<rparr>
                    else if delta < 0 then addBytesDelta s delta else s);
               s = s\<lparr>mSets := mSets s + 1\<rparr>;
               s = (if expAt \<noteq> 0 then enqueueExpire s key expAt else s)
           in (\<not> existed, s))"

definition expired :: "kv_entry \<Rightarrow> int \<Rightarrow> bool" where
  "expired e now \<longleftrightarrow> ent_expireAt e \<noteq> 0 \<and> ent_expireAt e \<le> now"

text \<open>The eviction block \<open>Get\<close>, \<open>GetNoCopy\<close> and the expirer share, run under the shard lock.\<close>

definition evict_expired :: "Store \<Rightarrow> string \<Rightarrow> int \<Rightarrow> Store" where
  "evict_expired s key now =
     (case shardFor s key key of
        Some e2 \<Rightarrow>
          if expired e2 now then
            let s = delete_entry s key;
                s = s\<lparr>mExpired := mExpired s + 1\<rparr>;
                s = s\<lparr>mKeys := mKeys s + (- 1)\<rparr>
            in addBytesDelta s (- int (length (ent_val e2)))
          else s
      | None \<Rightarrow> s)"

definition count_miss :: "Store \<Rightarrow> Store" where
  "count_miss s = s\<lparr>mGets := mGets s + 1, mMisses := mMisses s + 1\<rparr>"

definition count_hit :: "Store \<Rightarrow> Store" where
  "count_hit s = s\<lparr>mGets := mGets s + 1, mHits := mHits s + 1\<rparr>"

text \<open>\<open>now\<close> is read under the read lock, \<open>now2\<close> again under the write lock.\<close>

definition Get :: "Store \<Rightarrow> string \<Rightarrow> int \<Rightarrow> int \<Rightarrow> byte list option \<times> Store" where
  "Get s key now now2 =
     (case shardFor s key key of
        None \<Rightarrow> (None, count_miss s)
      | Some e \<Rightarrow>
          if expired e now then (None, count_miss (evict_expired s key now2))
          else (Some (copyIfNeeded (ent_val e) (opt_CopyOnGet (st_opts s))), count_hit s))"

definition GetNoCopy :: "Store \<Rightarrow> string \<Rightarrow> int \<Rightarrow> int \<Rightarrow> byte list option \<times> Store" where
  "GetNoCopy s key now now2 =
     (case shardFor s key key of
        None \<Rightarrow> (None, count_miss s)
      | Some e \<Rightarrow>
          if expired e now then (None, count_miss (evict_expired s key now2))
          else (Some (ent_val e), count_hit s))"

definition GetDel :: "Store \<Rightarrow> string \<Rightarrow> int \<Rightarrow> byte list option \<times> Store" where
  "GetDel s key now =
     (case shardFor s key key of
        None \<Rightarrow> (None, count_miss s)
      | Some e \<Rightarrow>
          if expired e now then
            let s = delete_entry s key;
                s = s\<lparr>mExpired := mExpired s + 1, mKeys := mKeys s + (- 1)\<rparr>;
                s = addBytesDelta s (- int (length (ent_val e)))
            in (None, count_miss s)
          else
            let s = delete_entry s key;
                s = count_hit (s\<lparr>mDels := mDels s + 1\<rparr>);
                s = s\<lparr>mKeys := mKeys s + (- 1)\<rparr>;
                s = addBytesDelta s (- int (length (ent_val e)))
            in (Some (copyIfNeeded (ent_val e) (opt_CopyOnGet (st_opts s))), s))"

definition GetAndDelete :: "Store \<Rightarrow> string \<Rightarrow> int \<Rightarrow> byte list option \<times> Store" where
  "GetAndDelete s key now = GetDel s key now"

definition Update :: "Store \<Rightarrow> string \<Rightarrow> (byte list \<Rightarrow> byte list) \<Rightarrow> int \<Rightarrow> bool \<times> Store" where
  "Update s key fn now =
     (case shardFor s key key of
        None \<Rightarrow> (False, s)
      | Some e \<Rightarrow>
          if expired e now then (False, delete_entry s key)
          else
            let newVal = fn (ent_val e);
                delta = int (length newVal) - int (length (ent_val e));
                (ok, s) = (if delta > 0 then tryAddBytes s (of_int delta) else (True, s))
            in if \<not> ok then (False, s)
               else
                 let s = store_entry s key
                           (e\<lparr>ent_val := copyIfNeeded newVal (opt_CopyOnSet (st_opts s))\<rparr>);
                     s = (if delta < 0 then addBytesDelta s delta else s)
                 in (True, s\<lparr>mUpdates := mUpdates s + 1\<rparr>))"

definition Exists :: "Store \<Rightarrow> string \<Rightarrow> int \<Rightarrow> int \<Rightarrow> bool \<times> Store" where
  "Exists s key now now2 = (case Get s key now now2 of (r, s) \<Rightarrow> (r \<noteq> None, s))"

definition Delete :: "Store \<Rightarrow> string \<Rightarrow> bool \<times> Store" where
  "Delete s key =
     (case shardFor s key key of
        None \<Rightarrow> (False, s)
      | Some e \<Rightarrow>
          let s = delete_entry s key;
              s = s\<lparr>mDels := mDels s + 1, mKeys := mKeys s + (- 1)\<rparr>
          in (True, addBytesDelta s (- int (length (ent_val e)))))"

definition Expire :: "Store \<Rightarrow> string \<Rightarrow> int \<Rightarrow> int \<Rightarrow> int \<Rightarrow> bool \<times> Store" where
  "Expire s key ttl now now2 =
     (if ttl \<le> 0 then Delete s key
      else
        let exp = i64 (now + ttl) in
        case shardFor s key key of
          None \<Rightarrow> (False, s)
        | Some e \<Rightarrow>
            if expired e now2 then
              let s = delete_entry s key;
                  s = s\<lparr>mExpired := mExpired s + 1, mKeys := mKeys s + (- 1)\<rparr>
              in (False, addBytesDelta s (- int (length (ent_val e))))
            else (True, enqueueExpire (store_entry s key (e\<lparr>ent_expireAt := exp\<rparr>)) key exp))"

definition TTL :: "Store \<Rightarrow> string \<Rightarrow> int \<Rightarrow> (int \<times> bool) \<times> Store" where
  "TTL s key now =
     (case shardFor s key key of
        None \<Rightarrow> ((0, False), s)
      | Some e \<Rightarrow>
          if ent_expireAt e = 0 then ((0, True), s)
          else if ent_expireAt e \<le> now then ((0, False), snd (Delete s key))
          else ((i64 (ent_expireAt e - now), True), s))"

record Stats =
  Keys :: uint64
  Bytes :: uint64
  Sets :: uint64
  Gets :: uint64
  Hits :: uint64
  Misses :: uint64
  Dels :: uint64
  Expired :: uint64
  Updates :: uint64

definition Metrics :: "Store \<Rightarrow> Stats" where
  "Metrics s = \<lparr>Keys = mKeys s, Bytes = mBytes s, Sets = mSets s, Gets = mGets s,
     Hits = mHits s, Misses = mMisses s, Dels = mDels s, Expired = mExpired s,
     Updates = mUpdates s\<rparr>"

section \<open>The expirer\<close>

text \<open>
  One turn of the loop of \<open>expirer\<close>: it waits on an empty queue (or exits once closed),
  sleeps until the first deadline, or takes the first item out and evicts its key when the
  entry is expired by then. Only \<open>closeCh\<close> ends a sleep early.
\<close>

datatype exp_turn = ExpWait | ExpExit | ExpSleep int | ExpPop expItem

definition expirer_turn :: "Store \<Rightarrow> int \<Rightarrow> int \<Rightarrow> exp_turn \<times> Store" where
  "expirer_turn s now nowN =
     (case heap_pop it_when (st_expq s) of
        None \<Rightarrow> (if st_closed s then ExpExit else ExpWait, s)
      | Some (it, q) \<Rightarrow>
          if it_when (st_expq s ! 0) > now then
            (ExpSleep (i64 (it_when (st_expq s ! 0) - now)), s)
          else (ExpPop it, evict_expired (s\<lparr>st_expq := q\<rparr>) (it_key it) nowN))"

text \<open>Turns until the loop waits or sleeps, while the clock stands still.\<close>

function expirer_drain :: "Store \<Rightarrow> int \<Rightarrow> exp_turn \<times> Store" where
  "expirer_drain s now =
     (case heap_pop it_when (st_expq s) of
        None \<Rightarrow> expirer_turn s now now
      | Some _ \<Rightarrow>
          if it_when (st_expq s ! 0) > now then expirer_turn s now now
          else expirer_drain (snd (expirer_turn s now now)) now)"
  by pat_completeness auto


lemma evict_expired_expq [simp]: "st_expq (evict_expired s key now) = st_expq s"
  by (simp add: evict_expired_def addBytesDelta_def put_shard_def Let_def split: option.split)

termination expirer_drain
proof (relation "measure (\<lambda>(s, now). length (st_expq s))")
  fix s :: Store and now :: int and x2 :: "expItem \<times> expItem list"
  assume pop: "heap_pop it_when (st_expq s) = Some x2" and le: "\<not> it_when (st_expq s ! 0) > now"
  obtain it q where x2: "x2 = (it, q)" by (cases x2)
  have "size (mset (st_expq s)) = Suc (size (mset q))"
    using heap_pop_Some(3) pop x2 by fastforce
  then show "((snd (expirer_turn s now now), now), s, now) \<in> measure (\<lambda>(s, now). length (st_expq s))"
    using pop le x2 by (simp add: expirer_turn_def)
qed simp

declare expirer_drain.simps [simp del]

section \<open>The flat map\<close>

definition kv_map :: "Store \<Rightarrow> string \<Rightarrow> kv_entry option" where
  "kv_map s key = shardFor s key key"

definition kv_sized :: "Store \<Rightarrow> bool" where
  "kv_sized s \<longleftrightarrow> 0 < length (st_shards s) \<and> length (st_shards s) < 2 ^ 63"

lemma shard_ix_less: "kv_sized s \<Longrightarrow> shard_ix s key < length (st_shards s)"
proof -
  assume "kv_sized s"
  then have n: "0 < length (st_shards s)" "length (st_shards s) < 2 ^ 64" by (auto simp: kv_sized_def)
  have "unat (of_nat (length (st_shards s)) :: uint64) = length (st_shards s)"
    using n(2) by (simp add: unat_of_nat take_bit_eq_mod)
  then show ?thesis using n(1) by (simp add: shard_ix_def unat_mod_distrib)
qed

lemma shard_ix_cong: "length (st_shards s) = length (st_shards t) \<Longrightarrow> shard_ix s = shard_ix t"
  by (simp add: shard_ix_def fun_eq_iff)

lemma length_put_shard [simp]: "length (st_shards (put_shard s key m)) = length (st_shards s)"
  by (simp add: put_shard_def)

lemma shard_ix_put [simp]: "shard_ix (put_shard s key m) = shard_ix s"
  by (rule shard_ix_cong) simp

lemma kv_map_put [map_simps]:
  assumes "kv_sized s"
  shows "kv_map (put_shard s key ((shardFor s key)(key := x))) = (kv_map s)(key := x)"
proof
  fix k
  have "shard_ix s key < length (st_shards s)" using assms by (rule shard_ix_less)
  then show "kv_map (put_shard s key ((shardFor s key)(key := x))) k = ((kv_map s)(key := x)) k"
    by (cases "shard_ix s k = shard_ix s key")
      (auto simp: kv_map_def shardFor_def put_shard_def [of s] shard_ix_def)
qed

text \<open>Everything but the shards leaves the map alone.\<close>

lemma kv_map_cong: "st_shards s = st_shards t \<Longrightarrow> kv_map s = kv_map t"
  by (simp add: fun_eq_iff kv_map_def shardFor_def shard_ix_def)

lemma kv_map_fields [map_simps]:
  "kv_map (s\<lparr>mKeys := x\<rparr>) = kv_map s" "kv_map (s\<lparr>mBytes := x\<rparr>) = kv_map s"
  "kv_map (s\<lparr>mSets := x\<rparr>) = kv_map s" "kv_map (s\<lparr>mGets := x\<rparr>) = kv_map s"
  "kv_map (s\<lparr>mHits := x\<rparr>) = kv_map s" "kv_map (s\<lparr>mMisses := x\<rparr>) = kv_map s"
  "kv_map (s\<lparr>mDels := x\<rparr>) = kv_map s" "kv_map (s\<lparr>mExpired := x\<rparr>) = kv_map s"
  "kv_map (s\<lparr>mUpdates := x\<rparr>) = kv_map s" "kv_map (s\<lparr>st_expq := q\<rparr>) = kv_map s"
  "kv_map (s\<lparr>st_closed := b\<rparr>) = kv_map s"
  by (rule kv_map_cong, simp)+

text \<open>The counters an operation adjusts, seen from the rest of the state.\<close>

lemma addBytesDelta_frame [simp]:
  "st_shards (addBytesDelta s d) = st_shards s" "st_expq (addBytesDelta s d) = st_expq s"
  "st_opts (addBytesDelta s d) = st_opts s" "mKeys (addBytesDelta s d) = mKeys s"
  by (simp_all add: addBytesDelta_def Let_def)

lemma tryAddBytes_frame [simp]:
  "st_shards (snd (tryAddBytes s d)) = st_shards s" "st_expq (snd (tryAddBytes s d)) = st_expq s"
  "st_opts (snd (tryAddBytes s d)) = st_opts s" "mKeys (snd (tryAddBytes s d)) = mKeys s"
  by (simp_all add: tryAddBytes_def Let_def)

lemma put_shard_frame [simp]:
  "st_expq (put_shard s k m) = st_expq s" "st_opts (put_shard s k m) = st_opts s"
  "mKeys (put_shard s k m) = mKeys s" "mBytes (put_shard s k m) = mBytes s"
  by (simp_all add: put_shard_def)

lemma kv_map_bytes [map_simps]:
  "kv_map (addBytesDelta s d) = kv_map s" "kv_map (snd (tryAddBytes s w)) = kv_map s"
  by (rule kv_map_cong, simp)+

lemma kv_map_apply: "kv_map s key = shardFor s key key"
  by (simp add: kv_map_def)

section \<open>Client operations and reachable states\<close>

datatype kv_op =
    OSet string "byte list" int int
  | OGet string int int
  | OGetNoCopy string int int
  | OGetDel string int
  | OUpdate string "byte list \<Rightarrow> byte list" int
  | OExists string int int
  | ODelete string
  | OExpire string int int int
  | OTTL string int

datatype kv_res = RBool bool | RVal "byte list option" | RTTL int bool

fun kv_exec :: "Store \<Rightarrow> kv_op \<Rightarrow> kv_res \<times> Store" where
  "kv_exec s (OSet k v ttl now) = apfst RBool (Set s k v ttl now)"
| "kv_exec s (OGet k now now2) = apfst RVal (Get s k now now2)"
| "kv_exec s (OGetNoCopy k now now2) = apfst RVal (GetNoCopy s k now now2)"
| "kv_exec s (OGetDel k now) = apfst RVal (GetAndDelete s k now)"
| "kv_exec s (OUpdate k f now) = apfst RBool (Update s k f now)"
| "kv_exec s (OExists k now now2) = apfst RBool (Exists s k now now2)"
| "kv_exec s (ODelete k) = apfst RBool (Delete s k)"
| "kv_exec s (OExpire k ttl now now2) = apfst RBool (Expire s k ttl now now2)"
| "kv_exec s (OTTL k now) = apfst (\<lambda>(d, ok). RTTL d ok) (TTL s k now)"

text \<open>A state some interleaving of client operations, turns of the expirer and \<open>Close\<close> leads to.\<close>

inductive kv_reachable :: "Options \<Rightarrow> Store \<Rightarrow> bool" for opts where
  kv_start: "opt_Shards opts < 2 ^ 63 \<Longrightarrow> kv_reachable opts (New opts)"
| kv_client: "kv_reachable opts s \<Longrightarrow> kv_reachable opts (snd (kv_exec s op'))"
| kv_turn: "kv_reachable opts s \<Longrightarrow> now \<le> nowN \<Longrightarrow> kv_reachable opts (snd (expirer_turn s now nowN))"
| kv_close: "kv_reachable opts s \<Longrightarrow> Close s = Some t \<Longrightarrow> kv_reachable opts t"

section \<open>Specification on the flat map\<close>

type_synonym kv_flat = "string \<Rightarrow> kv_entry option"

definition elen :: "kv_entry option \<Rightarrow> nat" where
  "elen x = (case x of None \<Rightarrow> 0 | Some e \<Rightarrow> length (ent_val e))"

definition kv_bytes :: "kv_flat \<Rightarrow> nat" where
  "kv_bytes m = (\<Sum>k \<in> dom m. elen (m k))"

definition live :: "kv_flat \<Rightarrow> string \<Rightarrow> int \<Rightarrow> kv_entry option" where
  "live m k now = (case m k of None \<Rightarrow> None | Some e \<Rightarrow> if expired e now then None else Some e)"

definition purge :: "kv_flat \<Rightarrow> string \<Rightarrow> int \<Rightarrow> kv_flat" where
  "purge m k now = (if live m k now = None then m(k := None) else m)"

text \<open>
  \<open>Update\<close> on an expired entry takes it out of the map and leaves the counters as they were.
  The keys and the bytes lost so: they stay in \<open>Keys\<close> and \<open>Bytes\<close> and count against the limit.
\<close>

type_synonym kv_lost = "nat \<times> nat"

definition kv_lose :: "kv_flat \<Rightarrow> kv_op \<Rightarrow> kv_lost \<Rightarrow> kv_lost" where
  "kv_lose m op' l =
     (case op' of
        OUpdate k f now \<Rightarrow>
          (case m k of
             Some e \<Rightarrow> if expired e now then (fst l + 1, snd l + length (ent_val e)) else l
           | None \<Rightarrow> l)
      | _ \<Rightarrow> l)"

text \<open>
  Whether a value of length \<open>n\<close> may replace the entry of \<open>k\<close> under the limit \<open>L\<close> (0: none),
  with \<open>x\<close> lost bytes.
\<close>

definition fits :: "nat \<Rightarrow> nat \<Rightarrow> kv_flat \<Rightarrow> string \<Rightarrow> nat \<Rightarrow> bool" where
  "fits L x m k n \<longleftrightarrow> L = 0 \<or> n \<le> elen (m k) \<or> kv_bytes m + x + n - elen (m k) \<le> L"

fun kv_spec :: "Store \<Rightarrow> kv_lost \<Rightarrow> kv_flat \<Rightarrow> kv_op \<Rightarrow> kv_res \<times> kv_flat" where
  "kv_spec s l m (OSet k v ttl now) =
     (if fits (unat (opt_MaxBytes (st_opts s))) (snd l) m k (length v)
      then (RBool (m k = None), m(k \<mapsto> \<lparr>ent_val = v, ent_expireAt = set_expAt s ttl now\<rparr>))
      else (RBool False, m))"
| "kv_spec s l m (OGet k now now2) =
     (case live m k now of None \<Rightarrow> (RVal None, purge m k now2) | Some e \<Rightarrow> (RVal (Some (ent_val e)), m))"
| "kv_spec s l m (OGetNoCopy k now now2) =
     (case live m k now of None \<Rightarrow> (RVal None, purge m k now2) | Some e \<Rightarrow> (RVal (Some (ent_val e)), m))"
| "kv_spec s l m (OGetDel k now) = (RVal (map_option ent_val (live m k now)), m(k := None))"
| "kv_spec s l m (OUpdate k f now) =
     (case live m k now of
        None \<Rightarrow> (RBool False, m(k := None))
      | Some e \<Rightarrow>
          if fits (unat (opt_MaxBytes (st_opts s))) (snd l) m k (length (f (ent_val e)))
          then (RBool True, m(k \<mapsto> e\<lparr>ent_val := f (ent_val e)\<rparr>)) else (RBool False, m))"
| "kv_spec s l m (OExists k now now2) =
     (case live m k now of None \<Rightarrow> (RBool False, purge m k now2) | Some e \<Rightarrow> (RBool True, m))"
| "kv_spec s l m (ODelete k) = (RBool (m k \<noteq> None), m(k := None))"
| "kv_spec s l m (OExpire k ttl now now2) =
     (if ttl \<le> 0 then (RBool (m k \<noteq> None), m(k := None))
      else case live m k now2 of
          None \<Rightarrow> (RBool False, m(k := None))
        | Some e \<Rightarrow> (RBool True, m(k \<mapsto> e\<lparr>ent_expireAt := i64 (now + ttl)\<rparr>)))"
| "kv_spec s l m (OTTL k now) =
     (case live m k now of
        None \<Rightarrow> (RTTL 0 False, m(k := None))
      | Some e \<Rightarrow>
          (RTTL (if ent_expireAt e = 0 then 0 else i64 (ent_expireAt e - now)) True, m))"

section \<open>Accounting\<close>

lemma kv_bytes_upd:
  assumes "finite (dom m)"
  shows "kv_bytes (m(k := x)) + elen (m k) = kv_bytes m + elen x"
proof -
  let ?D = "dom m - {k}"
  have other: "(\<Sum>j \<in> ?D. elen ((m(k := x)) j)) = (\<Sum>j \<in> ?D. elen (m j))"
    by (rule sum.cong) auto
  have split: "kv_bytes n = (\<Sum>j \<in> ?D. elen (n j)) + elen (n k)" if "dom n - {k} = ?D" for n
  proof -
    have "finite (dom n)" using assms that by (metis finite.emptyI finite_Diff2 finite_insert)
    then have "kv_bytes n = (\<Sum>j \<in> dom n \<union> {k}. elen (n j))"
      unfolding kv_bytes_def by (rule sum.mono_neutral_left [OF finite_UnI]) (auto simp: elen_def domIff)
    also have "\<dots> = (\<Sum>j \<in> insert k ?D. elen (n j))" using that by (intro sum.cong) auto
    finally show ?thesis using assms by (simp add: sum.insert_remove)
  qed
  have "kv_bytes m = (\<Sum>j \<in> ?D. elen (m j)) + elen (m k)"
    "kv_bytes (m(k := x)) = (\<Sum>j \<in> ?D. elen (m j)) + elen x"
    using split [of m] split [of "m(k := x)"] other by auto
  then show ?thesis by simp
qed

lemma elen_le_kv_bytes: "finite (dom m) \<Longrightarrow> elen (m k) \<le> kv_bytes m"
  using kv_bytes_upd [of m k None] by (simp add: elen_def)

lemma mBytes_sub:
  "n \<le> unat (mBytes s) \<Longrightarrow> unat (mBytes (addBytesDelta s (- int n))) = unat (mBytes s) - n"
proof -
  assume n: "n \<le> unat (mBytes s)"
  then have "n < 2 ^ 64" using unsigned_less [of "mBytes s", where ?'a = nat] by simp
  then have u: "unat (of_nat n :: uint64) = n" by (simp add: unat_of_nat take_bit_eq_mod)
  then have "(of_nat n :: uint64) \<le> mBytes s" using n by (simp add: word_le_nat_alt)
  then show ?thesis using u by (auto simp: addBytesDelta_def Let_def unat_sub)
qed

lemma mBytes_add:
  assumes "0 < d" "unat (mBytes s) + nat d < 2 ^ 64"
  shows "fst (tryAddBytes s (of_int d)) \<longleftrightarrow>
      opt_MaxBytes (st_opts s) = 0 \<or> unat (mBytes s) + nat d \<le> unat (opt_MaxBytes (st_opts s))"
    and "fst (tryAddBytes s (of_int d)) \<Longrightarrow>
      unat (mBytes (snd (tryAddBytes s (of_int d)))) = unat (mBytes s) + nat d"
proof -
  obtain n where d: "d = int n" using assms(1) by (metis less_imp_le zero_le_imp_eq_int)
  have u: "unat (mBytes s + of_nat n) = unat (mBytes s) + n"
    using assms d by (simp add: unat_word_ariths unat_of_nat take_bit_eq_mod mod_simps)
  show "fst (tryAddBytes s (of_int d)) \<longleftrightarrow>
      opt_MaxBytes (st_opts s) = 0 \<or> unat (mBytes s) + nat d \<le> unat (opt_MaxBytes (st_opts s))"
    using u by (auto simp: tryAddBytes_def Let_def d word_less_nat_alt)
  show "fst (tryAddBytes s (of_int d)) \<Longrightarrow>
      unat (mBytes (snd (tryAddBytes s (of_int d)))) = unat (mBytes s) + nat d"
    using u by (auto simp: tryAddBytes_def Let_def d split: if_splits)
qed

text \<open>The counters agree with the contents.\<close>

definition kv_acct :: "kv_lost \<Rightarrow> Store \<Rightarrow> bool" where
  "kv_acct l s \<longleftrightarrow> kv_sized s \<and> finite (dom (kv_map s)) \<and>
     mKeys s = of_nat (card (dom (kv_map s)) + fst l) \<and>
     unat (mBytes s) = kv_bytes (kv_map s) + snd l"

lemma kv_acct_cong:
  "st_shards s = st_shards t \<Longrightarrow> mKeys s = mKeys t \<Longrightarrow> mBytes s = mBytes t \<Longrightarrow> kv_acct l s = kv_acct l t"
  using kv_map_cong [of s t] by (simp add: kv_acct_def kv_sized_def)

lemma kv_acctD:
  assumes "kv_acct l s"
  shows "kv_sized s" "finite (dom (kv_map s))" "mKeys s = of_nat (card (dom (kv_map s)) + fst l)"
    "unat (mBytes s) = kv_bytes (kv_map s) + snd l"
  using assms by (simp_all add: kv_acct_def)

lemma acct_put:
  assumes "kv_acct l s" and sh: "st_shards t = st_shards (put_shard s k ((shardFor s k)(k := x)))"
    and keys: "mKeys t = mKeys s + (if kv_map s k = None \<and> x \<noteq> None then 1
      else if kv_map s k \<noteq> None \<and> x = None then - 1 else 0)"
    and bytes: "unat (mBytes t) + elen (kv_map s k) = unat (mBytes s) + elen x"
  shows "kv_acct l t \<and> kv_map t = (kv_map s)(k := x)"
proof -
  note s = kv_acctD [OF assms(1)]
  have m: "kv_map t = (kv_map s)(k := x)"
    using kv_map_cong [OF sh] kv_map_put [OF s(1)] by simp
  have "kv_sized t" using s(1) sh by (simp add: kv_sized_def)
  moreover have "mKeys t = of_nat (card (dom (kv_map t)) + fst l)"
  proof (cases "k \<in> dom (kv_map s)")
    case True
    then have "0 < card (dom (kv_map s))" using s(2) by (auto simp: card_gt_0_iff)
    then have "of_nat (card (dom (kv_map s)) - 1) = mKeys s - 1 - of_nat (fst l)" using s(3) by (simp add: of_nat_diff)
    then show ?thesis using True keys m s(2,3) by (auto simp: domIff insert_absorb)
  next
    case False
    then show ?thesis using keys m s(2,3) by (auto simp: domIff)
  qed
  moreover have "unat (mBytes t) = kv_bytes (kv_map t) + snd l"
    using kv_bytes_upd [OF s(2), of k x] bytes s(4) m by simp
  ultimately show ?thesis using m s(2) by (simp add: kv_acct_def)
qed

lemma acct_delete:
  assumes "kv_acct l s" "kv_map s k = Some e" "st_shards t = st_shards (delete_entry s k)"
    and "mKeys t = mKeys s + (- 1)" "mBytes t = mBytes (addBytesDelta s (- int (length (ent_val e))))"
  shows "kv_acct l t \<and> kv_map t = (kv_map s)(k := None)"
proof -
  have "length (ent_val e) \<le> unat (mBytes s)"
    using elen_le_kv_bytes [of "kv_map s" k] kv_acctD [OF assms(1)] assms(2) by (simp add: elen_def)
  then have "unat (mBytes t) + elen (kv_map s k) = unat (mBytes s) + elen None"
    using mBytes_sub [of "length (ent_val e)" s] assms by (simp add: elen_def)
  then show ?thesis using acct_put [OF assms(1,3)] assms(2,4) by simp
qed

lemma kv_acct_fields [map_simps]:
  "kv_acct l (s\<lparr>mSets := x\<rparr>) = kv_acct l s" "kv_acct l (s\<lparr>mGets := x\<rparr>) = kv_acct l s"
  "kv_acct l (s\<lparr>mHits := x\<rparr>) = kv_acct l s" "kv_acct l (s\<lparr>mMisses := x\<rparr>) = kv_acct l s"
  "kv_acct l (s\<lparr>mDels := x\<rparr>) = kv_acct l s" "kv_acct l (s\<lparr>mExpired := x\<rparr>) = kv_acct l s"
  "kv_acct l (s\<lparr>mUpdates := x\<rparr>) = kv_acct l s" "kv_acct l (s\<lparr>st_expq := q\<rparr>) = kv_acct l s"
  "kv_acct l (s\<lparr>st_closed := b\<rparr>) = kv_acct l s"
  by (rule kv_acct_cong, simp_all)+

lemma acct_evict:
  assumes "kv_acct l s"
  shows "kv_acct l (evict_expired s k now) \<and> kv_map (evict_expired s k now) = purge (kv_map s) k now"
proof (cases "kv_map s k")
  case None
  then show ?thesis using assms
    by (auto simp: evict_expired_def purge_def live_def kv_map_def [symmetric])
next
  case (Some e)
  show ?thesis
  proof (cases "expired e now")
    case True
    have "kv_acct l (evict_expired s k now) \<and> kv_map (evict_expired s k now) = (kv_map s)(k := None)"
      by (rule acct_delete [OF assms Some])
        (use Some True in \<open>simp_all add: evict_expired_def kv_map_def [symmetric] Let_def addBytesDelta_def\<close>)
    then show ?thesis using Some True by (simp add: purge_def live_def)
  next
    case False
    then show ?thesis using assms Some
      by (simp add: evict_expired_def purge_def live_def kv_map_def [symmetric])
  qed
qed

lemma count_simps [map_simps]:
  "kv_map (count_miss s) = kv_map s" "kv_map (count_hit s) = kv_map s"
  "kv_acct l (count_miss s) = kv_acct l s" "kv_acct l (count_hit s) = kv_acct l s"
  by (simp_all add: count_miss_def count_hit_def map_simps)

text \<open>\<open>refines l r sp\<close>: the outcome \<open>r\<close> of an operation is the one \<open>sp\<close> specifies, with \<open>l\<close> lost.\<close>

definition refines :: "kv_lost \<Rightarrow> 'r \<times> Store \<Rightarrow> 'r \<times> kv_flat \<Rightarrow> bool" where
  "refines l r sp \<longleftrightarrow> fst r = fst sp \<and> kv_map (snd r) = snd sp \<and> kv_acct l (snd r)"

lemma copyIfNeeded_id [simp]: "copyIfNeeded b c = b"
  by (simp add: copyIfNeeded_def)

lemma purge_absent [simp]: "m k = None \<Longrightarrow> purge m k now = m"
  by (simp add: purge_def fun_upd_idem)

lemma Get_refines:
  assumes "kv_acct l s"
  shows "refines l (Get s k now now2)
    (case live (kv_map s) k now of None \<Rightarrow> (None, purge (kv_map s) k now2) | Some e \<Rightarrow> (Some (ent_val e), kv_map s))"
  using assms acct_evict [OF assms, of k now2]
  by (auto simp: Get_def refines_def live_def kv_map_def [symmetric] map_simps split: option.split)

lemma GetNoCopy_Get: "GetNoCopy = Get"
  by (intro ext) (simp add: GetNoCopy_def Get_def split: option.split)

lemma Exists_refines:
  assumes "kv_acct l s"
  shows "refines l (Exists s k now now2)
    (case live (kv_map s) k now of None \<Rightarrow> (False, purge (kv_map s) k now2) | Some e \<Rightarrow> (True, kv_map s))"
  using Get_refines [OF assms, of k now now2]
  by (auto simp: Exists_def refines_def split: option.splits prod.splits)

lemma Delete_refines:
  assumes "kv_acct l s"
  shows "refines l (Delete s k) (kv_map s k \<noteq> None, (kv_map s)(k := None))"
proof (cases "kv_map s k")
  case None
  then show ?thesis using assms
    by (simp add: Delete_def refines_def kv_map_def [symmetric] fun_upd_idem)
next
  case (Some e)
  have "kv_acct l (snd (Delete s k)) \<and> kv_map (snd (Delete s k)) = (kv_map s)(k := None)"
    by (rule acct_delete [OF assms Some])
      (use Some in \<open>simp_all add: Delete_def kv_map_def [symmetric] Let_def addBytesDelta_def\<close>)
  then show ?thesis using Some by (simp add: refines_def Delete_def kv_map_def [symmetric] Let_def)
qed

lemma GetDel_refines:
  assumes "kv_acct l s"
  shows "refines l (GetDel s k now) (map_option ent_val (live (kv_map s) k now), (kv_map s)(k := None))"
proof (cases "kv_map s k")
  case None
  then show ?thesis using assms
    by (simp add: GetDel_def refines_def kv_map_def [symmetric] fun_upd_idem map_simps live_def)
next
  case (Some e)
  have "kv_acct l (snd (GetDel s k now)) \<and> kv_map (snd (GetDel s k now)) = (kv_map s)(k := None)"
    by (rule acct_delete [OF assms Some]) (use Some in \<open>simp_all add: GetDel_def
        kv_map_def [symmetric] Let_def addBytesDelta_def count_miss_def count_hit_def\<close>)
  then show ?thesis using Some
    by (simp add: refines_def GetDel_def kv_map_def [symmetric] Let_def live_def)
qed

text \<open>The reservation step of \<open>Set\<close> and \<open>Update\<close>, on exact counters.\<close>

definition reserve :: "Store \<Rightarrow> int \<Rightarrow> bool \<times> Store" where
  "reserve s delta = (if delta > 0 then tryAddBytes s (of_int delta) else (True, s))"

lemma reserve_frame [simp]:
  "st_shards (snd (reserve s d)) = st_shards s" "st_expq (snd (reserve s d)) = st_expq s"
  "st_opts (snd (reserve s d)) = st_opts s" "mKeys (snd (reserve s d)) = mKeys s"
  by (simp_all add: reserve_def)

lemma reserve_frame2 [simp]:
  "shardFor (snd (reserve s d)) = shardFor s"
  "st_shards (put_shard (snd (reserve s d)) k m) = st_shards (put_shard s k m)"
  using shard_ix_cong [of "snd (reserve s d)" s] by (simp_all add: shardFor_def put_shard_def fun_eq_iff)

lemma reserve_fits:
  assumes "kv_acct l s" "unat (mBytes s) + n < 2 ^ 64"
    and d: "d = int n - int (elen (kv_map s k))"
  shows "fst (reserve s d) \<longleftrightarrow> fits (unat (opt_MaxBytes (st_opts s))) (snd l) (kv_map s) k n"
    and "fst (reserve s d) \<Longrightarrow>
      unat (mBytes (if d < 0 then addBytesDelta (snd (reserve s d)) d else snd (reserve s d)))
        + elen (kv_map s k) = unat (mBytes s) + n"
proof -
  have b: "unat (mBytes s) = kv_bytes (kv_map s) + snd l" using kv_acctD [OF assms(1)] by simp
  then have le: "elen (kv_map s k) \<le> unat (mBytes s)"
    using elen_le_kv_bytes [OF kv_acctD(2) [OF assms(1)], of k] by simp
  have pos: "nat d = n - elen (kv_map s k)" if "0 < d" using that d by simp
  have room: "unat (mBytes s) + nat d < 2 ^ 64" if "0 < d" using pos [OF that] assms(2) by simp
  have L: "unat (opt_MaxBytes (st_opts s)) = 0 \<longleftrightarrow> opt_MaxBytes (st_opts s) = 0"
    by (simp add: unat_eq_zero)
  show "fst (reserve s d) \<longleftrightarrow> fits (unat (opt_MaxBytes (st_opts s))) (snd l) (kv_map s) k n"
  proof (cases "0 < d")
    case True
    then have "kv_bytes (kv_map s) + snd l + n - elen (kv_map s k) = unat (mBytes s) + nat d" "\<not> n \<le> elen (kv_map s k)"
      using d le b by simp_all
    then show ?thesis using True mBytes_add(1) [OF True room [OF True]] L by (simp add: reserve_def fits_def)
  next
    case False
    then show ?thesis using d by (simp add: reserve_def fits_def)
  qed
  assume ok: "fst (reserve s d)"
  consider "0 < d" | "d = 0" | "d < 0" by linarith
  then show "unat (mBytes (if d < 0 then addBytesDelta (snd (reserve s d)) d else snd (reserve s d)))
        + elen (kv_map s k) = unat (mBytes s) + n"
  proof cases
    case 1
    then show ?thesis using mBytes_add(2) [OF 1 room [OF 1]] ok d by (simp add: reserve_def)
  next
    case 2
    then show ?thesis using d by (simp add: reserve_def)
  next
    case 3
    then have "d = - int (elen (kv_map s k) - n)" using d by simp
    then show ?thesis using 3 mBytes_sub [of "elen (kv_map s k) - n" s] le d by (simp add: reserve_def)
  qed
qed

lemma reserve_refused: "\<not> fst (reserve s d) \<Longrightarrow> snd (reserve s d) = s"
  by (simp add: reserve_def tryAddBytes_def Let_def split: if_splits)

text \<open>\<open>Set\<close> and \<open>Update\<close> through \<open>reserve\<close>.\<close>

lemma Set_unfold:
  "Set s k v ttl now =
     (let d = int (length v) - int (elen (kv_map s k)); r = reserve s d;
          t = store_entry (snd r) k \<lparr>ent_val = v, ent_expireAt = set_expAt s ttl now\<rparr>;
          t = (if kv_map s k = None then t\<lparr>mKeys := mKeys t + 1\<rparr>
               else if d < 0 then addBytesDelta t d else t);
          t = t\<lparr>mSets := mSets t + 1\<rparr>
      in if fst r then (kv_map s k = None,
           if set_expAt s ttl now \<noteq> 0 then enqueueExpire t k (set_expAt s ttl now) else t)
         else (False, s))"
  using reserve_refused [of s]
  by (simp add: Set_def reserve_def [symmetric] Let_def kv_map_def [symmetric] elen_def
      case_prod_beta split: option.split)

lemma Update_unfold:
  "Update s k f now =
     (case kv_map s k of
        None \<Rightarrow> (False, s)
      | Some e \<Rightarrow>
          if expired e now then (False, delete_entry s k)
          else let d = int (length (f (ent_val e))) - int (elen (kv_map s k)); r = reserve s d;
                   t = store_entry (snd r) k (e\<lparr>ent_val := f (ent_val e)\<rparr>);
                   t = (if d < 0 then addBytesDelta t d else t)
               in if fst r then (True, t\<lparr>mUpdates := mUpdates t + 1\<rparr>) else (False, s))"
  using reserve_refused [of s]
  by (simp add: Update_def reserve_def [symmetric] Let_def kv_map_def [symmetric] elen_def
      case_prod_beta split: option.split)

lemma mBytes_addBytesDelta_cong:
  "mBytes s = mBytes t \<Longrightarrow> mBytes (addBytesDelta s d) = mBytes (addBytesDelta t d)"
  by (simp add: addBytesDelta_def Let_def)

lemma enqueueExpire_frame [simp]:
  "st_shards (enqueueExpire s k w) = st_shards s" "mKeys (enqueueExpire s k w) = mKeys s"
  "mBytes (enqueueExpire s k w) = mBytes s" "st_opts (enqueueExpire s k w) = st_opts s"
  by (simp_all add: enqueueExpire_def)

lemma Set_refines:
  assumes "kv_acct l s" "unat (mBytes s) + length v < 2 ^ 64"
  shows "refines l (Set s k v ttl now)
    (if fits (unat (opt_MaxBytes (st_opts s))) (snd l) (kv_map s) k (length v)
     then (kv_map s k = None, (kv_map s)(k \<mapsto> \<lparr>ent_val = v, ent_expireAt = set_expAt s ttl now\<rparr>))
     else (False, kv_map s))"
proof -
  let ?d = "int (length v) - int (elen (kv_map s k))"
  note res = reserve_fits [OF assms refl, of k]
  show ?thesis
  proof (cases "fst (reserve s ?d)")
    case False
    then show ?thesis using res(1) assms(1) by (simp add: Set_unfold Let_def refines_def)
  next
    case True
    have nd: "\<not> ?d < 0" if "kv_map s k = None" using that by (simp add: elen_def)
    have "kv_acct l (snd (Set s k v ttl now)) \<and>
        kv_map (snd (Set s k v ttl now)) = (kv_map s)(k := Some \<lparr>ent_val = v, ent_expireAt = set_expAt s ttl now\<rparr>)"
    proof (rule acct_put [OF assms(1)])
      show "st_shards (snd (Set s k v ttl now)) =
          st_shards (put_shard s k ((shardFor s k)(k := Some \<lparr>ent_val = v, ent_expireAt = set_expAt s ttl now\<rparr>)))"
        using True by (simp add: Set_unfold Let_def)
      show "mKeys (snd (Set s k v ttl now)) = mKeys s +
          (if kv_map s k = None \<and> Some \<lparr>ent_val = v, ent_expireAt = set_expAt s ttl now\<rparr> \<noteq> None then 1
           else if kv_map s k \<noteq> None \<and> Some \<lparr>ent_val = v, ent_expireAt = set_expAt s ttl now\<rparr> = None
           then - 1 else 0)"
        using True by (simp add: Set_unfold Let_def)
      have "mBytes (snd (Set s k v ttl now)) =
          mBytes (if ?d < 0 then addBytesDelta (snd (reserve s ?d)) ?d else snd (reserve s ?d))"
        using True nd by (auto simp: Set_unfold Let_def intro: mBytes_addBytesDelta_cong)
      then show "unat (mBytes (snd (Set s k v ttl now))) + elen (kv_map s k) =
          unat (mBytes s) + elen (Some \<lparr>ent_val = v, ent_expireAt = set_expAt s ttl now\<rparr>)"
        using res(2) [OF True] by (simp add: elen_def)
    qed
    then show ?thesis using res(1) True by (simp add: Set_unfold Let_def refines_def)
  qed
qed

text \<open>\<open>Update\<close> on an expired entry: only the counters and the map drift apart.\<close>

lemma Update_expired_refines:
  assumes "kv_acct l s" "kv_map s k = Some e" "expired e now"
  shows "refines (fst l + 1, snd l + length (ent_val e)) (Update s k f now) (False, (kv_map s)(k := None))"
proof -
  note s = kv_acctD [OF assms(1)]
  have u: "Update s k f now = (False, delete_entry s k)" using assms by (simp add: Update_unfold)
  have m: "kv_map (delete_entry s k) = (kv_map s)(k := None)" using s(1) by (simp add: map_simps)
  have "k \<in> dom (kv_map s)" using assms(2) by auto
  then have "card (dom (kv_map s)) = card (dom ((kv_map s)(k := None))) + 1"
    using card.remove [OF s(2)] by simp
  moreover have "kv_bytes (kv_map s) = kv_bytes ((kv_map s)(k := None)) + length (ent_val e)"
    using kv_bytes_upd [OF s(2), of k None] assms(2) by (simp add: elen_def)
  moreover have "kv_sized (delete_entry s k)" using s(1) by (simp add: kv_sized_def del: length_greater_0_conv)
  ultimately show ?thesis using s(2,3,4) by (simp add: refines_def u m kv_acct_def)
qed

lemma Update_refines:
  assumes "kv_acct l s" and room: "\<And>e. kv_map s k = Some e \<Longrightarrow> unat (mBytes s) + length (f (ent_val e)) < 2 ^ 64"
    and unexpired: "\<And>e. kv_map s k = Some e \<Longrightarrow> \<not> expired e now"
  shows "refines l (Update s k f now)
    (case live (kv_map s) k now of
        None \<Rightarrow> (False, (kv_map s)(k := None))
      | Some e \<Rightarrow>
          if fits (unat (opt_MaxBytes (st_opts s))) (snd l) (kv_map s) k (length (f (ent_val e)))
          then (True, (kv_map s)(k \<mapsto> e\<lparr>ent_val := f (ent_val e)\<rparr>)) else (False, kv_map s))"
proof (cases "kv_map s k")
  case None
  then show ?thesis using assms(1) by (simp add: Update_unfold refines_def live_def fun_upd_idem)
next
  case (Some e)
  let ?v = "f (ent_val e)"
  let ?d = "int (length ?v) - int (elen (kv_map s k))"
  note res = reserve_fits [OF assms(1) room [OF Some] refl, of k]
  show ?thesis
  proof (cases "fst (reserve s ?d)")
    case False
    then show ?thesis using res(1) assms(1) Some unexpired
      by (simp add: Update_unfold Let_def refines_def live_def)
  next
    case True
    have "kv_acct l (snd (Update s k f now)) \<and> kv_map (snd (Update s k f now)) = (kv_map s)(k := Some (e\<lparr>ent_val := ?v\<rparr>))"
    proof (rule acct_put [OF assms(1)])
      show "st_shards (snd (Update s k f now)) =
          st_shards (put_shard s k ((shardFor s k)(k := Some (e\<lparr>ent_val := ?v\<rparr>))))"
        using True Some unexpired by (simp add: Update_unfold Let_def)
      show "mKeys (snd (Update s k f now)) = mKeys s +
          (if kv_map s k = None \<and> Some (e\<lparr>ent_val := ?v\<rparr>) \<noteq> None then 1
           else if kv_map s k \<noteq> None \<and> Some (e\<lparr>ent_val := ?v\<rparr>) = None then - 1 else 0)"
        using True Some unexpired by (simp add: Update_unfold Let_def)
      have "mBytes (snd (Update s k f now)) =
          mBytes (if ?d < 0 then addBytesDelta (snd (reserve s ?d)) ?d else snd (reserve s ?d))"
        using True Some unexpired by (auto simp: Update_unfold Let_def intro: mBytes_addBytesDelta_cong)
      then show "unat (mBytes (snd (Update s k f now))) + elen (kv_map s k) =
          unat (mBytes s) + elen (Some (e\<lparr>ent_val := ?v\<rparr>))"
        using res(2) [OF True] by (simp add: elen_def)
    qed
    then show ?thesis using res(1) True Some unexpired
      by (simp add: Update_unfold Let_def refines_def live_def)
  qed
qed

lemma Expire_refines:
  assumes "kv_acct l s"
  shows "refines l (Expire s k ttl now now2)
    (if ttl \<le> 0 then (kv_map s k \<noteq> None, (kv_map s)(k := None))
      else case live (kv_map s) k now2 of
          None \<Rightarrow> (False, (kv_map s)(k := None))
        | Some e \<Rightarrow> (True, (kv_map s)(k \<mapsto> e\<lparr>ent_expireAt := i64 (now + ttl)\<rparr>)))"
proof -
  consider "ttl \<le> 0" | "ttl > 0" "kv_map s k = None" | e where "ttl > 0" "kv_map s k = Some e" "expired e now2"
    | e where "ttl > 0" "kv_map s k = Some e" "\<not> expired e now2"
    by (cases "kv_map s k") force+
  then show ?thesis
  proof cases
    case 1
    then show ?thesis using Delete_refines [OF assms] by (simp add: Expire_def)
  next
    case 2
    then show ?thesis using assms
      by (simp add: Expire_def refines_def live_def fun_upd_idem kv_map_def [symmetric] Let_def)
  next
    case 3
    have "kv_acct l (snd (Expire s k ttl now now2)) \<and> kv_map (snd (Expire s k ttl now now2)) = (kv_map s)(k := None)"
      by (rule acct_delete [OF assms 3(2)])
        (use 3 in \<open>simp_all add: Expire_def kv_map_def [symmetric] Let_def addBytesDelta_def\<close>)
    then show ?thesis using 3 by (simp add: refines_def Expire_def kv_map_def [symmetric] Let_def live_def)
  next
    case 4
    have "kv_acct l (snd (Expire s k ttl now now2)) \<and>
        kv_map (snd (Expire s k ttl now now2)) = (kv_map s)(k := Some (e\<lparr>ent_expireAt := i64 (now + ttl)\<rparr>))"
      by (rule acct_put [OF assms])
        (use 4 in \<open>simp_all add: Expire_def kv_map_def [symmetric] Let_def elen_def\<close>)
    then show ?thesis using 4 by (simp add: refines_def Expire_def kv_map_def [symmetric] Let_def live_def)
  qed
qed

lemma TTL_refines:
  assumes "kv_acct l s"
  shows "refines l (TTL s k now)
    (case live (kv_map s) k now of
        None \<Rightarrow> ((0, False), (kv_map s)(k := None))
      | Some e \<Rightarrow> ((if ent_expireAt e = 0 then 0 else i64 (ent_expireAt e - now), True), kv_map s))"
  using assms Delete_refines [OF assms, of k]
  by (auto simp: TTL_def refines_def live_def expired_def kv_map_def [symmetric] fun_upd_idem split: option.split)

section \<open>The expiry queue covers every expiring entry\<close>

definition kv_inv :: "Store \<Rightarrow> bool" where
  "kv_inv s \<longleftrightarrow> kv_sized s \<and> finite (dom (kv_map s)) \<and> is_heap it_when (st_expq s) \<and>
     (\<forall>k e. kv_map s k = Some e \<longrightarrow> ent_expireAt e \<noteq> 0 \<longrightarrow>
        \<lparr>it_when = ent_expireAt e, it_key = k\<rparr> \<in> set (st_expq s))"

lemma kv_invD:
  assumes "kv_inv s"
  shows "kv_sized s" "finite (dom (kv_map s))" "is_heap it_when (st_expq s)"
    "kv_map s k = Some e \<Longrightarrow> ent_expireAt e \<noteq> 0 \<Longrightarrow>
       \<lparr>it_when = ent_expireAt e, it_key = k\<rparr> \<in> set (st_expq s)"
  using assms by (simp_all add: kv_inv_def)

lemma inv_same:
  "kv_inv s \<Longrightarrow> st_shards t = st_shards s \<Longrightarrow> st_expq t = st_expq s \<Longrightarrow> kv_inv t"
  using kv_map_cong [of t s] by (simp add: kv_inv_def kv_sized_def)

lemma inv_put:
  assumes "kv_inv s" and sh: "st_shards t = st_shards (put_shard s k ((shardFor s k)(k := x)))"
    and heap: "is_heap it_when (st_expq t)" and sub: "set (st_expq s) \<subseteq> set (st_expq t)"
    and new: "\<And>e. x = Some e \<Longrightarrow> ent_expireAt e \<noteq> 0 \<Longrightarrow>
      \<lparr>it_when = ent_expireAt e, it_key = k\<rparr> \<in> set (st_expq t)"
  shows "kv_inv t"
proof -
  note s = kv_invD [OF assms(1)]
  have m: "kv_map t = (kv_map s)(k := x)" using kv_map_cong [OF sh] kv_map_put [OF s(1)] by simp
  have "kv_sized t" using s(1) sh by (simp add: kv_sized_def)
  moreover have "\<lparr>it_when = ent_expireAt e, it_key = j\<rparr> \<in> set (st_expq t)"
    if "kv_map t j = Some e" "ent_expireAt e \<noteq> 0" for j e
    using that new [of e] s(4) [of j e] sub m by (auto split: if_splits)
  ultimately show ?thesis using s(2) heap m by (simp add: kv_inv_def)
qed

lemma inv_delete:
  "kv_inv s \<Longrightarrow> st_shards t = st_shards (delete_entry s k) \<Longrightarrow> st_expq t = st_expq s \<Longrightarrow> kv_inv t"
  using kv_invD(3) [of s] by (intro inv_put [of s t k None]) simp_all

lemma inv_store_same:
  assumes "kv_inv s" "kv_map s k = Some e" "st_shards t = st_shards (store_entry s k e')"
    "st_expq t = st_expq s" "ent_expireAt e' = ent_expireAt e"
  shows "kv_inv t"
  using assms kv_invD [OF assms(1)] by (intro inv_put [OF assms(1,3)]) auto

lemma inv_store_push:
  assumes "kv_inv s" "st_shards t = st_shards (store_entry s k e')"
    "st_expq t = heap_push it_when (st_expq s) \<lparr>it_when = ent_expireAt e', it_key = k\<rparr>"
  shows "kv_inv t"
  using assms kv_invD(3) [OF assms(1)]
  by (intro inv_put [OF assms(1,2)]) (auto simp: heap_push_is_heap go_heap.push_set [simplified])

lemma inv_evict:
  assumes "kv_inv s"
  shows "kv_inv (evict_expired s k now)"
proof (cases "\<exists>e. shardFor s k k = Some e \<and> expired e now")
  case True
  then show ?thesis
    by (intro inv_delete [OF assms, of _ k]) (auto simp: evict_expired_def Let_def)
next
  case False
  then show ?thesis using assms by (auto simp: evict_expired_def split: option.split)
qed

lemma count_frame [simp]:
  "st_shards (count_miss s) = st_shards s" "st_expq (count_miss s) = st_expq s"
  "st_shards (count_hit s) = st_shards s" "st_expq (count_hit s) = st_expq s"
  by (simp_all add: count_miss_def count_hit_def)

lemma inv_count: "kv_inv (count_miss s) = kv_inv s" "kv_inv (count_hit s) = kv_inv s"
  by (simp_all add: kv_inv_def kv_sized_def map_simps)

lemma inv_Get: "kv_inv s \<Longrightarrow> kv_inv (snd (Get s k now now2))"
  by (auto simp: Get_def inv_count inv_evict split: option.split)

lemma inv_Delete:
  assumes "kv_inv s"
  shows "kv_inv (snd (Delete s k))"
proof (cases "shardFor s k k")
  case None
  then show ?thesis using assms by (simp add: Delete_def)
next
  case (Some e)
  then show ?thesis by (intro inv_delete [OF assms, of _ k]) (simp_all add: Delete_def Let_def)
qed

lemma inv_GetDel:
  assumes "kv_inv s"
  shows "kv_inv (snd (GetDel s k now))"
proof (cases "shardFor s k k")
  case None
  then show ?thesis using assms by (simp add: GetDel_def inv_count)
next
  case (Some e)
  then show ?thesis
    by (intro inv_delete [OF assms, of _ k]) (simp_all add: GetDel_def Let_def count_miss_def count_hit_def)
qed

lemma inv_Expire:
  assumes "kv_inv s"
  shows "kv_inv (snd (Expire s k ttl now now2))"
proof -
  consider "ttl \<le> 0" | "ttl > 0" "shardFor s k k = None" | e where "ttl > 0" "shardFor s k k = Some e" "expired e now2"
    | e where "ttl > 0" "shardFor s k k = Some e" "\<not> expired e now2"
    by (cases "shardFor s k k") force+
  then show ?thesis
  proof cases
    case 1
    then show ?thesis using inv_Delete [OF assms] by (simp add: Expire_def)
  next
    case 2
    then show ?thesis using assms by (simp add: Expire_def Let_def)
  next
    case 3
    then show ?thesis by (intro inv_delete [OF assms, of _ k]) (simp_all add: Expire_def Let_def)
  next
    case 4
    then show ?thesis
      by (intro inv_store_push [OF assms, of _ k "e\<lparr>ent_expireAt := i64 (now + ttl)\<rparr>"])
        (simp_all add: Expire_def Let_def enqueueExpire_def)
  qed
qed

lemma inv_TTL: "kv_inv s \<Longrightarrow> kv_inv (snd (TTL s k now))"
  by (auto simp: TTL_def inv_Delete split: option.split)

lemma inv_Set: 
  assumes "kv_inv s"
  shows "kv_inv (snd (Set s k v ttl now))"
proof -
  let ?t = "snd (Set s k v ttl now)" and ?a = "set_expAt s ttl now"
  let ?d = "int (length v) - int (elen (kv_map s k))"
  consider "\<not> fst (reserve s ?d)" | "fst (reserve s ?d)" "?a = 0" | "fst (reserve s ?d)" "?a \<noteq> 0" by blast
  then show ?thesis
  proof cases
    case 1
    then show ?thesis using assms by (simp add: Set_unfold Let_def)
  next
    case 2
    then show ?thesis using kv_invD(3) [OF assms]
      by (intro inv_put [OF assms, of ?t k "Some \<lparr>ent_val = v, ent_expireAt = ?a\<rparr>"])
        (auto simp: Set_unfold Let_def)
  next
    case 3
    then show ?thesis
      by (intro inv_store_push [OF assms, of ?t k "\<lparr>ent_val = v, ent_expireAt = ?a\<rparr>"])
        (simp_all add: Set_unfold Let_def enqueueExpire_def)
  qed
qed

lemma inv_Update:
  assumes "kv_inv s"
  shows "kv_inv (snd (Update s k f now))"
proof (cases "kv_map s k")
  case None
  then show ?thesis using assms by (simp add: Update_unfold)
next
  case (Some e)
  let ?d = "int (length (f (ent_val e))) - int (elen (kv_map s k))"
  consider "expired e now" | "\<not> expired e now" "fst (reserve s ?d)" | "\<not> expired e now" "\<not> fst (reserve s ?d)"
    by blast
  then show ?thesis
  proof cases
    case 1
    then show ?thesis using Some by (intro inv_delete [OF assms, of _ k]) (simp_all add: Update_unfold)
  next
    case 2
    then show ?thesis using Some
      by (intro inv_store_same [OF assms Some, of _ "e\<lparr>ent_val := f (ent_val e)\<rparr>"])
        (simp_all add: Update_unfold Let_def)
  next
    case 3
    then show ?thesis using Some assms by (simp add: Update_unfold Let_def)
  qed
qed

lemma inv_exec: "kv_inv s \<Longrightarrow> kv_inv (snd (kv_exec s op'))"
  by (cases op') (simp_all add: inv_Set inv_Get inv_GetDel inv_Update inv_Delete inv_Expire inv_TTL
      GetNoCopy_Get GetAndDelete_def Exists_def case_prod_beta)

section \<open>Turns of the expirer\<close>

lemma evict_map:
  "kv_sized s \<Longrightarrow> kv_map (evict_expired s k now) = purge (kv_map s) k now"
  by (auto simp: evict_expired_def purge_def live_def kv_map_def [symmetric] Let_def map_simps fun_upd_idem
      split: option.split)

lemma length_evict [simp]: "length (st_shards (evict_expired s k now)) = length (st_shards s)"
  by (simp add: evict_expired_def Let_def split: option.split)

lemma turn_pop:
  assumes "kv_sized s" "heap_pop it_when (st_expq s) = Some (it, q)" "it_when (st_expq s ! 0) \<le> now"
  shows "snd (expirer_turn s now nowN) = evict_expired (s\<lparr>st_expq := q\<rparr>) (it_key it) nowN"
    and "kv_map (snd (expirer_turn s now nowN)) = purge (kv_map s) (it_key it) nowN"
    and "st_expq (snd (expirer_turn s now nowN)) = q"
  using assms evict_map [of "s\<lparr>st_expq := q\<rparr>"] by (simp_all add: expirer_turn_def map_simps kv_sized_def)

lemma turn_idle:
  "heap_pop it_when (st_expq s) = None \<or> it_when (st_expq s ! 0) > now \<Longrightarrow> snd (expirer_turn s now nowN) = s"
  by (auto simp: expirer_turn_def split: option.split)

lemma purge_idem_live: "live (purge m k now) j now = live m j now"
  by (auto simp: purge_def live_def split: option.splits)

lemma inv_turn:
  assumes inv: "kv_inv s" and "now \<le> nowN"
  shows "kv_inv (snd (expirer_turn s now nowN))"
proof (cases "heap_pop it_when (st_expq s)")
  case None
  then show ?thesis using inv turn_idle by simp
next
  case (Some p)
  obtain it q where p: "heap_pop it_when (st_expq s) = Some (it, q)" using Some by (cases p) auto
  note s = kv_invD [OF inv]
  show ?thesis
  proof (cases "it_when (st_expq s ! 0) > now")
    case True
    then show ?thesis using inv turn_idle by simp
  next
    case False
    then have le: "it_when (st_expq s ! 0) \<le> now" by simp
    note t = turn_pop [OF s(1) p le, of nowN]
    let ?t = "snd (expirer_turn s now nowN)"
    have root: "it = st_expq s ! 0" using heap_pop_Some(2) [OF p] .
    have set: "set (st_expq s) = insert it (set q)" using go_heap.pop_set [OF p] by simp
    have "kv_sized ?t" using s(1) by (simp add: t(1) kv_sized_def del: length_greater_0_conv)
    moreover have "finite (dom (kv_map ?t))" using s(2) by (simp add: t(2) purge_def)
    moreover have "is_heap it_when (st_expq ?t)" using heap_pop_is_heap [OF s(3) p] by (simp add: t(3))
    moreover have "\<lparr>it_when = ent_expireAt e, it_key = k\<rparr> \<in> set (st_expq ?t)"
      if e: "kv_map ?t k = Some e" "ent_expireAt e \<noteq> 0" for k e
    proof -
      have m: "kv_map s k = Some e" "k = it_key it \<longrightarrow> live (kv_map s) k nowN \<noteq> None"
        using e(1) t(2) by (auto simp: purge_def split: if_splits)
      have "\<lparr>it_when = ent_expireAt e, it_key = k\<rparr> \<noteq> it"
      proof
        assume it: "\<lparr>it_when = ent_expireAt e, it_key = k\<rparr> = it"
        then have "it_when it = ent_expireAt e" "it_key it = k" by auto
        then have "ent_expireAt e \<le> nowN" "k = it_key it" using le root assms(2) by auto
        then show False using m e(2) by (simp add: live_def expired_def)
      qed
      then show ?thesis using s(4) [OF m(1) e(2)] set t(3) by simp
    qed
    ultimately show ?thesis by (simp add: kv_inv_def)
  qed
qed

lemma inv_New: "opt_Shards opts < 2 ^ 63 \<Longrightarrow> kv_inv (New opts)"
proof -
  assume "opt_Shards opts < 2 ^ 63"
  then have sz: "kv_sized (New opts)" by (auto simp: kv_sized_def New_def withDefaults_def Let_def)
  then have "shard_ix (New opts) k < length (st_shards (New opts))" for k by (rule shard_ix_less)
  then have "kv_map (New opts) k = None" for k
    by (simp add: kv_map_def shardFor_def New_def Let_def)
  then have "kv_map (New opts) = Map.empty" by (rule ext)
  then show ?thesis using sz by (simp add: kv_inv_def New_def Let_def)
qed

lemma kv_map_New [simp]: "opt_Shards opts < 2 ^ 63 \<Longrightarrow> kv_map (New opts) = Map.empty"
proof
  fix k assume "opt_Shards opts < 2 ^ 63"
  then have "shard_ix (New opts) k < length (st_shards (New opts))"
    by (intro shard_ix_less kv_invD(1) inv_New)
  then show "kv_map (New opts) k = None" by (simp add: kv_map_def shardFor_def New_def Let_def)
qed

lemma acct_New: "opt_Shards opts < 2 ^ 63 \<Longrightarrow> kv_acct (0, 0) (New opts)"
  using kv_invD(1) [OF inv_New] by (simp add: kv_acct_def kv_bytes_def) (simp add: New_def Let_def)

text \<open>An entry that has expired has an item the expirer is due to take.\<close>

lemma due_item:
  assumes "kv_inv s" "kv_map s k = Some e" "expired e now"
  shows "st_expq s \<noteq> [] \<and> it_when (st_expq s ! 0) \<le> now"
proof -
  let ?it = "\<lparr>it_when = ent_expireAt e, it_key = k\<rparr>"
  have mem: "?it \<in> set (st_expq s)" using kv_invD(4) [OF assms(1,2)] assms(3) by (simp add: expired_def)
  then obtain i where i: "i < length (st_expq s)" "st_expq s ! i = ?it" by (auto simp: in_set_conv_nth)
  have "it_when (st_expq s ! 0) \<le> it_when ?it"
    using is_heap_root [OF kv_invD(3) [OF assms(1)] i(1)] i(2) by simp
  then show ?thesis using mem assms(3) by (auto simp: expired_def)
qed

lemma drain_effect:
  "kv_inv s \<Longrightarrow> kv_inv (snd (expirer_drain s now)) \<and>
     kv_map (snd (expirer_drain s now)) = (\<lambda>k. live (kv_map s) k now) \<and>
     (st_expq (snd (expirer_drain s now)) = [] \<or> now < it_when (st_expq (snd (expirer_drain s now)) ! 0))"
proof (induction s now rule: expirer_drain.induct)
  case (1 s now)
  show ?case
  proof (cases "heap_pop it_when (st_expq s) = None \<or> it_when (st_expq s ! 0) > now")
    case True
    then have d: "expirer_drain s now = expirer_turn s now now"
      by (subst expirer_drain.simps) (auto split: option.split)
    have q: "st_expq s = [] \<or> now < it_when (st_expq s ! 0)" using True heap_pop_None by auto
    have "live (kv_map s) k now = kv_map s k" for k
      using due_item [OF "1.prems", of k _ now] q by (fastforce simp: live_def split: option.split)
    then show ?thesis using turn_idle [OF True] "1.prems" d q by (simp add: fun_eq_iff)
  next
    case False
    then obtain it q where p: "heap_pop it_when (st_expq s) = Some (it, q)" by auto
    have le: "it_when (st_expq s ! 0) \<le> now" using False by simp
    have d: "expirer_drain s now = expirer_drain (snd (expirer_turn s now now)) now"
      by (subst expirer_drain.simps) (use p le in simp)
    note IH = "1.IH" [OF p _ inv_turn [OF "1.prems" order_refl]]
    show ?thesis using IH False turn_pop(2) [OF kv_invD(1) [OF "1.prems"] p le]
      by (simp add: d purge_idem_live)
  qed
qed

section \<open>Runs of client operations\<close>

lemma evict_opts [simp]: "st_opts (evict_expired s k now) = st_opts s"
  by (simp add: evict_expired_def Let_def split: option.split)

lemma exec_opts: "st_opts (snd (kv_exec s op')) = st_opts s"
proof (cases op')
  case (OSet k v ttl now)
  then show ?thesis by (simp add: Set_unfold Let_def)
next
  case (OUpdate k f now)
  then show ?thesis by (simp add: Update_unfold Let_def split: option.split)
qed (simp_all add: Get_def GetNoCopy_Get GetAndDelete_def GetDel_def Exists_def Delete_def Expire_def TTL_def
    enqueueExpire_def count_miss_def count_hit_def Let_def case_prod_beta split: option.split)

lemma kv_spec_opts: "st_opts s = st_opts t \<Longrightarrow> kv_spec s l m op' = kv_spec t l m op'"
  by (cases op') (simp_all add: set_expAt_def split: option.split)

text \<open>
  The only condition on a run: the counted bytes stay below \<open>2 ^ 64\<close>. No program holds so many
  stored bytes; what is lost by \<open>Update\<close> on expired entries counts too.
\<close>

fun kv_step_ok :: "Store \<Rightarrow> kv_op \<Rightarrow> bool" where
  "kv_step_ok s (OSet k v ttl now) = (unat (mBytes s) + length v < 2 ^ 64)"
| "kv_step_ok s (OUpdate k f now) =
     (case kv_map s k of None \<Rightarrow> True
      | Some e \<Rightarrow> unat (mBytes s) + length (f (ent_val e)) < 2 ^ 64)"
| "kv_step_ok s _ = True"

fun kv_run :: "Store \<Rightarrow> kv_op list \<Rightarrow> kv_res list \<times> Store" where
  "kv_run s [] = ([], s)"
| "kv_run s (x # xs) = (let (r, s) = kv_exec s x; (rs, s) = kv_run s xs in (r # rs, s))"

fun kv_run_ok :: "Store \<Rightarrow> kv_op list \<Rightarrow> bool" where
  "kv_run_ok s [] = True"
| "kv_run_ok s (x # xs) = (kv_step_ok s x \<and> kv_run_ok (snd (kv_exec s x)) xs)"

fun kv_spec_run :: "Store \<Rightarrow> kv_lost \<Rightarrow> kv_flat \<Rightarrow> kv_op list \<Rightarrow> kv_res list \<times> kv_flat" where
  "kv_spec_run s l m [] = ([], m)"
| "kv_spec_run s l m (x # xs) =
     (let (r, m') = kv_spec s l m x; (rs, m'') = kv_spec_run s (kv_lose m x l) m' xs in (r # rs, m''))"

text \<open>What is lost by the end of the run.\<close>

fun kv_lost_run :: "Store \<Rightarrow> kv_lost \<Rightarrow> kv_flat \<Rightarrow> kv_op list \<Rightarrow> kv_lost" where
  "kv_lost_run s l m [] = l"
| "kv_lost_run s l m (x # xs) = kv_lost_run s (kv_lose m x l) (snd (kv_spec s l m x)) xs"

lemma refines_apfst: "refines l r sp \<Longrightarrow> refines l (apfst f r) (apfst f sp)"
  by (simp add: refines_def)

lemma exec_refines:
  assumes "kv_acct l s" "kv_step_ok s op'"
  shows "refines (kv_lose (kv_map s) op' l) (kv_exec s op') (kv_spec s l (kv_map s) op')"
proof (cases op')
  case (OSet k v ttl now)
  then show ?thesis
    using assms(2) refines_apfst [OF Set_refines [OF assms(1), of v k ttl now], where f = RBool]
    by (auto simp: kv_lose_def split: if_splits)
next
  case (OUpdate k f now)
  show ?thesis
  proof (cases "\<exists>e. kv_map s k = Some e \<and> expired e now")
    case True
    then obtain e where e: "kv_map s k = Some e" "expired e now" by blast
    then show ?thesis using refines_apfst [OF Update_expired_refines [OF assms(1) e, of f], where f = RBool]
      by (simp add: OUpdate kv_lose_def live_def)
  next
    case False
    have "refines l (apfst RBool (Update s k f now)) (apfst RBool (case live (kv_map s) k now of
          None \<Rightarrow> (False, (kv_map s)(k := None))
        | Some e \<Rightarrow>
            if fits (unat (opt_MaxBytes (st_opts s))) (snd l) (kv_map s) k (length (f (ent_val e)))
            then (True, (kv_map s)(k \<mapsto> e\<lparr>ent_val := f (ent_val e)\<rparr>)) else (False, kv_map s)))"
      using assms OUpdate False by (intro refines_apfst Update_refines) (auto split: option.splits)
    then show ?thesis using OUpdate False by (auto simp: kv_lose_def split: option.splits if_splits)
  qed
next
  case (OGet k now now2)
  then show ?thesis using refines_apfst [OF Get_refines [OF assms(1), of k now now2], where f = RVal]
    by (auto simp: kv_lose_def split: option.splits)
next
  case (OGetNoCopy k now now2)
  then show ?thesis using refines_apfst [OF Get_refines [OF assms(1), of k now now2], where f = RVal]
    by (auto simp: kv_lose_def GetNoCopy_Get split: option.splits)
next
  case (OGetDel k now)
  then show ?thesis using refines_apfst [OF GetDel_refines [OF assms(1), of k now], where f = RVal]
    by (simp add: kv_lose_def GetAndDelete_def)
next
  case (OExists k now now2)
  then show ?thesis using refines_apfst [OF Exists_refines [OF assms(1), of k now now2], where f = RBool]
    by (auto simp: kv_lose_def split: option.splits)
next
  case (ODelete k)
  then show ?thesis using refines_apfst [OF Delete_refines [OF assms(1), of k], where f = RBool] by (simp add: kv_lose_def)
next
  case (OExpire k ttl now now2)
  then show ?thesis using refines_apfst [OF Expire_refines [OF assms(1), of k ttl now now2], where f = RBool]
    by (auto simp: kv_lose_def split: option.splits if_splits)
next
  case (OTTL k now)
  then show ?thesis
    using refines_apfst [OF TTL_refines [OF assms(1), of k now], where f = "\<lambda>(d, ok). RTTL d ok"]
    by (auto simp: kv_lose_def split: option.splits if_splits)
qed

lemma run_refines:
  "kv_acct l s \<Longrightarrow> kv_run_ok s xs \<Longrightarrow> st_opts s = st_opts s0 \<Longrightarrow>
   refines (kv_lost_run s0 l (kv_map s) xs) (kv_run s xs) (kv_spec_run s0 l (kv_map s) xs)"
proof (induction xs arbitrary: l s)
  case Nil
  then show ?case by (simp add: refines_def)
next
  case (Cons x xs)
  let ?l = "kv_lose (kv_map s) x l" and ?s = "snd (kv_exec s x)"
  have r: "refines ?l (kv_exec s x) (kv_spec s0 l (kv_map s) x)"
    using exec_refines [OF Cons.prems(1)] Cons.prems kv_spec_opts [OF Cons.prems(3)] by auto
  have "refines (kv_lost_run s0 ?l (kv_map ?s) xs) (kv_run ?s xs) (kv_spec_run s0 ?l (kv_map ?s) xs)"
    using r Cons.prems by (intro Cons.IH) (auto simp: refines_def exec_opts)
  with r show ?case by (simp add: refines_def Let_def case_prod_beta)
qed

lemma spec_limit:
  assumes "finite (dom m)" "L = unat (opt_MaxBytes (st_opts s))" "L \<noteq> 0" "kv_bytes m + snd l \<le> L"
  shows "kv_bytes (snd (kv_spec s l m op')) + snd (kv_lose m op' l) \<le> L"
proof -
  have del: "kv_bytes (m(k := None)) + snd l \<le> L" for k
    using kv_bytes_upd [OF assms(1), of k None] assms(4) by (simp add: elen_def)
  have lost: "kv_bytes (m(k := None)) + (snd l + length (ent_val e)) \<le> L" if "m k = Some e" for k e
    using kv_bytes_upd [OF assms(1), of k None] assms(4) that by (simp add: elen_def)
  have put: "kv_bytes (m(k \<mapsto> e)) + snd l \<le> L" if "fits L (snd l) m k (length (ent_val e))" for k e
    using that kv_bytes_upd [OF assms(1), of k "Some e"] assms(3,4) elen_le_kv_bytes [OF assms(1), of k]
    by (auto simp: fits_def elen_def [of "Some e"])
  have exp: "kv_bytes (m(k \<mapsto> e\<lparr>ent_expireAt := x\<rparr>)) + snd l \<le> L" if "live m k now = Some e" for k e x now
    using that kv_bytes_upd [OF assms(1), of k "Some (e\<lparr>ent_expireAt := x\<rparr>)"] assms(4)
    by (auto simp: elen_def live_def split: option.splits if_splits)
  show ?thesis
  proof (cases op')
    case (OUpdate k f now)
    then show ?thesis using assms(4) del lost put
      by (auto simp: kv_lose_def live_def assms(2) [symmetric] split: option.splits if_splits)
  qed (use assms(4) del put exp in \<open>auto simp: kv_lose_def purge_def assms(2) [symmetric] split: option.splits\<close>)
qed

lemma run_limit:
  "kv_acct l s \<Longrightarrow> kv_run_ok s xs \<Longrightarrow> opt_MaxBytes (st_opts s) \<noteq> 0 \<Longrightarrow> mBytes s \<le> opt_MaxBytes (st_opts s) \<Longrightarrow>
   mBytes (snd (kv_run s xs)) \<le> opt_MaxBytes (st_opts s)"
proof (induction xs arbitrary: l s)
  case (Cons x xs)
  have r: "refines (kv_lose (kv_map s) x l) (kv_exec s x) (kv_spec s l (kv_map s) x)"
    using exec_refines Cons.prems by auto
  then have a: "kv_acct (kv_lose (kv_map s) x l) (snd (kv_exec s x))" by (simp add: refines_def)
  have "kv_bytes (kv_map (snd (kv_exec s x))) + snd (kv_lose (kv_map s) x l) \<le> unat (opt_MaxBytes (st_opts s))"
    using r spec_limit [OF kv_acctD(2) [OF Cons.prems(1)] refl, of s l x] Cons.prems(3,4)
      kv_acctD(4) [OF Cons.prems(1)]
    by (auto simp: refines_def word_le_nat_alt unat_eq_zero)
  then show ?case
    using Cons.IH [OF a] Cons.prems kv_acctD(4) [OF a]
    by (simp add: exec_opts word_le_nat_alt Let_def case_prod_beta)
qed simp

text \<open>Nothing is lost while \<open>Update\<close> meets no expired entry.\<close>

fun updates_timely :: "Store \<Rightarrow> kv_op list \<Rightarrow> bool" where
  "updates_timely s [] = True"
| "updates_timely s (x # xs) =
     ((case x of OUpdate k f now \<Rightarrow> (case kv_map s k of None \<Rightarrow> True | Some e \<Rightarrow> \<not> expired e now) | _ \<Rightarrow> True) \<and>
      updates_timely (snd (kv_exec s x)) xs)"

lemma lost_none:
  "kv_acct l s \<Longrightarrow> kv_run_ok s xs \<Longrightarrow> st_opts s = st_opts s0 \<Longrightarrow> updates_timely s xs \<Longrightarrow>
   kv_lost_run s0 l (kv_map s) xs = l"
proof (induction xs arbitrary: l s)
  case (Cons x xs)
  have r: "refines (kv_lose (kv_map s) x l) (kv_exec s x) (kv_spec s0 l (kv_map s) x)"
    using exec_refines [OF Cons.prems(1)] Cons.prems kv_spec_opts [OF Cons.prems(3)] by auto
  have l: "kv_lose (kv_map s) x l = l"
    using Cons.prems(4) by (cases x) (auto simp: kv_lose_def split: option.splits)
  show ?case using Cons.IH [of l "snd (kv_exec s x)"] Cons.prems r l by (simp add: refines_def exec_opts)
qed simp

section \<open>The interface of the store's users\<close>

text \<open>
  What the peer store, the router and the worker registry rely on: the effect of five operations
  on the entries, for a store without a byte limit and jitter (the node creates it so).
\<close>

locale kv_api =
  fixes kinv :: "'s \<Rightarrow> bool" and ents :: "'s \<Rightarrow> kv_flat"
    and kset :: "'s \<Rightarrow> string \<Rightarrow> byte list \<Rightarrow> int \<Rightarrow> int \<Rightarrow> bool \<times> 's"
    and kget :: "'s \<Rightarrow> string \<Rightarrow> int \<Rightarrow> int \<Rightarrow> byte list option \<times> 's"
    and kupd :: "'s \<Rightarrow> string \<Rightarrow> (byte list \<Rightarrow> byte list) \<Rightarrow> int \<Rightarrow> bool \<times> 's"
    and kdel :: "'s \<Rightarrow> string \<Rightarrow> bool \<times> 's"
    and kexp :: "'s \<Rightarrow> string \<Rightarrow> int \<Rightarrow> int \<Rightarrow> int \<Rightarrow> bool \<times> 's"
  assumes set_inv: "kinv s \<Longrightarrow> kinv (snd (kset s k v ttl now))"
    and get_inv: "kinv s \<Longrightarrow> kinv (snd (kget s k now now2))"
    and upd_inv: "kinv s \<Longrightarrow> kinv (snd (kupd s k f now))"
    and del_inv: "kinv s \<Longrightarrow> kinv (snd (kdel s k))"
    and exp_inv: "kinv s \<Longrightarrow> kinv (snd (kexp s k ttl now now2))"
    and set_ents: "kinv s \<Longrightarrow> ents (snd (kset s k v ttl now)) =
      (ents s)(k \<mapsto> \<lparr>ent_val = v, ent_expireAt = (if ttl > 0 then i64 (now + ttl) else 0)\<rparr>)"
    and get_ents: "kinv s \<Longrightarrow> ents (snd (kget s k now now2)) =
      (if live (ents s) k now = None then purge (ents s) k now2 else ents s)"
    and get_val: "kinv s \<Longrightarrow> fst (kget s k now now2) = map_option ent_val (live (ents s) k now)"
    and upd_ents: "kinv s \<Longrightarrow> ents (snd (kupd s k f now)) =
      (ents s)(k := map_option (\<lambda>e. e\<lparr>ent_val := f (ent_val e)\<rparr>) (live (ents s) k now))"
    and del_ents: "kinv s \<Longrightarrow> ents (snd (kdel s k)) = (ents s)(k := None)"
    and exp_ents: "kinv s \<Longrightarrow> ents (snd (kexp s k ttl now now2)) =
      (ents s)(k := (if ttl \<le> 0 then None
         else map_option (\<lambda>e. e\<lparr>ent_expireAt := i64 (now + ttl)\<rparr>) (live (ents s) k now2)))"
begin

text \<open>A key comes into the store by \<open>kset\<close> only.\<close>

lemma absent_kept:
  assumes "kinv s" "ents s k = None"
  shows "ents (snd (kget s j now now2)) k = None" "ents (snd (kupd s j f now)) k = None"
    "ents (snd (kdel s j)) k = None" "ents (snd (kexp s j ttl now now2)) k = None"
    "j \<noteq> k \<Longrightarrow> ents (snd (kset s j v ttl now)) k = None"
  using assms
  by (auto simp: get_ents upd_ents del_ents exp_ents set_ents purge_def live_def)

lemma frame:
  assumes "kinv s" "j \<noteq> k"
  shows "ents (snd (kget s j now now2)) k = ents s k" "ents (snd (kupd s j f now)) k = ents s k"
    "ents (snd (kdel s j)) k = ents s k" "ents (snd (kexp s j ttl now now2)) k = ents s k"
    "ents (snd (kset s j v ttl now)) k = ents s k"
  using assms by (auto simp: get_ents upd_ents del_ents exp_ents set_ents purge_def)

lemma get_absent: "kinv s \<Longrightarrow> ents s k = None \<Longrightarrow> fst (kget s k now now2) = None"
  by (simp add: get_val live_def)

lemma set_get:
  assumes "kinv s" "0 < ttl" "later < i64 (now + ttl)"
  shows "fst (kget (snd (kset s k v ttl now)) k later later2) = Some v"
  using assms by (simp add: get_val set_inv set_ents live_def expired_def)

lemma set_get_forever:
  assumes "kinv s"
  shows "fst (kget (snd (kset s k v 0 now)) k later later2) = Some v"
  using assms by (simp add: get_val set_inv set_ents live_def expired_def)

end

definition kv_plain :: "Store \<Rightarrow> bool" where
  "kv_plain s \<longleftrightarrow> kv_sized s \<and> opt_MaxBytes (st_opts s) = 0 \<and> opt_ExpireJitter (st_opts s) = 0"

lemma reserve_unlimited: "opt_MaxBytes (st_opts s) = 0 \<Longrightarrow> fst (reserve s d)"
  by (simp add: reserve_def tryAddBytes_def)

lemma plain_put:
  assumes "kv_plain s" "st_shards t = st_shards (put_shard s k ((shardFor s k)(k := x)))" "st_opts t = st_opts s"
  shows "kv_plain t \<and> kv_map t = (kv_map s)(k := x)"
  using assms kv_map_cong [OF assms(2)] kv_map_put [of s k x]
  by (simp add: kv_plain_def kv_sized_def del: length_greater_0_conv)

lemma plain_same:
  "kv_plain s \<Longrightarrow> st_shards t = st_shards s \<Longrightarrow> st_opts t = st_opts s \<Longrightarrow> kv_plain t \<and> kv_map t = kv_map s"
  using kv_map_cong [of t s] by (simp add: kv_plain_def kv_sized_def)

lemma plain_Set:
  assumes "kv_plain s"
  shows "kv_plain (snd (Set s k v ttl now)) \<and> kv_map (snd (Set s k v ttl now)) =
    (kv_map s)(k := Some \<lparr>ent_val = v, ent_expireAt = (if ttl > 0 then i64 (now + ttl) else 0)\<rparr>)"
  using assms reserve_unlimited
  by (intro plain_put) (simp_all add: Set_unfold Let_def kv_plain_def set_expAt_def)

lemma plain_Update:
  assumes "kv_plain s"
  shows "kv_plain (snd (Update s k f now)) \<and> kv_map (snd (Update s k f now)) =
    (kv_map s)(k := map_option (\<lambda>e. e\<lparr>ent_val := f (ent_val e)\<rparr>) (live (kv_map s) k now))"
proof (cases "kv_map s k")
  case None
  then show ?thesis using assms by (simp add: Update_unfold live_def fun_upd_idem)
next
  case (Some e)
  then show ?thesis using assms reserve_unlimited
    by (intro plain_put) (simp_all add: Update_unfold Let_def live_def kv_plain_def)
qed

lemma plain_Delete:
  assumes "kv_plain s"
  shows "kv_plain (snd (Delete s k)) \<and> kv_map (snd (Delete s k)) = (kv_map s)(k := None)"
proof (cases "kv_map s k")
  case None
  then show ?thesis using assms by (simp add: Delete_def kv_map_def [symmetric] fun_upd_idem)
next
  case (Some e)
  then show ?thesis using assms
    by (intro plain_put) (simp_all add: Delete_def kv_map_def [symmetric] Let_def)
qed

lemma plain_Expire:
  assumes "kv_plain s"
  shows "kv_plain (snd (Expire s k ttl now now2)) \<and> kv_map (snd (Expire s k ttl now now2)) =
    (kv_map s)(k := (if ttl \<le> 0 then None
         else map_option (\<lambda>e. e\<lparr>ent_expireAt := i64 (now + ttl)\<rparr>) (live (kv_map s) k now2)))"
proof -
  consider "ttl \<le> 0" | "ttl > 0" "kv_map s k = None" | e where "ttl > 0" "kv_map s k = Some e"
    by (cases "kv_map s k") force+
  then show ?thesis
  proof cases
    case 1
    then show ?thesis using plain_Delete [OF assms] by (simp add: Expire_def)
  next
    case 2
    then show ?thesis using assms
      by (simp add: Expire_def kv_map_def [symmetric] Let_def live_def fun_upd_idem)
  next
    case 3
    then show ?thesis using assms
      by (intro plain_put) (simp_all add: Expire_def kv_map_def [symmetric] Let_def live_def)
  qed
qed

lemma plain_evict: "kv_plain s \<Longrightarrow> kv_plain (evict_expired s k now)"
  by (simp add: kv_plain_def kv_sized_def del: length_greater_0_conv)

lemma plain_Get:
  assumes "kv_plain s"
  shows "kv_plain (snd (Get s k now now2)) \<and>
    kv_map (snd (Get s k now now2)) =
      (if live (kv_map s) k now = None then purge (kv_map s) k now2 else kv_map s) \<and>
    fst (Get s k now now2) = map_option ent_val (live (kv_map s) k now)"
proof -
  have c: "kv_plain (count_miss t) = kv_plain t" "kv_plain (count_hit t) = kv_plain t" for t
    by (simp_all add: kv_plain_def kv_sized_def count_miss_def count_hit_def)
  show ?thesis using assms plain_evict [OF assms, of k now2] evict_map [of s k now2]
    by (auto simp: Get_def kv_map_def [symmetric] live_def c map_simps kv_plain_def [of s] split: option.split)
qed

interpretation memkv: kv_api kv_plain kv_map Set Get Update Delete Expire
  by unfold_locales
    (simp_all add: plain_Set plain_Get plain_Update plain_Delete plain_Expire)

lemma plain_New:
  "opt_Shards opts < 2 ^ 63 \<Longrightarrow> opt_MaxBytes opts = 0 \<Longrightarrow> opt_ExpireJitter opts = 0 \<Longrightarrow> kv_plain (New opts)"
  using kv_invD(1) [OF inv_New] by (simp add: kv_plain_def) (simp add: New_def withDefaults_def Let_def)

section \<open>Properties\<close>

text \<open>
  C3: in every state that client operations, expirer turns (each with a clock that does not run
  backwards within the turn) and \<open>Close\<close> can lead to, in any order, the expiry queue is a heap
  and holds, for every entry with a deadline, an item with that entry's current deadline and
  key: an entry that \<open>Expire\<close> or \<open>Set\<close> re-dated is never forgotten by the expirer.
\<close>

theorem memkv_queue_covers:
  assumes "kv_reachable opts s"
  shows "is_heap it_when (st_expq s) \<and>
    (\<forall>k e. kv_map s k = Some e \<longrightarrow> ent_expireAt e \<noteq> 0 \<longrightarrow>
      \<lparr>it_when = ent_expireAt e, it_key = k\<rparr> \<in> set (st_expq s))"
proof -
  have "kv_inv s"
    using assms
  proof induction
    case kv_start
    then show ?case by (rule inv_New)
  next
    case (kv_client s op')
    then show ?case by (intro inv_exec)
  next
    case (kv_turn s now nowN)
    then show ?case by (intro inv_turn)
  next
    case (kv_close s t)
    then show ?case by (auto simp: Close_def split: if_splits intro: inv_same)
  qed
  then show ?thesis by (auto dest: kv_invD)
qed

definition sample_options :: Options where
  "sample_options = \<lparr>opt_Shards = 1, opt_CopyOnSet = True, opt_CopyOnGet = True,
     opt_ExpireJitter = 0, opt_MaxBytes = 4\<rparr>"

definition sample_ops :: "kv_op list" where
  "sample_ops = [OSet ''a'' [1, 2, 3] 10 5, OUpdate ''a'' (\<lambda>b. b) 20, OSet ''b'' [7, 8] 0 20, OGet ''a'' 20 20]"

theorem memkv_queue_covers_witness:
  "\<lparr>it_when = 15, it_key = ''a''\<rparr> \<in>
     set (st_expq (snd (kv_exec (New sample_options) (OSet ''a'' [1, 2, 3] 10 5))))"
proof -
  have "kv_reachable sample_options (snd (kv_exec (New sample_options) (OSet ''a'' [1, 2, 3] 10 5)))"
    by (intro kv_client kv_start) (simp add: sample_options_def)
  moreover have "kv_map (snd (kv_exec (New sample_options) (OSet ''a'' [1, 2, 3] 10 5))) ''a'' =
      Some \<lparr>ent_val = [1, 2, 3], ent_expireAt = 15\<rparr>" by code_simp
  ultimately show ?thesis using memkv_queue_covers by fastforce
qed

text \<open>
  C1: a store behaves as one flat map with deadlines: any sequence of client operations returns
  the results, and leaves the contents, that the specification on the flat map gives: a value is
  stored when the limit allows it, read while its deadline has not passed, and so on. The one
  thing the contents do not tell is what the limit counts besides: the length of every expired
  value that \<open>Update\<close> took out (\<open>kv_lose\<close>). The counted bytes stay below \<open>2 ^ 64\<close>.
\<close>

theorem memkv_refines_flat_map:
  assumes "opt_Shards opts < 2 ^ 63" "kv_run_ok (New opts) xs"
  shows "fst (kv_run (New opts) xs) = fst (kv_spec_run (New opts) (0, 0) Map.empty xs) \<and>
    kv_map (snd (kv_run (New opts) xs)) = snd (kv_spec_run (New opts) (0, 0) Map.empty xs)"
  using run_refines [OF acct_New [OF assms(1)] assms(2) refl] assms(1) by (simp_all add: refines_def)

lemma sample_new: "kv_map (New sample_options) = Map.empty" "mBytes (New sample_options) = 0"
  by (rule kv_map_New, simp add: sample_options_def) code_simp

text \<open>The states the sample goes through, as the specification has them.\<close>

lemma sample_spec:
  "kv_spec (New sample_options) l Map.empty (OSet ''a'' [1, 2, 3] 10 5) =
     (if snd l \<le> 1 then (RBool True, [''a'' \<mapsto> \<lparr>ent_val = [1, 2, 3], ent_expireAt = 15\<rparr>]) else (RBool False, Map.empty))"
  "kv_spec (New sample_options) l [''a'' \<mapsto> \<lparr>ent_val = [1, 2, 3], ent_expireAt = 15\<rparr>] (OUpdate ''a'' f 20) =
     (RBool False, Map.empty)"
  "kv_spec (New sample_options) (Suc 0, 3) Map.empty (OSet ''b'' [7, 8] 0 20) = (RBool False, Map.empty)"
  "kv_spec (New sample_options) l Map.empty (OGet ''a'' 20 20) = (RVal None, Map.empty)"
  by (simp_all add: sample_options_def New_def withDefaults_def Let_def fits_def elen_def kv_bytes_def
      live_def expired_def set_expAt_def i64_id)

lemma sample_lose:
  "kv_lose m (OSet k v ttl now) l = l" "kv_lose m (OGet k now now2) l = l"
  "kv_lose [''a'' \<mapsto> \<lparr>ent_val = [1, 2, 3], ent_expireAt = 15\<rparr>] (OUpdate ''a'' f 20) (0, 0) = (Suc 0, 3)"
  by (simp_all add: kv_lose_def expired_def)

lemma sample_run_ok: "kv_run_ok (New sample_options) sample_ops"
proof -
  let ?s = "snd (kv_exec (New sample_options) (OSet ''a'' [1, 2, 3] 10 5))"
  have b: "mBytes ?s = 3" "mBytes (snd (kv_exec ?s (OUpdate ''a'' (\<lambda>b. b) 20))) = 3" by code_simp+
  have "kv_map ?s ''a'' = Some \<lparr>ent_val = [1, 2, 3], ent_expireAt = 15\<rparr>" by code_simp
  then have "kv_step_ok ?s (OUpdate ''a'' (\<lambda>b. b) 20)" by (simp add: b(1) del: kv_exec.simps)
  then show ?thesis using b sample_new(2) by (simp add: sample_ops_def del: kv_exec.simps)
qed

text \<open>
  The sample: a value of three bytes expires at 15, \<open>Update\<close> finds it expired at 20, and from then
  on a value of two bytes is refused although the store, limited to four bytes, is empty.
\<close>

theorem memkv_refines_flat_map_witness:
  "fst (kv_run (New sample_options) sample_ops) =
     [RBool True, RBool False, RBool False, RVal None] \<and>
   kv_map (snd (kv_run (New sample_options) sample_ops)) = Map.empty"
proof -
  have "fst (kv_spec_run (New sample_options) (0, 0) Map.empty sample_ops) =
      [RBool True, RBool False, RBool False, RVal None]"
    "snd (kv_spec_run (New sample_options) (0, 0) Map.empty sample_ops) = Map.empty"
    by (simp_all add: sample_ops_def sample_spec sample_lose del: kv_spec.simps)
  then show ?thesis
    using memkv_refines_flat_map [OF _ sample_run_ok] by (simp add: sample_options_def)
qed

text \<open>
  C2: the metrics after any sequence of client operations: \<open>Keys\<close> is the number of stored keys and
  of entries that \<open>Update\<close> took out after their deadline, \<open>Bytes\<close> the total length of both, and with
  a limit set \<open>Bytes\<close> never exceeds it. So the metrics are exact as long as no \<open>Update\<close> meets an
  expired entry, and never again after one did. The counted bytes stay below \<open>2 ^ 64\<close>.
\<close>

theorem memkv_accounting:
  assumes "opt_Shards opts < 2 ^ 63" "kv_run_ok (New opts) xs"
    and "(keys, bytes) = kv_lost_run (New opts) (0, 0) Map.empty xs" "s = snd (kv_run (New opts) xs)"
  shows "Keys (Metrics s) = of_nat (card (dom (kv_map s)) + keys) \<and>
    unat (Bytes (Metrics s)) = kv_bytes (kv_map s) + bytes \<and>
    (opt_MaxBytes opts \<noteq> 0 \<longrightarrow> Bytes (Metrics s) \<le> opt_MaxBytes opts) \<and>
    (updates_timely (New opts) xs \<longrightarrow> keys = 0 \<and> bytes = 0)"
proof (intro conjI impI)
  note new = acct_New [OF assms(1)]
  have a: "kv_acct (keys, bytes) s"
    using run_refines [OF new assms(2) refl] assms by (simp add: refines_def)
  then show "Keys (Metrics s) = of_nat (card (dom (kv_map s)) + keys)"
    "unat (Bytes (Metrics s)) = kv_bytes (kv_map s) + bytes"
    by (simp_all add: kv_acct_def Metrics_def)
  have o': "opt_MaxBytes (st_opts (New opts)) = opt_MaxBytes opts"
    by (simp add: New_def withDefaults_def Let_def)
  have "mBytes (New opts) = 0" by (simp add: New_def Let_def)
  with run_limit [OF new assms(2)] o'
  show "Bytes (Metrics s) \<le> opt_MaxBytes opts" if "opt_MaxBytes opts \<noteq> 0"
    using that by (simp add: Metrics_def assms(4))
  assume "updates_timely (New opts) xs"
  from lost_none [OF new assms(2) refl this] show "keys = 0" "bytes = 0"
    using assms(1,3) by simp_all
qed

theorem memkv_accounting_witness:
  "Keys (Metrics (snd (kv_run (New sample_options) sample_ops))) = 1 \<and>
   unat (Bytes (Metrics (snd (kv_run (New sample_options) sample_ops)))) = 3"
proof -
  have "(1, 3) = kv_lost_run (New sample_options) (0, 0) Map.empty sample_ops"
    "snd (kv_spec_run (New sample_options) (0, 0) Map.empty sample_ops) = Map.empty"
    by (simp_all add: sample_ops_def sample_spec sample_lose del: kv_spec.simps)
  moreover from this have "kv_map (snd (kv_run (New sample_options) sample_ops)) = Map.empty"
    using run_refines [OF acct_New sample_run_ok refl] sample_new(1)
    by (simp add: refines_def sample_options_def)
  ultimately show ?thesis
    using memkv_accounting [OF _ sample_run_ok, of 1 3] by (simp add: sample_options_def kv_bytes_def)
qed

text \<open>
  C4: one drain of the expiry queue at a moment removes exactly the entries whose deadline has
  passed, so that no reader sees a difference then or later, and leaves only later items in the
  queue.
\<close>

theorem expirer_removes_expired:
  assumes "kv_inv s"
  shows "kv_map (snd (expirer_drain s now)) k =
      (case kv_map s k of None \<Rightarrow> None | Some e \<Rightarrow> if expired e now then None else Some e) \<and>
    (now \<le> later \<longrightarrow> fst (Get (snd (expirer_drain s now)) k later later) = fst (Get s k later later)) \<and>
    (\<forall>it \<in> set (st_expq (snd (expirer_drain s now))). now < it_when it)"
proof (intro conjI impI)
  note d = drain_effect [OF assms, of now]
  show m: "kv_map (snd (expirer_drain s now)) k =
      (case kv_map s k of None \<Rightarrow> None | Some e \<Rightarrow> if expired e now then None else Some e)"
    using d by (simp add: live_def)
  have get: "fst (Get t k later later) = map_option ent_val (live (kv_map t) k later)" for t
    by (simp add: Get_def live_def kv_map_def [symmetric] split: option.split)
  show "fst (Get (snd (expirer_drain s now)) k later later) = fst (Get s k later later)" if "now \<le> later"
    using m that by (auto simp: get live_def expired_def split: option.splits if_splits)
  show "\<forall>it \<in> set (st_expq (snd (expirer_drain s now))). now < it_when it"
    using d is_heap_root [of it_when "st_expq (snd (expirer_drain s now))"]
    by (fastforce simp: in_set_conv_nth dest: kv_invD(3))
qed

theorem expirer_removes_expired_witness:
  "kv_map (snd (expirer_drain (snd (kv_exec (New sample_options) (OSet ''a'' [1] 10 5))) 15)) ''a'' = None"
proof -
  let ?s = "snd (kv_exec (New sample_options) (OSet ''a'' [1] 10 5))"
  have inv: "kv_inv ?s" by (intro inv_exec inv_New) (simp add: sample_options_def)
  have "kv_map ?s ''a'' = Some \<lparr>ent_val = [1], ent_expireAt = 15\<rparr>" by code_simp
  then show ?thesis using expirer_removes_expired [OF inv, of 15 "''a''"] by (simp add: expired_def)
qed

end
