(* ===== verification/Wire.thy ===== *)
theory Wire
  imports Prelude
begin

unbundle bit_operations_syntax

text \<open>
  The fixed-header wire format of \<open>pkg/protocol\<close>: the message constants of \<open>types.go\<close>, the
  64-byte header of \<open>header.go\<close>, and the envelopes of \<open>envelope.go\<close> with their frame codec,
  stream codec, fragmentation and reassembly; and the framed connection of
  \<open>pkg/protocol/stream/conn.go\<close>. A byte stream to read from is the list of the bytes it
  still holds; a writer is a function from its state and the bytes to its new state, the
  count written and an error, subject to the contract of \<open>io.Writer\<close> (locale \<open>io_writer\<close>).
\<close>

section \<open>Constants and records\<close>

datatype msg_type = MsgUnknown | MsgTask | MsgResult | MsgControl | MsgHeartbeat | MsgRoute
  | MsgDagFragment

fun msg_code :: "msg_type \<Rightarrow> uint8" where
  "msg_code MsgUnknown = 0"
| "msg_code MsgTask = 1"
| "msg_code MsgResult = 2"
| "msg_code MsgControl = 3"
| "msg_code MsgHeartbeat = 4"
| "msg_code MsgRoute = 5"
| "msg_code MsgDagFragment = 6"

definition FlagCompressed :: uint32 where "FlagCompressed = 1"
definition FlagEncrypted :: uint32 where "FlagEncrypted = push_bit 1 1"
definition FlagAck :: uint32 where "FlagAck = push_bit 2 1"
definition FlagStream :: uint32 where "FlagStream = push_bit 3 1"
definition FlagFragment :: uint32 where "FlagFragment = push_bit 4 1"
definition FlagLastFrag :: uint32 where "FlagLastFrag = push_bit 5 1"
definition FlagTunnel :: uint32 where "FlagTunnel = push_bit 6 1"

definition headerSize :: nat where "headerSize = 64"
definition magicWord :: uint16 where "magicWord = 0x544d"

record Header =
  hdr_Version :: uint8
  hdr_Type :: uint8
  hdr_Flags :: uint32
  hdr_Priority :: uint8
  hdr_PayloadLen :: uint32
  hdr_Correlation :: "byte list"
  hdr_Source :: uint64
  hdr_Dest :: uint64
  hdr_DagID :: uint64
  hdr_DagStep :: uint32
  hdr_FragTotal :: uint16
  hdr_FragIndex :: uint16

text \<open>\<open>Correlation\<close> is a Go array of 16 bytes.\<close>

definition wf_header :: "Header \<Rightarrow> bool" where
  "wf_header h \<longleftrightarrow> length (hdr_Correlation h) = 16"

definition zero_header :: Header where
  "zero_header = \<lparr>hdr_Version = 0, hdr_Type = 0, hdr_Flags = 0, hdr_Priority = 0,
     hdr_PayloadLen = 0, hdr_Correlation = replicate 16 0, hdr_Source = 0, hdr_Dest = 0,
     hdr_DagID = 0, hdr_DagStep = 0, hdr_FragTotal = 0, hdr_FragIndex = 0\<rparr>"

record Envelope =
  env_Header :: Header
  env_Payload :: "byte list"

definition zero_envelope :: Envelope where
  "zero_envelope = \<lparr>env_Header = zero_header, env_Payload = []\<rparr>"

datatype wire_error = ErrShortHeader | ErrBadMagic | EOF | ErrUnexpectedEOF
  | ErrPayloadTooLarge uint32 | ErrInvalidChunk | ErrNoFragments | ErrWrite

section \<open>The header\<close>

definition put16 :: "uint16 \<Rightarrow> byte list" where "put16 w = le_bytes 2 (unat w)"
definition put32 :: "uint32 \<Rightarrow> byte list" where "put32 w = le_bytes 4 (unat w)"
definition put64 :: "uint64 \<Rightarrow> byte list" where "put64 w = le_bytes 8 (unat w)"
definition get16 :: "byte list \<Rightarrow> uint16" where "get16 bs = of_nat (le_val bs)"
definition get32 :: "byte list \<Rightarrow> uint32" where "get32 bs = of_nat (le_val bs)"
definition get64 :: "byte list \<Rightarrow> uint64" where "get64 bs = of_nat (le_val bs)"

definition MarshalBinary :: "Header \<Rightarrow> byte list" where
  "MarshalBinary h =
     (let buf = replicate headerSize 0;
          buf = put_at buf 0 (put16 magicWord);
          buf = put_at buf 2 [hdr_Version h];
          buf = put_at buf 3 [hdr_Type h];
          buf = put_at buf 4 (put32 (hdr_Flags h));
          buf = put_at buf 8 [hdr_Priority h];
          buf = put_at buf 10 (put32 (hdr_PayloadLen h));
          buf = put_at buf 14 (take 16 (hdr_Correlation h));
          buf = put_at buf 30 (put64 (hdr_Source h));
          buf = put_at buf 38 (put64 (hdr_Dest h));
          buf = put_at buf 46 (put64 (hdr_DagID h));
          buf = put_at buf 54 (put32 (hdr_DagStep h));
          buf = put_at buf 58 (put16 (hdr_FragTotal h));
          buf = put_at buf 60 (put16 (hdr_FragIndex h))
      in buf)"

definition UnmarshalBinary :: "Header \<Rightarrow> byte list \<Rightarrow> wire_error + Header" where
  "UnmarshalBinary h buf =
     (if length buf < headerSize then Inl ErrShortHeader
      else if get16 (subslice 0 2 buf) \<noteq> magicWord then Inl ErrBadMagic
      else Inr (h\<lparr>hdr_Version := buf ! 2,
                  hdr_Type := buf ! 3,
                  hdr_Flags := get32 (subslice 4 8 buf),
                  hdr_Priority := buf ! 8,
                  hdr_PayloadLen := get32 (subslice 10 14 buf),
                  hdr_Correlation := subslice 14 30 buf,
                  hdr_Source := get64 (subslice 30 38 buf),
                  hdr_Dest := get64 (subslice 38 46 buf),
                  hdr_DagID := get64 (subslice 46 54 buf),
                  hdr_DagStep := get32 (subslice 54 58 buf),
                  hdr_FragTotal := get16 (subslice 58 60 buf),
                  hdr_FragIndex := get16 (subslice 60 62 buf)\<rparr>))"

lemma length_puts [simp]: "length (put16 a) = 2" "length (put32 b) = 4" "length (put64 c) = 8"
  by (simp_all add: put16_def put32_def put64_def)

lemma get_put [simp]: "get16 (put16 a) = a" "get32 (put32 b) = b" "get64 (put64 c) = c"
proof -
  have "unat a < 256 ^ 2" "unat b < 256 ^ 4" "unat c < 256 ^ 8"
    using unsigned_less [of a, where ?'a = nat] unsigned_less [of b, where ?'a = nat]
      unsigned_less [of c, where ?'a = nat] by simp_all
  then show "get16 (put16 a) = a" "get32 (put32 b) = b" "get64 (put64 c) = c"
    by (simp_all add: get16_def get32_def get64_def put16_def put32_def put64_def le_val_le_bytes)
qed

lemma put_get:
  "length bs = 2 \<Longrightarrow> put16 (get16 bs) = bs"
  "length bs = 4 \<Longrightarrow> put32 (get32 bs) = bs"
  "length bs = 8 \<Longrightarrow> put64 (get64 bs) = bs"
  using le_val_bound [of bs] le_bytes_le_val [of bs]
  by (simp_all add: get16_def get32_def get64_def put16_def put32_def put64_def
      unat_of_nat take_bit_eq_mod)

lemma subslice_one: "i < length buf \<Longrightarrow> subslice i (Suc i) buf = [buf ! i]"
  by (simp add: subslice_def take_Suc_conv_app_nth hd_drop_conv_nth take_Suc)

lemma put_at_fill:
  "length a \<le> off \<Longrightarrow> off + length bs \<le> length a + k \<Longrightarrow>
   put_at (a @ replicate k 0) off bs =
     (a @ replicate (off - length a) 0 @ bs) @ replicate (length a + k - (off + length bs)) 0"
  by (simp add: put_at_def)

lemma put_at_fill0:
  "off + length bs \<le> k \<Longrightarrow>
   put_at (replicate k 0) off bs = (replicate off 0 @ bs) @ replicate (k - (off + length bs)) 0"
  using put_at_fill [of "[]" off bs k] by simp

lemma replicate_one: "replicate (Suc 0) x = [x]"
  by simp

lemma MarshalBinary_layout:
  assumes "wf_header h"
  shows "MarshalBinary h =
    put16 magicWord @ [hdr_Version h, hdr_Type h] @ put32 (hdr_Flags h) @
    [hdr_Priority h, 0] @ put32 (hdr_PayloadLen h) @ hdr_Correlation h @
    put64 (hdr_Source h) @ put64 (hdr_Dest h) @ put64 (hdr_DagID h) @
    put32 (hdr_DagStep h) @ put16 (hdr_FragTotal h) @ put16 (hdr_FragIndex h) @ [0, 0]"
proof -
  have c: "length (hdr_Correlation h) = 16" using assms by (simp add: wf_header_def)
  have "MarshalBinary h =
    ((((((((((((put16 magicWord @ [hdr_Version h]) @ [hdr_Type h]) @ put32 (hdr_Flags h)) @
    [hdr_Priority h]) @ [0] @ put32 (hdr_PayloadLen h)) @ hdr_Correlation h) @
    put64 (hdr_Source h)) @ put64 (hdr_Dest h)) @ put64 (hdr_DagID h)) @
    put32 (hdr_DagStep h)) @ put16 (hdr_FragTotal h)) @ put16 (hdr_FragIndex h)) @ replicate 2 0"
    by (simp add: MarshalBinary_def Let_def headerSize_def put_at_fill put_at_fill0 c replicate_one
        del: append_assoc replicate.simps append_Cons)
  then show ?thesis by (simp add: eval_nat_numeral)
qed

lemma length_MarshalBinary [simp]: "wf_header h \<Longrightarrow> length (MarshalBinary h) = 64"
  by (simp add: MarshalBinary_layout) (simp add: wf_header_def)

lemma subslice_skip: "length a \<le> i \<Longrightarrow> subslice i j (a @ b) = subslice (i - length a) (j - length a) b"
  by (simp add: subslice_def diff_diff_eq)

lemma subslice_skip1: "0 < i \<Longrightarrow> subslice i j (x # b) = subslice (i - 1) (j - 1) b"
  by (cases i) (auto simp: subslice_def)

lemma subslice_whole: "length a = j \<Longrightarrow> subslice 0 j (a @ b) = a"
  by (simp add: subslice_def)

lemma nth_skip: "length a \<le> i \<Longrightarrow> (a @ b) ! i = b ! (i - length a)"
  by (simp add: nth_append)

lemma marshal_fields:
  assumes "wf_header h"
  shows "subslice 0 2 (MarshalBinary h) = put16 magicWord"
    "MarshalBinary h ! 2 = hdr_Version h" "MarshalBinary h ! 3 = hdr_Type h"
    "subslice 4 8 (MarshalBinary h) = put32 (hdr_Flags h)"
    "MarshalBinary h ! 8 = hdr_Priority h"
    "subslice 10 14 (MarshalBinary h) = put32 (hdr_PayloadLen h)"
    "subslice 14 30 (MarshalBinary h) = hdr_Correlation h"
    "subslice 30 38 (MarshalBinary h) = put64 (hdr_Source h)"
    "subslice 38 46 (MarshalBinary h) = put64 (hdr_Dest h)"
    "subslice 46 54 (MarshalBinary h) = put64 (hdr_DagID h)"
    "subslice 54 58 (MarshalBinary h) = put32 (hdr_DagStep h)"
    "subslice 58 60 (MarshalBinary h) = put16 (hdr_FragTotal h)"
    "subslice 60 62 (MarshalBinary h) = put16 (hdr_FragIndex h)"
  unfolding MarshalBinary_layout [OF assms]
  using assms
  by (simp_all add: subslice_skip subslice_skip1 subslice_whole nth_skip wf_header_def)

lemma UnmarshalBinary_Marshal:
  assumes "wf_header h"
  shows "UnmarshalBinary h0 (MarshalBinary h) = Inr h"
  using assms by (simp add: UnmarshalBinary_def headerSize_def marshal_fields)

lemma UnmarshalBinary_take:
  "64 \<le> length buf \<Longrightarrow> UnmarshalBinary h (take 64 buf) = UnmarshalBinary h buf"
  by (simp add: UnmarshalBinary_def headerSize_def subslice_def drop_take min_def)

lemma UnmarshalBinary_append:
  "64 \<le> length a \<Longrightarrow> UnmarshalBinary h (a @ b) = UnmarshalBinary h a"
  by (simp add: UnmarshalBinary_def headerSize_def bytes_simps nth_append)

lemma UnmarshalBinary_wf: "UnmarshalBinary h0 buf = Inr h \<Longrightarrow> wf_header h"
  by (auto simp: UnmarshalBinary_def headerSize_def wf_header_def subslice_def split: if_splits)

lemma UnmarshalBinary_receiver:
  "UnmarshalBinary h0 buf = UnmarshalBinary h1 buf"
  by (simp add: UnmarshalBinary_def)

lemma subslice_join: "i \<le> j \<Longrightarrow> j \<le> k \<Longrightarrow> subslice i j buf @ subslice j k buf = subslice i k buf"
proof -
  assume le: "i \<le> j" "j \<le> k"
  have "drop j buf = drop (j - i) (drop i buf)" using le by simp
  moreover have "k - i = (j - i) + (k - j)" using le by simp
  ultimately show ?thesis by (simp only: subslice_def take_add)
qed

lemma subslice_head: "64 \<le> length buf \<Longrightarrow>
  take 64 buf = subslice 0 2 buf @ [buf ! 2, buf ! 3] @ subslice 4 8 buf @ [buf ! 8, buf ! 9] @
    subslice 10 14 buf @ subslice 14 30 buf @ subslice 30 38 buf @ subslice 38 46 buf @
    subslice 46 54 buf @ subslice 54 58 buf @ subslice 58 60 buf @ subslice 60 62 buf @
    [buf ! 62, buf ! 63]"
proof -
  assume len: "64 \<le> length buf"
  have one: "[buf ! i] = subslice i (i + 1) buf" if "i < 64" for i
    using subslice_one [of i buf] that len by simp
  have two: "[buf ! i, buf ! (i + 1)] = subslice i (i + 2) buf" if "i < 63" for i
  proof -
    have "[buf ! i, buf ! (i + 1)] = [buf ! i] @ [buf ! (i + 1)]" by simp
    also have "\<dots> = subslice i (i + 1) buf @ subslice (i + 1) (i + 1 + 1) buf"
      using one [of i] one [of "i + 1"] that by simp
    also have "\<dots> = subslice i (i + 2) buf" using subslice_join [of i "i + 1" "i + 2" buf] by simp
    finally show ?thesis .
  qed
  have "[buf ! 2, buf ! 3] = subslice 2 4 buf" "[buf ! 8, buf ! 9] = subslice 8 10 buf"
    "[buf ! 62, buf ! 63] = subslice 62 64 buf"
    using two [of 2] two [of 8] two [of 62] by simp_all
  then show ?thesis by (simp add: subslice_join) (simp add: subslice_def)
qed

section \<open>Envelopes and frames\<close>

definition HasFlag :: "Envelope \<Rightarrow> uint32 \<Rightarrow> bool" where
  "HasFlag e flag \<longleftrightarrow> hdr_Flags (env_Header e) AND flag \<noteq> 0"

definition SetFlag :: "Envelope \<Rightarrow> uint32 \<Rightarrow> bool \<Rightarrow> Envelope" where
  "SetFlag e flag on =
     e\<lparr>env_Header := (env_Header e)\<lparr>hdr_Flags :=
       (if on then hdr_Flags (env_Header e) OR flag else hdr_Flags (env_Header e) AND NOT flag)\<rparr>\<rparr>"

definition set_PayloadLen :: "Envelope \<Rightarrow> Envelope" where
  "set_PayloadLen e =
     e\<lparr>env_Header := (env_Header e)\<lparr>hdr_PayloadLen := of_nat (length (env_Payload e))\<rparr>\<rparr>"

definition EncodeFrame :: "Envelope \<Rightarrow> Envelope \<times> byte list" where
  "EncodeFrame e =
     (let e = set_PayloadLen e;
          hb = MarshalBinary (env_Header e);
          out = replicate (headerSize + length (env_Payload e)) 0;
          out = put_at out 0 hb;
          out = put_at out headerSize (env_Payload e)
      in (e, out))"

definition DecodeFrame :: "Envelope \<Rightarrow> byte list \<Rightarrow> Envelope \<times> wire_error option" where
  "DecodeFrame e buf =
     (if length buf < headerSize then (e, Some ErrUnexpectedEOF)
      else case UnmarshalBinary (env_Header e) (subslice 0 headerSize buf) of
        Inl err \<Rightarrow> (e, Some err)
      | Inr h \<Rightarrow>
          let e = e\<lparr>env_Header := h\<rparr>; need = unat (hdr_PayloadLen h) in
          if headerSize + need > length buf then (e, Some ErrUnexpectedEOF)
          else (e\<lparr>env_Payload := subslice headerSize (headerSize + need) buf\<rparr>, None))"

text \<open>\<open>io.ReadFull\<close> on the bytes a stream still holds.\<close>

definition ReadFull :: "nat \<Rightarrow> byte list \<Rightarrow> wire_error option \<times> byte list \<times> byte list" where
  "ReadFull n st =
     (if n \<le> length st then (None, take n st, drop n st)
      else if st = [] then (Some EOF, [], [])
      else (Some ErrUnexpectedEOF, st, []))"

definition ReadFrom :: "Envelope \<Rightarrow> byte list \<Rightarrow> Envelope \<times> (wire_error + nat) \<times> byte list" where
  "ReadFrom e st =
     (case ReadFull headerSize st of
        (Some err, _, st) \<Rightarrow> (e, Inl err, st)
      | (None, hb, st) \<Rightarrow>
          (case UnmarshalBinary (env_Header e) hb of
             Inl err \<Rightarrow> (e, Inl err, st)
           | Inr h \<Rightarrow>
               let e = e\<lparr>env_Header := h\<rparr>; n = unat (hdr_PayloadLen h) in
               if n > 0 then
                 if n > 2 ^ 31 then (e, Inl (ErrPayloadTooLarge (hdr_PayloadLen h)), st)
                 else (case ReadFull n st of
                     (Some err, got, st) \<Rightarrow>
                       (e\<lparr>env_Payload := got @ replicate (n - length got) 0\<rparr>, Inl err, st)
                   | (None, got, st) \<Rightarrow> (e\<lparr>env_Payload := got\<rparr>, Inr (headerSize + n), st))
               else (e\<lparr>env_Payload := []\<rparr>, Inr (headerSize + n), st)))"

definition WriteTo ::
  "('w \<Rightarrow> byte list \<Rightarrow> 'w \<times> nat \<times> wire_error option) \<Rightarrow> Envelope \<Rightarrow> 'w \<Rightarrow>
   Envelope \<times> 'w \<times> nat \<times> wire_error option" where
  "WriteTo wr e w =
     (let e = set_PayloadLen e; hb = MarshalBinary (env_Header e) in
      case wr w hb of
        (w, n1, Some err) \<Rightarrow> (e, w, n1, Some err)
      | (w, n1, None) \<Rightarrow>
          (case wr w (env_Payload e) of (w, n2, err) \<Rightarrow> (e, w, n1 + n2, err)))"

text \<open>The bytes of one frame.\<close>

definition frame :: "Envelope \<Rightarrow> byte list" where
  "frame e = MarshalBinary (env_Header (set_PayloadLen e)) @ env_Payload e"

definition wf_envelope :: "Envelope \<Rightarrow> bool" where
  "wf_envelope e \<longleftrightarrow> wf_header (env_Header e)"

lemma wf_set_PayloadLen [simp]: "wf_header (env_Header (set_PayloadLen e)) = wf_envelope e"
  by (simp add: wf_envelope_def set_PayloadLen_def wf_header_def)

lemma set_PayloadLen_payload [simp]: "env_Payload (set_PayloadLen e) = env_Payload e"
  by (simp add: set_PayloadLen_def)

lemma unat_len32: "length xs < 2 ^ 32 \<Longrightarrow> unat (of_nat (length xs) :: uint32) = length xs"
  by (simp add: unat_of_nat take_bit_eq_mod)

lemma PayloadLen_set [simp]:
  "length (env_Payload e) < 2 ^ 32 \<Longrightarrow>
   unat (hdr_PayloadLen (env_Header (set_PayloadLen e))) = length (env_Payload e)"
  by (simp add: set_PayloadLen_def unat_len32)

lemma EncodeFrame_frame: "wf_envelope e \<Longrightarrow> EncodeFrame e = (set_PayloadLen e, frame e)"
  by (simp add: EncodeFrame_def frame_def Let_def put_at_def headerSize_def)

lemma length_frame: "wf_envelope e \<Longrightarrow> length (frame e) = 64 + length (env_Payload e)"
  by (simp add: frame_def)

lemma DecodeFrame_frame:
  assumes "wf_envelope e" "length (env_Payload e) < 2 ^ 32"
  shows "DecodeFrame e0 (frame e @ rest) = (set_PayloadLen e, None)"
proof -
  let ?h = "env_Header (set_PayloadLen e)"
  have "subslice 0 64 (frame e @ rest) = MarshalBinary ?h"
    using assms by (simp add: frame_def subslice_def)
  moreover have "subslice 64 (64 + length (env_Payload e)) (frame e @ rest) = env_Payload e"
    using assms by (simp add: frame_def subslice_def)
  ultimately show ?thesis using assms
    by (simp add: DecodeFrame_def headerSize_def length_frame UnmarshalBinary_Marshal Let_def)
qed

lemma ReadFull_append: "length a = n \<Longrightarrow> ReadFull n (a @ b) = (None, a, b)"
  by (simp add: ReadFull_def)

lemma ReadFrom_frame:
  assumes "wf_envelope e" "length (env_Payload e) \<le> 2 ^ 31"
  shows "ReadFrom e0 (frame e @ rest) = (set_PayloadLen e, Inr (64 + length (env_Payload e)), rest)"
proof -
  let ?h = "env_Header (set_PayloadLen e)"
  have h: "ReadFull 64 (frame e @ rest) = (None, MarshalBinary ?h, env_Payload e @ rest)"
    using assms by (simp add: frame_def ReadFull_append)
  have n: "unat (hdr_PayloadLen ?h) = length (env_Payload e)" using assms by simp
  have p: "ReadFull (length (env_Payload e)) (env_Payload e @ rest) = (None, env_Payload e, rest)"
    by (simp add: ReadFull_append)
  show ?thesis using assms n p h
    by (simp add: ReadFrom_def headerSize_def UnmarshalBinary_Marshal Let_def)
qed

lemma ReadFrom_too_large:
  assumes "UnmarshalBinary (env_Header e0) (take 64 st) = Inr h" "64 \<le> length st"
    and "unat (hdr_PayloadLen h) > 2 ^ 31"
  shows "ReadFrom e0 st =
    (e0\<lparr>env_Header := h\<rparr>, Inl (ErrPayloadTooLarge (hdr_PayloadLen h)), drop 64 st)"
  using assms by (simp add: ReadFrom_def ReadFull_def headerSize_def Let_def)

section \<open>Correlation ids and other helpers\<close>

text \<open>\<open>NewCorrelation\<close> fills a 16-byte array from the random source, whose bytes are \<open>rnd\<close>.\<close>

definition NewCorrelation :: "byte list \<Rightarrow> (byte list \<times> wire_error option) \<times> byte list" where
  "NewCorrelation rnd =
     (case ReadFull 16 rnd of
        (err, got, rnd) \<Rightarrow> ((got @ replicate (16 - length got) 0, err), rnd))"

text \<open>\<open>b[off:off+8]\<close> panics when it does not lie within the capacity (here: the length).\<close>

definition EncodeUint64 :: "byte list \<Rightarrow> nat \<Rightarrow> uint64 \<Rightarrow> byte list option" where
  "EncodeUint64 b off v = (if off + 8 \<le> length b then Some (put_at b off (put64 v)) else None)"

text \<open>The routing hints of \<open>router.go\<close>.\<close>

record RouteHint =
  rh_NextHop :: uint64
  rh_Tunnel :: uint64
  rh_Hops :: "uint64 list"

section \<open>Fragmentation\<close>

definition fragment_total :: "nat \<Rightarrow> int \<Rightarrow> int" where
  "fragment_total len chunk = go_div (i64 (int len + chunk - 1)) chunk"

definition fragment :: "Envelope \<Rightarrow> nat \<Rightarrow> nat \<Rightarrow> nat \<Rightarrow> Envelope" where
  "fragment e chunk tot i =
     (let data = env_Payload e; start = i * chunk; fin = min (start + chunk) (length data);
          h = env_Header e;
          flags = hdr_Flags h OR FlagFragment
      in \<lparr>env_Header = h\<lparr>hdr_FragIndex := of_nat i, hdr_FragTotal := of_nat tot,
            hdr_Flags := (if i = tot - 1 then flags OR FlagLastFrag else flags)\<rparr>,
          env_Payload = subslice start fin data\<rparr>)"

definition Fragments :: "Envelope \<Rightarrow> int \<Rightarrow> wire_error + Envelope list" where
  "Fragments e chunk =
     (if chunk \<le> 0 then Inl ErrInvalidChunk
      else let tot = fragment_total (length (env_Payload e)) chunk in
        if tot \<le> 1 then Inr [e]
        else Inr (map (fragment e (nat chunk) (nat tot)) [0 ..< nat tot]))"

definition Reassemble :: "Envelope list \<Rightarrow> wire_error + Envelope" where
  "Reassemble frags =
     (case frags of
        [] \<Rightarrow> Inl ErrNoFragments
      | base # _ \<Rightarrow>
          let buf = concat (map env_Payload frags); h = env_Header base in
          Inr \<lparr>env_Header = h\<lparr>hdr_Flags := hdr_Flags h AND NOT (FlagFragment OR FlagLastFrag),
                 hdr_FragIndex := 0, hdr_FragTotal := 0,
                 hdr_PayloadLen := of_nat (length buf)\<rparr>,
               env_Payload = buf\<rparr>)"

lemma fragment_total_nat:
  assumes "0 < chunk" "int len + chunk \<le> 2 ^ 63"
  shows "fragment_total len chunk = int ((len + nat chunk - 1) div nat chunk)"
proof -
  have eq: "int (len + nat chunk - 1) = int len + chunk - 1" using assms by (simp add: of_nat_diff)
  have "i64 (int len + chunk - 1) = int len + chunk - 1" using assms by (intro i64_id) auto
  then have "fragment_total len chunk = (int len + chunk - 1) div chunk"
    using assms by (simp add: fragment_total_def go_div_nonneg)
  then show ?thesis using assms eq by (simp add: zdiv_int)
qed

lemma concat_chunks:
  "0 < c \<Longrightarrow> concat (map (\<lambda>i. subslice (i * c) (min (i * c + c) (length xs)) xs) [0 ..< n]) =
     take (n * c) xs"
proof (induction n)
  case 0
  then show ?case by simp
next
  case (Suc n)
  have "take (n * c) xs @ subslice (n * c) (min (n * c + c) (length xs)) xs = take (n * c + c) xs"
    by (cases "n * c + c \<le> length xs") (simp_all add: subslice_def take_add min_def)
  with Suc show ?case by (simp add: add.commute)
qed

lemma ceil_div_covers: "0 < (c :: nat) \<Longrightarrow> len \<le> (len + c - 1) div c * c"
proof -
  assume c: "0 < c"
  have "len + c - 1 = (len + c - 1) div c * c + (len + c - 1) mod c" by simp
  moreover have "(len + c - 1) mod c < c" using c by simp
  ultimately show ?thesis using c by linarith
qed

text \<open>The fragments of an envelope, when it does not fit one chunk.\<close>

definition fragment_count :: "Envelope \<Rightarrow> int \<Rightarrow> nat" where
  "fragment_count e chunk = (length (env_Payload e) + nat chunk - 1) div nat chunk"

lemma Fragments_unfold:
  assumes "0 < chunk" "int (length (env_Payload e)) + chunk \<le> 2 ^ 63"
  shows "Fragments e chunk =
    (if fragment_count e chunk \<le> 1 then Inr [e]
     else Inr (map (fragment e (nat chunk) (fragment_count e chunk)) [0 ..< fragment_count e chunk]))"
  using assms by (simp add: Fragments_def fragment_total_nat fragment_count_def Let_def)

lemma Fragments_payload:
  assumes "0 < chunk" "int (length (env_Payload e)) + chunk \<le> 2 ^ 63" "Fragments e chunk = Inr fs"
  shows "concat (map env_Payload fs) = env_Payload e"
proof (cases "fragment_count e chunk \<le> 1")
  case True
  then show ?thesis using assms by (auto simp: Fragments_unfold)
next
  case False
  then have fs: "fs = map (fragment e (nat chunk) (fragment_count e chunk)) [0 ..< fragment_count e chunk]"
    using assms by (auto simp: Fragments_unfold)
  have "map env_Payload fs = map (\<lambda>i. subslice (i * nat chunk)
      (min (i * nat chunk + nat chunk) (length (env_Payload e))) (env_Payload e)) [0 ..< fragment_count e chunk]"
    unfolding fs by (simp add: fragment_def Let_def)
  then have "concat (map env_Payload fs) = take (fragment_count e chunk * nat chunk) (env_Payload e)"
    using concat_chunks [of "nat chunk"] assms(1) by simp
  also have "\<dots> = env_Payload e"
    using ceil_div_covers [of "nat chunk" "length (env_Payload e)"] assms(1)
    by (simp add: fragment_count_def)
  finally show ?thesis .
qed

lemma Fragments_not_Nil:
  assumes "0 < chunk" "int (length (env_Payload e)) + chunk \<le> 2 ^ 63" "Fragments e chunk = Inr fs"
  shows "fs \<noteq> [] \<and> env_Header (hd fs) = (if fragment_count e chunk \<le> 1 then env_Header e
     else env_Header (fragment e (nat chunk) (fragment_count e chunk) 0))"
  using assms by (auto simp: Fragments_unfold hd_map split: if_splits)

lemma flag_bits:
  "FlagFragment AND FlagLastFrag = 0" "FlagFragment \<noteq> 0" "FlagLastFrag \<noteq> 0"
  by (simp_all add: FlagFragment_def FlagLastFrag_def)

lemma clear_frag_flags:
  "(f OR FlagFragment) AND NOT FlagFragment AND NOT FlagLastFrag =
     f AND NOT FlagFragment AND NOT FlagLastFrag"
  by (rule bit_word_eqI) (simp only: bit_or_iff bit_and_iff bit_not_iff, blast)

section \<open>Writers and framed connections\<close>

text \<open>What \<open>io.Writer\<close> promises: the count of bytes taken, all of them when no error.\<close>

locale io_writer =
  fixes wr :: "'w \<Rightarrow> byte list \<Rightarrow> 'w \<times> nat \<times> wire_error option" and taken :: "'w \<Rightarrow> byte list"
  assumes wr_count: "wr w b = (w', n, err) \<Longrightarrow> n \<le> length b \<and> taken w' = taken w @ take n b"
    and wr_all: "wr w b = (w', n, None) \<Longrightarrow> n = length b"
begin

lemma WriteTo_frame:
  assumes "WriteTo wr e w = (e', w', n, None)" "wf_envelope e"
  shows "e' = set_PayloadLen e \<and> taken w' = taken w @ frame e \<and> n = length (frame e)"
proof -
  let ?hb = "MarshalBinary (env_Header (set_PayloadLen e))"
  obtain w1 n1 err1 where 1: "wr w ?hb = (w1, n1, err1)" by (metis prod_cases3)
  obtain w2 n2 err2 where 2: "wr w1 (env_Payload e) = (w2, n2, err2)" by (metis prod_cases3)
  have e1: "err1 = None" and eqs: "e' = set_PayloadLen e" "w' = w2" "n = n1 + n2" "err2 = None"
    using assms(1) 1 2 by (auto simp: WriteTo_def Let_def split: option.splits)
  have "n1 = length ?hb" "taken w1 = taken w @ ?hb" using wr_count [OF 1] wr_all 1 e1 by auto
  moreover have "n2 = length (env_Payload e)" "taken w2 = taken w1 @ env_Payload e"
    using wr_count [OF 2] wr_all 2 eqs by auto
  ultimately show ?thesis using eqs assms(2) by (simp add: frame_def)
qed

lemma WriteTo_prefix:
  assumes "WriteTo wr e w = (e', w', n, err)"
  shows "n \<le> length (frame e) \<and> taken w' = taken w @ take n (frame e)"
proof -
  let ?hb = "MarshalBinary (env_Header (set_PayloadLen e))"
  obtain w1 n1 err1 where 1: "wr w ?hb = (w1, n1, err1)" by (metis prod_cases3)
  obtain w2 n2 err2 where 2: "wr w1 (env_Payload e) = (w2, n2, err2)" by (metis prod_cases3)
  show ?thesis
  proof (cases err1)
    case None
    then have n1: "n1 = length ?hb" using wr_all 1 by simp
    show ?thesis using assms wr_count [OF 1] wr_count [OF 2] 1 2 None n1
      by (auto simp: WriteTo_def Let_def frame_def)
  next
    case (Some x)
    then show ?thesis using assms wr_count [OF 1] 1 by (auto simp: WriteTo_def Let_def frame_def)
  qed
qed

end

text \<open>
  \<open>stream.Conn\<close>: a buffered writer over a connection that may be broken, and the bytes the
  peer has sent. \<open>bufio.Writer\<close> keeps what it accepts in order until it is flushed.
\<close>

record Conn =
  conn_in :: "byte list"
  conn_buf :: "byte list"
  conn_out :: "byte list"
  conn_broken :: bool

definition bufio_Write :: "Conn \<Rightarrow> byte list \<Rightarrow> Conn \<times> nat \<times> wire_error option" where
  "bufio_Write c b =
     (if conn_broken c then (c, 0, Some ErrWrite)
      else (c\<lparr>conn_buf := conn_buf c @ b\<rparr>, length b, None))"

definition bufio_Flush :: "Conn \<Rightarrow> Conn \<times> wire_error option" where
  "bufio_Flush c =
     (if conn_broken c then (c, Some ErrWrite)
      else (c\<lparr>conn_out := conn_out c @ conn_buf c, conn_buf := []\<rparr>, None))"

definition Conn_Send :: "Conn \<Rightarrow> Envelope \<Rightarrow> Conn \<times> Envelope \<times> wire_error option" where
  "Conn_Send c e =
     (case WriteTo bufio_Write e c of
        (e, c, _, Some err) \<Rightarrow> (c, e, Some err)
      | (e, c, _, None) \<Rightarrow> (case bufio_Flush c of (c, err) \<Rightarrow> (c, e, err)))"

definition Conn_Recv :: "Conn \<Rightarrow> Envelope \<Rightarrow> Conn \<times> Envelope \<times> wire_error option" where
  "Conn_Recv c e =
     (case ReadFrom e (conn_in c) of
        (e, Inl err, st) \<Rightarrow> (c\<lparr>conn_in := st\<rparr>, e, Some err)
      | (e, Inr n, st) \<Rightarrow> (c\<lparr>conn_in := st\<rparr>, e, None))"

interpretation conn_writer: io_writer bufio_Write "\<lambda>c. conn_out c @ conn_buf c"
  by unfold_locales (auto simp: bufio_Write_def split: if_splits)

fun Send_all :: "Conn \<Rightarrow> Envelope list \<Rightarrow> Conn" where
  "Send_all c [] = c"
| "Send_all c (e # es) = Send_all (fst (Conn_Send c e)) es"

fun Recv_all :: "Conn \<Rightarrow> nat \<Rightarrow> Envelope list" where
  "Recv_all c 0 = []"
| "Recv_all c (Suc n) =
     (case Conn_Recv c zero_envelope of
        (c, e, None) \<Rightarrow> e # Recv_all c n
      | (c, e, Some err) \<Rightarrow> [])"

lemma Conn_Send_ok:
  assumes "\<not> conn_broken c" "conn_buf c = []" "wf_envelope e"
  shows "Conn_Send c e = (c\<lparr>conn_out := conn_out c @ frame e\<rparr>, set_PayloadLen e, None)"
  using assms
  by (simp add: Conn_Send_def WriteTo_def bufio_Write_def bufio_Flush_def Let_def frame_def)

lemma Send_all_out:
  assumes "\<not> conn_broken c" "conn_buf c = []" "\<forall>e \<in> set es. wf_envelope e"
  shows "conn_out (Send_all c es) = conn_out c @ concat (map frame es)"
  using assms by (induction es arbitrary: c) (simp_all add: Conn_Send_ok)

lemma Recv_all_frames:
  assumes "\<forall>e \<in> set es. wf_envelope e \<and> length (env_Payload e) \<le> 2 ^ 31"
    "conn_in c = concat (map frame es) @ rest"
  shows "Recv_all c (length es) = map set_PayloadLen es"
  using assms by (induction es arbitrary: c) (simp_all add: Conn_Recv_def ReadFrom_frame)

section \<open>Properties\<close>

text \<open>
  Decoding the 64 bytes that \<open>Header.MarshalBinary\<close> writes restores every field of the
  header, whatever the receiver held before.
\<close>

theorem header_roundtrip:
  "wf_header h \<Longrightarrow> UnmarshalBinary h0 (MarshalBinary h) = Inr h"
  by (rule UnmarshalBinary_Marshal)

theorem header_roundtrip_witness:
  "UnmarshalBinary zero_header (MarshalBinary (zero_header\<lparr>hdr_Dest := 77\<rparr>)) =
     Inr (zero_header\<lparr>hdr_Dest := 77\<rparr>)"
  by (rule header_roundtrip) (simp add: wf_header_def zero_header_def)

text \<open>
  \<open>UnmarshalBinary\<close> fails exactly on a buffer shorter than 64 bytes or without the magic
  word, and otherwise loses nothing but the reserved bytes: encoding the decoded header gives
  the first 64 bytes of the input with bytes 9, 62 and 63 set to zero.
\<close>

theorem unmarshal_canonical:
  "(case UnmarshalBinary h0 buf of
      Inl err \<Rightarrow> length buf < 64 \<and> err = ErrShortHeader \<or>
        64 \<le> length buf \<and> subslice 0 2 buf \<noteq> put16 magicWord \<and> err = ErrBadMagic
    | Inr h \<Rightarrow> 64 \<le> length buf \<and> wf_header h \<and>
        MarshalBinary h = put_at (put_at (take 64 buf) 9 [0]) 62 [0, 0])"
proof (cases "UnmarshalBinary h0 buf")
  case (Inl err)
  then show ?thesis
    by (auto simp: UnmarshalBinary_def headerSize_def split: if_splits)
next
  case (Inr h)
  then have len: "64 \<le> length buf" and wf: "wf_header h" and mag: "get16 (subslice 0 2 buf) = magicWord"
    by (auto simp: UnmarshalBinary_def headerSize_def UnmarshalBinary_wf split: if_splits)
  have l: "length (subslice i j buf) = j - i" if "i \<le> j" "j \<le> 64" for i j
    using that len by (simp add: length_slice)
  have "MarshalBinary h = subslice 0 2 buf @ [buf ! 2, buf ! 3] @ subslice 4 8 buf @ [buf ! 8, 0] @
      subslice 10 14 buf @ subslice 14 30 buf @ subslice 30 38 buf @ subslice 38 46 buf @
      subslice 46 54 buf @ subslice 54 58 buf @ subslice 58 60 buf @ subslice 60 62 buf @ [0, 0]"
    unfolding MarshalBinary_layout [OF wf] mag [symmetric]
    using Inr len l by (auto simp: UnmarshalBinary_def headerSize_def put_get split: if_splits)
  also have "\<dots> = put_at (put_at (take 64 buf) 9 [0]) 62 [0, 0]"
    unfolding subslice_head [OF len]
    using l by (simp add: put_at_def take_Cons' drop_Cons')
  finally show ?thesis using Inr len wf by simp
qed

lemma DecodeFrame_truncated:
  assumes "wf_envelope e" "length (env_Payload e) < 2 ^ 32" "k < length (frame e)"
  shows "snd (DecodeFrame e0 (take k (frame e))) = Some ErrUnexpectedEOF"
proof (cases "k < 64")
  case True
  then have "length (take k (frame e)) < 64" by simp
  then show ?thesis by (simp only: DecodeFrame_def headerSize_def if_True snd_conv)
next
  case False
  let ?h = "env_Header (set_PayloadLen e)"
  have "subslice 0 64 (take k (frame e)) = MarshalBinary ?h"
    using False assms(1) by (simp add: frame_def subslice_def min_def)
  then show ?thesis using assms False
    by (simp add: DecodeFrame_def headerSize_def UnmarshalBinary_Marshal length_frame Let_def)
qed

text \<open>
  C9: a frame written by \<open>EncodeFrame\<close> is decoded by \<open>DecodeFrame\<close> into the same envelope
  (with its payload length filled in), whatever follows it in the buffer, and every proper
  prefix of the frame is refused as truncated. The payload must be shorter than 4 GiB, since
  its length is written as a \<open>uint32\<close>.
\<close>

theorem frame_roundtrip:
  assumes "wf_envelope e" "length (env_Payload e) < 2 ^ 32"
  shows "DecodeFrame e0 (snd (EncodeFrame e) @ rest) = (fst (EncodeFrame e), None) \<and>
    (k < 64 + length (env_Payload e) \<longrightarrow>
      snd (DecodeFrame e0 (take k (snd (EncodeFrame e)))) = Some ErrUnexpectedEOF)"
  using assms by (simp_all add: EncodeFrame_frame DecodeFrame_frame DecodeFrame_truncated length_frame)

definition sample_envelope :: Envelope where
  "sample_envelope = zero_envelope\<lparr>env_Payload := [104, 101, 108, 108, 111]\<rparr>"

lemma sample_wf: "wf_envelope sample_envelope" "length (env_Payload sample_envelope) = 5"
  by (simp_all add: sample_envelope_def wf_envelope_def zero_envelope_def wf_header_def zero_header_def)

theorem frame_roundtrip_witness:
  "DecodeFrame zero_envelope (snd (EncodeFrame sample_envelope) @ [1]) =
     (fst (EncodeFrame sample_envelope), None) \<and>
   snd (DecodeFrame zero_envelope (take 68 (snd (EncodeFrame sample_envelope)))) = Some ErrUnexpectedEOF"
  using frame_roundtrip [of sample_envelope zero_envelope "[1]" 68] sample_wf by simp

text \<open>
  C7: whatever sequence of envelopes a connection sends, the peer that reads the bytes it put
  on the wire receives exactly that sequence, in order, each with its payload length filled in;
  the payloads may be at most 2 GiB, the limit \<open>ReadFrom\<close> enforces.
\<close>

theorem stream_roundtrip:
  assumes "\<not> conn_broken c" "conn_buf c = []" "conn_out c = []"
    and "\<forall>e \<in> set es. wf_envelope e \<and> length (env_Payload e) \<le> 2 ^ 31"
    and "conn_in d = conn_out (Send_all c es) @ rest"
  shows "Recv_all d (length es) = map set_PayloadLen es"
  using assms by (intro Recv_all_frames) (auto simp: Send_all_out)

theorem stream_roundtrip_witness:
  "let c = \<lparr>conn_in = [], conn_buf = [], conn_out = [], conn_broken = False\<rparr>;
       d = c\<lparr>conn_in := conn_out (Send_all c [sample_envelope, zero_envelope])\<rparr>
   in Recv_all d 2 = map set_PayloadLen [sample_envelope, zero_envelope]"
proof -
  let ?c = "\<lparr>conn_in = [], conn_buf = [], conn_out = [], conn_broken = False\<rparr>"
  have "wf_envelope zero_envelope" "env_Payload zero_envelope = []"
    by (simp_all add: wf_envelope_def zero_envelope_def wf_header_def zero_header_def)
  then have "Recv_all (?c\<lparr>conn_in := conn_out (Send_all ?c [sample_envelope, zero_envelope])\<rparr>)
      (length [sample_envelope, zero_envelope]) = map set_PayloadLen [sample_envelope, zero_envelope]"
    using sample_wf
    by (intro stream_roundtrip [of ?c "[sample_envelope, zero_envelope]" _ "[]"])
      (simp_all del: Recv_all.simps Send_all.simps)
  then show ?thesis by (simp add: numeral_2_eq_2 Let_def del: Recv_all.simps Send_all.simps)
qed

text \<open>
  \<open>ReadFrom\<close> never delivers a payload above 2 GiB: on a stream whose header announces
  more it fails with the announced length, having consumed the header only.
\<close>

theorem oversized_payload_refused:
  assumes "wf_header h" "2 ^ 31 < unat (hdr_PayloadLen h)"
  shows "ReadFrom e (MarshalBinary h @ st) =
    (e\<lparr>env_Header := h\<rparr>, Inl (ErrPayloadTooLarge (hdr_PayloadLen h)), st)"
  using assms by (simp add: ReadFrom_too_large UnmarshalBinary_Marshal)

theorem oversized_payload_refused_witness:
  "ReadFrom zero_envelope (MarshalBinary (zero_header\<lparr>hdr_PayloadLen := 0x80000001\<rparr>) @ [9]) =
    (zero_envelope\<lparr>env_Header := zero_header\<lparr>hdr_PayloadLen := 0x80000001\<rparr>\<rparr>,
     Inl (ErrPayloadTooLarge 0x80000001), [9])"
  using oversized_payload_refused [of "zero_header\<lparr>hdr_PayloadLen := 0x80000001\<rparr>" zero_envelope "[9]"]
  by (simp add: wf_header_def zero_header_def)

lemma fragment_len:
  assumes "0 < c" "i < (length (env_Payload e) + c - 1) div c"
  shows "0 < length (env_Payload (fragment e c n i))" "length (env_Payload (fragment e c n i)) \<le> c"
proof -
  have "i * c + c \<le> length (env_Payload e) + c - 1"
  proof -
    have "Suc i * c \<le> (length (env_Payload e) + c - 1) div c * c" using assms(2) by (intro mult_right_mono) auto
    also have "\<dots> \<le> length (env_Payload e) + c - 1" by simp
    finally show ?thesis by simp
  qed
  with assms(1) have "i * c < length (env_Payload e)" by linarith
  with assms(1) show "0 < length (env_Payload (fragment e c n i))" "length (env_Payload (fragment e c n i)) \<le> c"
    by (auto simp: fragment_def subslice_def Let_def min_def)
qed

lemma last_flag_only_last:
  "(f OR FlagFragment) AND FlagLastFrag = f AND FlagLastFrag"
  by (simp add: bit.conj_disj_distrib2 flag_bits)

text \<open>
  The fragments of an envelope that does not fit one chunk: there are as many as chunks are
  needed, each holds between 1 and \<open>chunk\<close> bytes, is numbered by its position and the count (both
  truncated to 16 bits) and carries the fragment flag; the last-fragment flag is set on the last
  one, and on no other unless the envelope had it already.
\<close>

theorem fragments_structure:
  assumes "0 < chunk" "int (length (env_Payload e)) + chunk \<le> 2 ^ 63"
    and "Fragments e chunk = Inr fs" "1 < length fs" "i < length fs"
  shows "length fs = (length (env_Payload e) + nat chunk - 1) div nat chunk \<and>
    0 < length (env_Payload (fs ! i)) \<and> int (length (env_Payload (fs ! i))) \<le> chunk \<and>
    unat (hdr_FragIndex (env_Header (fs ! i))) = i mod 2 ^ 16 \<and>
    unat (hdr_FragTotal (env_Header (fs ! i))) = length fs mod 2 ^ 16 \<and>
    HasFlag (fs ! i) FlagFragment \<and>
    (HasFlag (fs ! i) FlagLastFrag \<longleftrightarrow> i = length fs - 1 \<or> HasFlag e FlagLastFrag)"
proof (intro conjI)
  let ?n = "fragment_count e chunk" and ?c = "nat chunk"
  have fs: "fs = map (fragment e ?c ?n) [0 ..< ?n]"
    using assms by (auto simp: Fragments_unfold split: if_splits)
  then have n: "length fs = ?n" and i: "fs ! i = fragment e ?c ?n i" using assms(5) by auto
  show "length fs = (length (env_Payload e) + nat chunk - 1) div nat chunk"
    using n by (simp add: fragment_count_def)
  show "0 < length (env_Payload (fs ! i))" "int (length (env_Payload (fs ! i))) \<le> chunk"
  proof -
    have "i < (length (env_Payload e) + ?c - 1) div ?c" using assms(5) n by (simp add: fragment_count_def)
    then have "0 < length (env_Payload (fs ! i))" "length (env_Payload (fs ! i)) \<le> ?c"
      using fragment_len [of ?c i e ?n] assms(1) i by simp_all
    moreover have "int ?c = chunk" using assms(1) by simp
    ultimately show "0 < length (env_Payload (fs ! i))" "int (length (env_Payload (fs ! i))) \<le> chunk"
      by linarith+
  qed
  show "unat (hdr_FragIndex (env_Header (fs ! i))) = i mod 2 ^ 16"
    "unat (hdr_FragTotal (env_Header (fs ! i))) = length fs mod 2 ^ 16"
    using i n by (simp_all add: fragment_def Let_def unat_of_nat take_bit_eq_mod)
  have all: "(f OR g) AND g = g" "((f OR g) OR FlagLastFrag) AND g = g" for f g :: uint32
    by (rule bit_word_eqI, simp only: bit_or_iff bit_and_iff, blast)+
  show "HasFlag (fs ! i) FlagFragment"
    unfolding i HasFlag_def fragment_def Let_def
    using flag_bits by (simp add: all)
  show "HasFlag (fs ! i) FlagLastFrag \<longleftrightarrow> i = length fs - 1 \<or> HasFlag e FlagLastFrag"
    unfolding i n HasFlag_def fragment_def Let_def
    using flag_bits by (simp add: all last_flag_only_last)
qed

theorem fragments_structure_witness:
  "Fragments sample_envelope 2 = Inr (map (fragment sample_envelope 2 3) [0 ..< 3]) \<and>
   unat (hdr_FragTotal (env_Header (map (fragment sample_envelope 2 3) [0 ..< 3] ! 1))) = 3 mod 2 ^ 16"
proof -
  let ?fs = "map (fragment sample_envelope 2 3) [0 ..< 3]"
  have f: "Fragments sample_envelope 2 = Inr ?fs"
    using sample_wf by (simp add: Fragments_unfold fragment_count_def)
  then show ?thesis using fragments_structure [OF _ _ f, of 1] sample_wf by simp
qed

lemma frames_reassemble:
  assumes "0 < chunk" "int (length (env_Payload e)) + chunk \<le> 2 ^ 63"
    and "wf_envelope e" "length (env_Payload e) < 2 ^ 32"
  shows "\<exists>fs. Fragments e chunk = Inr fs \<and>
    Reassemble (map (\<lambda>f. fst (DecodeFrame zero_envelope (snd (EncodeFrame f)))) fs) =
      Inr (e\<lparr>env_Header := (env_Header e)\<lparr>
        hdr_Flags := hdr_Flags (env_Header e) AND NOT (FlagFragment OR FlagLastFrag),
        hdr_FragIndex := 0, hdr_FragTotal := 0,
        hdr_PayloadLen := of_nat (length (env_Payload e))\<rparr>\<rparr>)"
proof -
  have "\<exists>fs. Fragments e chunk = Inr fs" using assms(1) by (simp add: Fragments_def Let_def)
  then obtain fs where fs: "Fragments e chunk = Inr fs" ..
  have wf: "wf_envelope f \<and> length (env_Payload f) < 2 ^ 32" if "f \<in> set fs" for f
    using that fs assms(3,4)
    by (auto simp: Fragments_def Let_def fragment_def wf_envelope_def wf_header_def subslice_def split: if_splits)
  have dec: "map (\<lambda>f. fst (DecodeFrame zero_envelope (snd (EncodeFrame f)))) fs = map set_PayloadLen fs"
    using wf DecodeFrame_frame [where rest = "[]" and ?e0.0 = zero_envelope] by (simp add: EncodeFrame_frame)
  have pl: "concat (map env_Payload fs) = env_Payload e" by (rule Fragments_payload [OF assms(1,2) fs])
  have "Reassemble (map set_PayloadLen fs) = Inr (e\<lparr>env_Header := (env_Header e)\<lparr>
        hdr_Flags := hdr_Flags (env_Header e) AND NOT (FlagFragment OR FlagLastFrag),
        hdr_FragIndex := 0, hdr_FragTotal := 0,
        hdr_PayloadLen := of_nat (length (env_Payload e))\<rparr>\<rparr>)"
  proof -
    obtain f gs where fg: "fs = f # gs" using Fragments_not_Nil [OF assms(1,2) fs] by (cases fs) auto
    have hd: "env_Header f = env_Header e \<or> (\<exists>n > 1. env_Header f = env_Header (fragment e (nat chunk) n 0))"
      using Fragments_not_Nil [OF assms(1,2) fs] fg by (auto simp: not_le split: if_splits)
    have cat: "concat (map (env_Payload \<circ> set_PayloadLen) fs) = env_Payload e"
      using pl by (simp add: comp_def)
    show ?thesis
      using hd cat fg
      by (cases e) (auto simp: Reassemble_def Let_def set_PayloadLen_def fragment_def clear_frag_flags comp_def)
  qed
  with fs show ?thesis by (intro exI [of _ fs] conjI) (simp_all only: dec)
qed

text \<open>
  C10: reassembly undoes fragmentation across the wire: cutting an envelope into chunks, sending
  every fragment as a frame, decoding the frames and reassembling what was decoded restores the
  payload and every header field, with the fragment flags and numbers cleared and the payload
  length filled in.
\<close>

theorem reassemble_fragments:
  assumes "0 < chunk" "int (length (env_Payload e)) + chunk \<le> 2 ^ 63"
    and "wf_envelope e" "length (env_Payload e) < 2 ^ 32"
  shows "\<exists>fs. Fragments e chunk = Inr fs \<and>
    Reassemble (map (\<lambda>f. fst (DecodeFrame zero_envelope (snd (EncodeFrame f)))) fs) =
      Inr (e\<lparr>env_Header := (env_Header e)\<lparr>
        hdr_Flags := hdr_Flags (env_Header e) AND NOT (FlagFragment OR FlagLastFrag),
        hdr_FragIndex := 0, hdr_FragTotal := 0,
        hdr_PayloadLen := of_nat (length (env_Payload e))\<rparr>\<rparr>)"
  using assms by (rule frames_reassemble)

theorem reassemble_fragments_witness:
  "\<exists>fs. Fragments sample_envelope 2 = Inr fs \<and>
    Reassemble (map (\<lambda>f. fst (DecodeFrame zero_envelope (snd (EncodeFrame f)))) fs) =
      Inr (sample_envelope\<lparr>env_Header := zero_header\<lparr>hdr_PayloadLen := 5\<rparr>\<rparr>)"
  using reassemble_fragments [of 2 sample_envelope] sample_wf
  by (simp add: sample_envelope_def zero_envelope_def zero_header_def)

end
