(* ===== verification/GoStd.thy ===== *)
theory GoStd
  imports Prelude
begin

text \<open>
  The pieces of Go's standard library the code uses on text: \<open>strings.TrimSpace\<close>,
  \<open>strings.ToLower\<close> (letters outside ASCII are left alone here), \<open>strings.HasPrefix\<close>,
  decimal conversion (\<open>strconv.FormatInt\<close>, \<open>FormatUint\<close>, \<open>Itoa\<close>, \<open>ParseUint\<close>,
  \<open>Atoi\<close>) and \<open>base64.RawURLEncoding\<close>, with their round trips and the characters each
  can produce.
\<close>

section \<open>strings\<close>

text \<open>The UTF-8 encodings of the runes for which \<open>unicode.IsSpace\<close> holds.\<close>

definition space_runes :: "string list" where
  "space_runes =
     map (map char_of)
       ([[9], [10], [11], [12], [13], [32], [194, 133], [194, 160], [225, 154, 128],
         [226, 128, 168], [226, 128, 169], [226, 128, 175], [226, 129, 159], [227, 128, 128]] @
        map (\<lambda>k. [226, 128, 128 + k]) [0 ..< 11] :: nat list list)"

fun HasPrefix :: "string \<Rightarrow> string \<Rightarrow> bool" where
  "HasPrefix s [] = True"
| "HasPrefix [] (p # ps) = False"
| "HasPrefix (c # cs) (p # ps) = (c = p \<and> HasPrefix cs ps)"

lemma HasPrefix_iff: "HasPrefix s p \<longleftrightarrow> (\<exists>r. s = p @ r)"
  by (induction s p rule: HasPrefix.induct) auto

lemma HasPrefix_append [simp]: "HasPrefix (p @ r) p"
  by (simp add: HasPrefix_iff)

definition trim_first :: "string list \<Rightarrow> string \<Rightarrow> string option" where
  "trim_first rs s = map_option (\<lambda>r. drop (length r) s) (find (HasPrefix s) rs)"

function trim_left :: "string list \<Rightarrow> string \<Rightarrow> string" where
  "trim_left rs s =
     (case trim_first rs s of
        None \<Rightarrow> s
      | Some s' \<Rightarrow> if length s' < length s then trim_left rs s' else s)"
  by pat_completeness auto
termination
  by (relation "measure (\<lambda>(rs, s). length s)") auto

declare trim_left.simps [simp del]

definition TrimSpace :: "string \<Rightarrow> string" where
  "TrimSpace s = rev (trim_left (map rev space_runes) (rev (trim_left space_runes s)))"

definition lower_char :: "char \<Rightarrow> char" where
  "lower_char c =
     (if 65 \<le> (of_char c :: nat) \<and> (of_char c :: nat) \<le> 90 then char_of (of_char c + 32 :: nat) else c)"

definition ToLower :: "string \<Rightarrow> string" where
  "ToLower s = map lower_char s"

lemma trim_first_None:
  "(\<And>r. r \<in> set rs \<Longrightarrow> \<not> HasPrefix s r) \<Longrightarrow> trim_left rs s = s"
  by (subst trim_left.simps) (auto simp: trim_first_def find_None_iff split: option.splits
      dest!: find_Some_iff [THEN iffD1] intro: nth_mem)

text \<open>A string that starts and ends with a printable ASCII character is its own trim.\<close>

definition printable :: "char \<Rightarrow> bool" where
  "printable c \<longleftrightarrow> 33 \<le> (of_char c :: nat) \<and> (of_char c :: nat) < 127"

lemma space_runes_first: "list_all (\<lambda>r. r \<noteq> [] \<and> \<not> printable (hd r) \<and> \<not> printable (last r)) space_runes"
  by code_simp

lemma HasPrefix_hd: "HasPrefix s r \<Longrightarrow> r \<noteq> [] \<Longrightarrow> s \<noteq> [] \<and> hd s = hd r"
  by (cases s; cases r) auto

lemma trim_left_printable:
  assumes "s \<noteq> []" "printable (hd s)"
  shows "trim_left space_runes s = s" "trim_left (map rev space_runes) s = s"
proof -
  have sp: "r \<noteq> [] \<and> \<not> printable (hd r) \<and> \<not> printable (hd (rev r))" if "r \<in> set space_runes" for r
    using that space_runes_first by (auto simp: list_all_iff hd_rev)
  show "trim_left space_runes s = s"
    by (rule trim_first_None) (use sp assms HasPrefix_hd in metis)
  show "trim_left (map rev space_runes) s = s"
  proof (rule trim_first_None)
    fix r assume "r \<in> set (map rev space_runes)"
    then show "\<not> HasPrefix s r" using sp assms HasPrefix_hd by fastforce
  qed
qed

lemma trim_left_Nil [simp]: "trim_left rs [] = []"
  by (subst trim_left.simps) (auto simp: trim_first_def split: option.splits)

lemma TrimSpace_Nil [simp]: "TrimSpace [] = []"
  by (simp add: TrimSpace_def)

lemma TrimSpace_printable:
  assumes "s \<noteq> []" "printable (hd s)" "printable (last s)"
  shows "TrimSpace s = s"
  using assms by (simp add: TrimSpace_def trim_left_printable hd_rev)

text \<open>Trimming and lowering are idempotent, and the latter keeps a string trimmed.\<close>

definition trimmed :: "string \<Rightarrow> bool" where
  "trimmed s \<longleftrightarrow> (\<forall>r\<in>set space_runes. \<not> HasPrefix s r \<and> \<not> HasPrefix (rev s) (rev r))"

lemma trim_left_suffix: "\<exists>p. s = p @ trim_left rs s"
proof (induction rs s rule: trim_left.induct)
  case (1 rs s)
  show ?case
  proof (cases "trim_first rs s")
    case None
    then show ?thesis by (subst trim_left.simps) simp
  next
    case (Some t)
    then have "\<exists>r::string. t = drop (length r) s" by (auto simp: trim_first_def)
    then obtain r :: string where "t = drop (length r) s" ..
    then have t: "s = take (length r) s @ t" by simp
    show ?thesis
    proof (cases "length t < length s")
      case True
      then obtain p where p: "t = p @ trim_left rs t" using "1.IH" [OF Some] by blast
      have e: "trim_left rs s = trim_left rs t" using True Some by (subst trim_left.simps) simp
      have "s = (take (length r) s @ p) @ trim_left rs t" using arg_cong [OF p, of "\<lambda>x. take (length r) s @ x"] t by simp
      then show ?thesis unfolding e ..
    next
      case False
      then show ?thesis using Some by (subst trim_left.simps) simp
    qed
  qed
qed

lemma trim_left_done:
  assumes "\<And>r. r \<in> set rs \<Longrightarrow> r \<noteq> []"
  shows "r \<in> set rs \<Longrightarrow> \<not> HasPrefix (trim_left rs s) r"
  using assms
proof (induction rs s rule: trim_left.induct)
  case (1 rs s)
  show ?case
  proof (cases "trim_first rs s")
    case None
    then have "trim_left rs s = s" by (subst trim_left.simps) simp
    then show ?thesis using None "1.prems"(1) by (auto simp: trim_first_def find_None_iff)
  next
    case (Some t)
    then obtain q where q: "q \<in> set rs" "HasPrefix s q" "t = drop (length q) s"
      by (auto simp: trim_first_def dest!: find_Some_iff [THEN iffD1] intro: nth_mem)
    then have "length t < length s" using "1.prems"(2) [OF q(1)] by (auto simp: HasPrefix_iff)
    then show ?thesis using "1.IH" [OF Some _ "1.prems"] Some by (subst trim_left.simps) simp
  qed
qed

lemma space_runes_nonempty: "r \<in> set space_runes \<Longrightarrow> r \<noteq> []"
  using space_runes_first by (auto simp: list_all_iff)

lemma TrimSpace_trimmed:
  assumes "trimmed s"
  shows "TrimSpace s = s"
proof -
  have "trim_left space_runes s = s" using assms by (intro trim_first_None) (simp add: trimmed_def)
  moreover have "trim_left (map rev space_runes) (rev s) = rev s"
    using assms by (intro trim_first_None) (auto simp: trimmed_def)
  ultimately show ?thesis by (simp add: TrimSpace_def)
qed

lemma trimmed_TrimSpace: "trimmed (TrimSpace s)"
proof -
  let ?u = "trim_left space_runes s"
  obtain p where p: "rev ?u = p @ trim_left (map rev space_runes) (rev ?u)" using trim_left_suffix by blast
  then have u: "?u = TrimSpace s @ rev p" by (metis TrimSpace_def rev_append rev_rev_ident)
  have "\<not> HasPrefix ?u r" if "r \<in> set space_runes" for r
    using trim_left_done [OF space_runes_nonempty that] .
  moreover have "HasPrefix ?u r" if "HasPrefix (TrimSpace s) r" for r
    using that u by (auto simp: HasPrefix_iff)
  ultimately have "\<not> HasPrefix (TrimSpace s) r" if "r \<in> set space_runes" for r
    using that by blast
  moreover have "\<not> HasPrefix (rev (TrimSpace s)) (rev r)" if "r \<in> set space_runes" for r
    using trim_left_done [of "map rev space_runes" "rev r" "rev ?u"] that space_runes_nonempty
    by (auto simp: TrimSpace_def)
  ultimately show ?thesis by (simp add: trimmed_def)
qed

lemma TrimSpace_idem [simp]: "TrimSpace (TrimSpace s) = TrimSpace s"
  by (rule TrimSpace_trimmed [OF trimmed_TrimSpace])

definition caseless :: "char \<Rightarrow> bool" where
  "caseless c \<longleftrightarrow> \<not> (65 \<le> (of_char c :: nat) \<and> (of_char c :: nat) \<le> 90) \<and> \<not> (97 \<le> (of_char c :: nat) \<and> (of_char c :: nat) \<le> 122)"

lemma space_runes_caseless: "list_all (list_all caseless) space_runes"
  by code_simp

lemma lower_caseless: "caseless c \<Longrightarrow> lower_char d = c \<longleftrightarrow> d = c"
  by (auto simp: lower_char_def caseless_def)

lemma lower_lower [simp]: "lower_char (lower_char c) = lower_char c"
  by (simp add: lower_char_def)

lemma ToLower_idem [simp]: "ToLower (ToLower s) = ToLower s"
  by (simp add: ToLower_def)

lemma HasPrefix_lower: "list_all caseless r \<Longrightarrow> HasPrefix (map lower_char s) r \<longleftrightarrow> HasPrefix s r"
  by (induction s r rule: HasPrefix.induct) (auto simp: lower_caseless)

lemma trimmed_ToLower [simp]: "trimmed (ToLower s) \<longleftrightarrow> trimmed s"
proof -
  have "list_all caseless r" "list_all caseless (rev r)" if "r \<in> set space_runes" for r
    using space_runes_caseless that by (auto simp: list_all_iff)
  then show ?thesis by (simp add: trimmed_def ToLower_def rev_map HasPrefix_lower)
qed

section \<open>strconv\<close>

definition digit_char :: "nat \<Rightarrow> char" where
  "digit_char d = char_of (48 + d)"

fun nat_str :: "nat \<Rightarrow> string" where
  "nat_str n = (if n < 10 then [digit_char n] else nat_str (n div 10) @ [digit_char (n mod 10)])"

declare nat_str.simps [simp del]

definition FormatInt :: "int \<Rightarrow> string" where
  "FormatInt i = (if i < 0 then CHR ''-'' # nat_str (nat (- i)) else nat_str (nat i))"

definition FormatUint :: "uint64 \<Rightarrow> string" where
  "FormatUint w = nat_str (unat w)"

definition Itoa :: "int \<Rightarrow> string" where
  "Itoa i = FormatInt i"

definition digit_val :: "char \<Rightarrow> nat option" where
  "digit_val c =
     (let n = of_char c :: nat in if 48 \<le> n \<and> n \<le> 57 then Some (n - 48) else None)"

datatype num_error = ErrSyntax | ErrRange

text \<open>\<open>ParseUint(s, 10, 64)\<close> returns a value together with an error.\<close>

fun parse_digits :: "nat \<Rightarrow> string \<Rightarrow> nat \<times> num_error option" where
  "parse_digits n [] = (n, None)"
| "parse_digits n (c # cs) =
     (case digit_val c of
        None \<Rightarrow> (0, Some ErrSyntax)
      | Some d \<Rightarrow>
          if n * 10 + d < 2 ^ 64 then parse_digits (n * 10 + d) cs
          else (2 ^ 64 - 1, Some ErrRange))"

definition ParseUint :: "string \<Rightarrow> uint64 \<times> num_error option" where
  "ParseUint s =
     (if s = [] then (0, Some ErrSyntax)
      else case parse_digits 0 s of (n, e) \<Rightarrow> (of_nat n, e))"

text \<open>\<open>Atoi\<close> on 64-bit \<open>int\<close>: an optional sign, then digits.\<close>

definition Atoi :: "string \<Rightarrow> num_error + int" where
  "Atoi s =
     (let neg = (s \<noteq> [] \<and> hd s = CHR ''-'');
          ds = (if s \<noteq> [] \<and> (hd s = CHR ''-'' \<or> hd s = CHR ''+'') then tl s else s)
      in if ds = [] then Inl ErrSyntax
         else case parse_digits 0 ds of
           (n, Some e) \<Rightarrow> Inl e
         | (n, None) \<Rightarrow>
             if \<not> neg \<and> 2 ^ 63 \<le> n \<or> neg \<and> 2 ^ 63 < n then Inl ErrRange
             else Inr (if neg then - int n else int n))"

lemma nat_of_digit_char: "d < 10 \<Longrightarrow> (of_char (digit_char d) :: nat) = 48 + d"
  by (simp add: digit_char_def)

lemma digit_val_digit_char [simp]: "d < 10 \<Longrightarrow> digit_val (digit_char d) = Some d"
  by (simp add: digit_val_def nat_of_digit_char)

lemma nat_str_not_Nil [simp]: "nat_str n \<noteq> []"
  by (subst nat_str.simps) simp

lemma parse_digits_append:
  "parse_digits n s = (m, None) \<Longrightarrow> parse_digits n (s @ t) = parse_digits m t"
  by (induction n s rule: parse_digits.induct) (auto split: option.splits if_splits)

lemma parse_digits_nat_str: "n < 2 ^ 64 \<Longrightarrow> parse_digits 0 (nat_str n) = (n, None)"
proof (induction n rule: nat_str.induct)
  case (1 n)
  show ?case
  proof (cases "n < 10")
    case True
    then show ?thesis by (subst nat_str.simps) simp
  next
    case False
    then have "parse_digits 0 (nat_str (n div 10)) = (n div 10, None)" using 1 by simp
    then have "parse_digits 0 (nat_str (n div 10) @ [digit_char (n mod 10)]) =
        parse_digits (n div 10) [digit_char (n mod 10)]"
      by (rule parse_digits_append)
    moreover have "n div 10 * 10 + n mod 10 = n" by simp
    ultimately show ?thesis using False "1.prems" by (subst nat_str.simps) simp
  qed
qed

lemma ParseUint_FormatUint: "ParseUint (FormatUint w) = (w, None)"
proof -
  have "unat w < 2 ^ 64" using unsigned_less [of w, where ?'a = nat] by simp
  then show ?thesis by (simp add: ParseUint_def FormatUint_def parse_digits_nat_str)
qed

lemma nat_str_digits: "c \<in> set (nat_str n) \<Longrightarrow> \<exists>d<10. c = digit_char d"
proof (induction n rule: nat_str.induct)
  case (1 n)
  show ?case
  proof (cases "n < 10")
    case True
    with "1.prems" show ?thesis by (subst (asm) nat_str.simps) auto
  next
    case False
    then have "set (nat_str n) = insert (digit_char (n mod 10)) (set (nat_str (n div 10)))"
      by (subst nat_str.simps) simp
    with 1 False show ?thesis by (auto intro: exI [of _ "n mod 10"])
  qed
qed

lemma digit_char_no_sign:
  "d < 10 \<Longrightarrow> digit_char d \<noteq> CHR ''-'' \<and> digit_char d \<noteq> CHR ''+'' \<and> digit_char d \<noteq> CHR ''|''"
  using nat_of_digit_char [of d] by auto

lemma Atoi_Itoa:
  assumes "0 \<le> i" "i < 2 ^ 63"
  shows "Atoi (Itoa i) = Inr i"
proof -
  have n: "nat i < 2 ^ 63" using assms by simp
  then have p: "parse_digits 0 (nat_str (nat i)) = (nat i, None)" by (simp add: parse_digits_nat_str)
  have "hd (nat_str (nat i)) \<in> set (nat_str (nat i))" by simp
  then have "hd (nat_str (nat i)) \<noteq> CHR ''-'' \<and> hd (nat_str (nat i)) \<noteq> CHR ''+''"
    using nat_str_digits digit_char_no_sign by metis
  with assms n p show ?thesis by (simp add: Atoi_def Itoa_def FormatInt_def)
qed

lemma FormatInt_no_bar: "CHR ''|'' \<notin> set (FormatInt i)"
proof -
  have "CHR ''|'' \<notin> set (nat_str n)" for n
    using nat_str_digits digit_char_no_sign by metis
  then show ?thesis by (simp add: FormatInt_def)
qed

lemma nat_str_inject: "nat_str m = nat_str n \<longleftrightarrow> m = n"
proof
  have hd_eq: "foldl (\<lambda>a c. 10 * a + (of_char c - 48)) 0 (nat_str k) = k" for k
  proof (induction k rule: nat_str.induct)
    case (1 k)
    then show ?case
      by (subst nat_str.simps) (simp add: nat_of_digit_char)
  qed
  assume "nat_str m = nat_str n"
  then show "m = n" by (metis hd_eq)
qed simp

lemma FormatInt_inject: "FormatInt i = FormatInt j \<longleftrightarrow> i = j"
proof -
  have neg: "CHR ''-'' # s \<noteq> nat_str n" for s n
  proof
    assume "CHR ''-'' # s = nat_str n"
    then have "CHR ''-'' \<in> set (nat_str n)" by (metis list.set_intros(1))
    then show False using nat_str_digits digit_char_no_sign by metis
  qed
  show ?thesis using neg neg [symmetric] by (auto simp: FormatInt_def nat_str_inject)
qed

section \<open>base64.RawURLEncoding\<close>

definition b64_alphabet :: string where
  "b64_alphabet = ''ABCDEFGHIJKLMNOPQRSTUVWXYZabcdefghijklmnopqrstuvwxyz0123456789-_''"

definition b64_char :: "nat \<Rightarrow> char" where
  "b64_char i = b64_alphabet ! i"

definition b64_index :: "char \<Rightarrow> nat option" where
  "b64_index c =
     (let n = of_char c :: nat in
      if 65 \<le> n \<and> n \<le> 90 then Some (n - 65)
      else if 97 \<le> n \<and> n \<le> 122 then Some (n - 71)
      else if 48 \<le> n \<and> n \<le> 57 then Some (n + 4)
      else if n = 45 then Some 62
      else if n = 95 then Some 63
      else None)"

fun b64_encode :: "byte list \<Rightarrow> string" where
  "b64_encode (a # b # c # bs) =
     (let v = unat a * 65536 + unat b * 256 + unat c in
      [b64_char (v div 262144), b64_char (v div 4096 mod 64), b64_char (v div 64 mod 64),
       b64_char (v mod 64)] @ b64_encode bs)"
| "b64_encode [a, b] =
     (let v = unat a * 65536 + unat b * 256 in
      [b64_char (v div 262144), b64_char (v div 4096 mod 64), b64_char (v div 64 mod 64)])"
| "b64_encode [a] =
     (let v = unat a * 65536 in [b64_char (v div 262144), b64_char (v div 4096 mod 64)])"
| "b64_encode [] = []"

fun b64_quads :: "nat list \<Rightarrow> byte list option" where
  "b64_quads (w # x # y # z # is) =
     (let v = w * 262144 + x * 4096 + y * 64 + z in
      map_option (\<lambda>bs. of_nat (v div 65536) # of_nat (v div 256 mod 256) # of_nat (v mod 256) # bs)
        (b64_quads is))"
| "b64_quads [w, x, y] =
     (let v = w * 262144 + x * 4096 + y * 64 in
      Some [of_nat (v div 65536), of_nat (v div 256 mod 256)])"
| "b64_quads [w, x] = (let v = w * 262144 + x * 4096 in Some [of_nat (v div 65536)])"
| "b64_quads [w] = None"
| "b64_quads [] = Some []"

fun b64_indices :: "string \<Rightarrow> nat list option" where
  "b64_indices [] = Some []"
| "b64_indices (c # cs) =
     (case b64_index c of
        None \<Rightarrow> None
      | Some i \<Rightarrow> map_option ((#) i) (b64_indices cs))"

text \<open>\<open>DecodeString\<close> skips carriage returns and line feeds.\<close>

definition b64_decode :: "string \<Rightarrow> byte list option" where
  "b64_decode s =
     (case b64_indices (filter (\<lambda>c. of_char c \<noteq> (10 :: nat) \<and> of_char c \<noteq> (13 :: nat)) s) of
        None \<Rightarrow> None
      | Some is \<Rightarrow> b64_quads is)"

lemma b64_alphabet_facts:
  "map b64_index b64_alphabet = map Some [0 ..< 64]" "length b64_alphabet = 64"
  "\<forall>c \<in> set b64_alphabet. printable c \<and> c \<noteq> CHR ''|'' \<and> of_char c \<noteq> (10 :: nat) \<and> of_char c \<noteq> (13 :: nat)"
  by (simp_all add: b64_alphabet_def b64_index_def printable_def upt_rec)

lemma b64_char_facts:
  assumes "i < 64"
  shows "b64_index (b64_char i) = Some i" "printable (b64_char i)" "b64_char i \<noteq> CHR ''|''"
    "of_char (b64_char i) \<noteq> (10 :: nat)" "of_char (b64_char i) \<noteq> (13 :: nat)"
proof -
  have "map b64_index b64_alphabet ! i = map Some [0 ..< 64] ! i"
    by (simp only: b64_alphabet_facts(1))
  with assms show "b64_index (b64_char i) = Some i"
    by (simp add: b64_char_def b64_alphabet_facts(2))
  have "b64_char i \<in> set b64_alphabet"
    using assms by (simp add: b64_char_def b64_alphabet_facts(2))
  then show "printable (b64_char i)" "b64_char i \<noteq> CHR ''|''"
    "of_char (b64_char i) \<noteq> (10 :: nat)" "of_char (b64_char i) \<noteq> (13 :: nat)"
    using b64_alphabet_facts(3) by auto
qed

fun b64_codes :: "byte list \<Rightarrow> nat list" where
  "b64_codes (a # b # c # bs) =
     (let v = unat a * 65536 + unat b * 256 + unat c in
      [v div 262144, v div 4096 mod 64, v div 64 mod 64, v mod 64] @ b64_codes bs)"
| "b64_codes [a, b] =
     (let v = unat a * 65536 + unat b * 256 in [v div 262144, v div 4096 mod 64, v div 64 mod 64])"
| "b64_codes [a] = (let v = unat a * 65536 in [v div 262144, v div 4096 mod 64])"
| "b64_codes [] = []"

lemma b64_encode_codes: "b64_encode bs = map b64_char (b64_codes bs)"
  by (induction bs rule: b64_encode.induct) (simp_all add: Let_def)

lemma b64_codes_less: "i \<in> set (b64_codes bs) \<Longrightarrow> i < 64"
proof (induction bs rule: b64_codes.induct)
  case (1 a b c bs)
  have "unat a < 256" "unat b < 256" "unat c < 256" by (rule unat_byte_less)+
  with 1 show ?case by (auto simp: Let_def)
next
  case (2 a b)
  have "unat a < 256" "unat b < 256" by (rule unat_byte_less)+
  with 2 show ?case by (auto simp: Let_def)
next
  case (3 a)
  have "unat a < 256" by (rule unat_byte_less)
  with 3 show ?case by (auto simp: Let_def)
qed simp

lemma b64_indices_map: "(\<And>i. i \<in> set is \<Longrightarrow> i < 64) \<Longrightarrow> b64_indices (map b64_char is) = Some is"
  by (induction "is") (auto simp: b64_char_facts)

lemma quad_sum:
  "v div 262144 * 262144 + v div 4096 mod 64 * 4096 + v div 64 mod 64 * 64 + v mod 64 = (v :: nat)"
proof -
  have "v div 64 div 64 = v div 4096" "v div 4096 div 64 = v div 262144"
    by (simp_all add: div_mult2_eq [symmetric])
  moreover have "v = v div 64 * 64 + v mod 64"
    "v div 64 = v div 64 div 64 * 64 + v div 64 mod 64"
    "v div 4096 = v div 4096 div 64 * 64 + v div 4096 mod 64"
    by simp_all
  ultimately show ?thesis by linarith
qed

lemma three_bytes:
  assumes "a < 256" "b < 256" "c < (256 :: nat)"
  shows "(a * 65536 + b * 256 + c) div 65536 = a" "(a * 65536 + b * 256 + c) div 256 mod 256 = b"
    "(a * 65536 + b * 256 + c) mod 256 = c"
proof -
  have v: "a * 65536 + b * 256 + c = c + 256 * (b + 256 * a)" by simp
  show "(a * 65536 + b * 256 + c) mod 256 = c" unfolding v using assms by (simp only: mod_mult_self2 mod_less)
  have d: "(a * 65536 + b * 256 + c) div 256 = b + 256 * a"
    unfolding v using assms by (subst div_mult_self2) simp_all
  show "(a * 65536 + b * 256 + c) div 256 mod 256 = b"
    unfolding d using assms by (simp only: mod_mult_self2 mod_less)
  have "(a * 65536 + b * 256 + c) div 65536 = (a * 65536 + b * 256 + c) div 256 div 256"
    by (simp add: div_mult2_eq [symmetric])
  also have "\<dots> = a" unfolding d using assms by (subst div_mult_self2) simp_all
  finally show "(a * 65536 + b * 256 + c) div 65536 = a" .
qed

lemma b64_quads_codes: "b64_quads (b64_codes bs) = Some bs"
proof (induction bs rule: b64_codes.induct)
  case (1 a b c bs)
  define v where "v = unat a * 65536 + unat b * 256 + unat c"
  have lt: "unat a < 256" "unat b < 256" "unat c < 256" by (rule unat_byte_less)+
  have v: "v div 262144 * 262144 + v div 4096 mod 64 * 4096 + v div 64 mod 64 * 64 + v mod 64 = v"
    by (rule quad_sum)
  have parts: "v div 65536 = unat a" "v div 256 mod 256 = unat b" "v mod 256 = unat c"
    unfolding v_def using lt by (rule three_bytes)+
  have "b64_quads (b64_codes (a # b # c # bs)) =
      b64_quads ([v div 262144, v div 4096 mod 64, v div 64 mod 64, v mod 64] @ b64_codes bs)"
    by (simp add: v_def Let_def)
  also have "\<dots> = Some (of_nat (unat a) # of_nat (unat b) # of_nat (unat c) # bs)"
    using 1 by (simp only: append_Cons append_Nil b64_quads.simps Let_def v parts option.map)
  finally show ?case by simp
next
  case (2 a b)
  define v where "v = unat a * 65536 + unat b * 256"
  have "v = 64 * (unat a * 1024 + unat b * 4)" by (simp add: v_def)
  then have z: "v mod 64 = 0" by simp
  have lt: "unat a < 256" "unat b < 256" by (rule unat_byte_less)+
  have v: "v div 262144 * 262144 + v div 4096 mod 64 * 4096 + v div 64 mod 64 * 64 = v"
    using quad_sum [of v] z by simp
  have parts: "v div 65536 = unat a" "v div 256 mod 256 = unat b"
    using lt by (simp_all add: v_def)
  have "b64_quads (b64_codes [a, b]) = Some [of_nat (unat a), of_nat (unat b)]"
    by (simp only: b64_codes.simps v_def [symmetric] Let_def b64_quads.simps v parts)
  then show ?case by simp
next
  case (3 a)
  have lt: "unat a < 256" by (rule unat_byte_less)
  have "unat a * 65536 = 64 * (64 * (unat a * 16))" by simp
  then have "unat a * 65536 mod 64 = 0" "unat a * 65536 div 64 mod 64 = 0" by simp_all
  then have v: "unat a * 65536 div 262144 * 262144 + unat a * 65536 div 4096 mod 64 * 4096 = unat a * 65536"
    using quad_sum [of "unat a * 65536"] by simp
  have "b64_quads (b64_codes [a]) = Some [of_nat (unat a * 65536 div 65536)]"
    by (simp only: b64_codes.simps Let_def b64_quads.simps v)
  then show ?case by simp
qed simp

theorem b64_decode_encode: "b64_decode (b64_encode bs) = Some bs"
proof -
  have "filter (\<lambda>c. of_char c \<noteq> (10 :: nat) \<and> of_char c \<noteq> (13 :: nat)) (b64_encode bs) = b64_encode bs"
    by (auto simp: filter_id_conv b64_encode_codes b64_char_facts dest!: b64_codes_less)
  moreover have "b64_indices (b64_encode bs) = Some (b64_codes bs)"
    unfolding b64_encode_codes by (rule b64_indices_map) (rule b64_codes_less)
  ultimately show ?thesis by (simp add: b64_decode_def b64_quads_codes)
qed

lemma b64_encode_inject: "b64_encode a = b64_encode b \<longleftrightarrow> a = b"
  by (metis b64_decode_encode option.inject)

lemma b64_encode_chars: "c \<in> set (b64_encode bs) \<Longrightarrow> printable c \<and> c \<noteq> CHR ''|''"
  by (auto simp: b64_encode_codes b64_char_facts dest!: b64_codes_less)

lemma b64_no_colon: "CHR '':'' \<notin> set (b64_encode bs)"
proof
  assume "CHR '':'' \<in> set (b64_encode bs)"
  then obtain i where "i < 64" "CHR '':'' = b64_char i" by (auto simp: b64_encode_codes dest: b64_codes_less)
  then have "CHR '':'' \<in> set b64_alphabet" by (simp add: b64_char_def b64_alphabet_facts(2))
  then show False by (simp add: b64_alphabet_def)
qed

text \<open>A text is cut uniquely at its last separator.\<close>

lemma split_last_sep:
  "c \<notin> set y \<Longrightarrow> c \<notin> set y' \<Longrightarrow> x @ c # y = x' @ c # y' \<longleftrightarrow> x = x' \<and> y = y'"
proof -
  assume y: "c \<notin> set y" "c \<notin> set y'"
  have tw: "takeWhile (\<lambda>d. d \<noteq> c) (rev v @ c # r) = rev v" if "c \<notin> set v" for v r :: "'a list"
    using that by (subst takeWhile_append2) auto
  show ?thesis
  proof
    assume eq: "x @ c # y = x' @ c # y'"
    then have "rev y @ c # rev x = rev y' @ c # rev x'" by (metis rev.simps(2) rev_append append.assoc append_Cons append_Nil)
    then have "rev y = rev y'" using tw [OF y(1), of "rev x"] tw [OF y(2), of "rev x'"] by simp
    then show "x = x' \<and> y = y'" using eq by simp
  qed simp
qed

end
