(* ===== verification/Transport.thy ===== *)
theory Transport
  imports Wire GoStd
begin

text \<open>
  The transports of \<open>pkg/transport\<close>: link kinds and peer identities (\<open>transport.go\<close>,
  \<open>identity.go\<close>), the length-prefixed framing the TCP, QUIC, in-memory and named-pipe sessions
  share (\<open>SendBytes\<close>, \<open>RecvBytes\<close>), their accept queues, the registry of in-memory
  listeners, and the datagram demultiplexer of \<open>udp.go\<close>. The operating system's sockets and
  \<open>quic-go\<close> are the byte streams of the theory \<open>Wire\<close> (a connection takes bytes in order or is
  broken) and the datagrams given to the demultiplexer.
\<close>

section \<open>Kinds and identities\<close>

datatype Kind = KindUnknown | KindQUICDirect | KindTCPDirect | KindQUICHolePunch | KindQUICRelay
  | KindTCPRelay | KindUDP | KindWinPipe | KindMem

fun Kind_String :: "Kind \<Rightarrow> string" where
  "Kind_String KindQUICDirect = ''quic:direct''"
| "Kind_String KindTCPDirect = ''tcp:direct''"
| "Kind_String KindQUICHolePunch = ''quic:hole-punch''"
| "Kind_String KindQUICRelay = ''quic:relay''"
| "Kind_String KindTCPRelay = ''tcp:relay''"
| "Kind_String KindUDP = ''udp''"
| "Kind_String KindWinPipe = ''winpipe''"
| "Kind_String KindMem = ''mem''"
| "Kind_String KindUnknown = ''unknown''"

datatype StreamClass = StreamControl | StreamTask | StreamGossip | StreamBulk

type_synonym PeerID = string

record PeerInfo =
  pi_ID :: PeerID
  pi_Addr :: string
  pi_Reachable :: bool

text \<open>A \<open>net.Addr\<close> is its string, \<open>None\<close> being the nil interface.\<close>

definition TempPeerID :: "Kind \<Rightarrow> string option \<Rightarrow> PeerID" where
  "TempPeerID kind addr =
     (case addr of
        None \<Rightarrow> ''temp:'' @ Kind_String kind @ '':unknown''
      | Some a \<Rightarrow> ''temp:'' @ Kind_String kind @ '':'' @ a)"

definition CanonicalPeerIDFromPubKey :: "string \<Rightarrow> byte list \<Rightarrow> PeerID" where
  "CanonicalPeerIDFromPubKey alg pub =
     (let alg = ToLower (TrimSpace alg); enc = b64_encode pub in ''pk:'' @ alg @ '':'' @ enc)"

section \<open>Length-prefixed framing\<close>

datatype link_error = LinkIO wire_error | InvalidFrameSize | ListenerExists | NoSuchListener
  | ListenerClosed | CtxDone | StreamClosed

record session =
  ses_peer :: PeerInfo
  ses_kind :: Kind
  ses_conn :: Conn
  ses_establishedAt :: int
  ses_lastSeen :: int

definition maxFrame :: nat where "maxFrame = 2 ^ 24"

definition SendBytes :: "session \<Rightarrow> byte list \<Rightarrow> int \<Rightarrow> session \<times> link_error option" where
  "SendBytes s b now =
     (let lenbuf = put32 (of_nat (length b)) in
      case bufio_Write (ses_conn s) lenbuf of
        (c, _, Some err) \<Rightarrow> (s\<lparr>ses_conn := c\<rparr>, Some (LinkIO err))
      | (c, _, None) \<Rightarrow>
          (case bufio_Write c b of
             (c, _, Some err) \<Rightarrow> (s\<lparr>ses_conn := c\<rparr>, Some (LinkIO err))
           | (c, _, None) \<Rightarrow>
               (case bufio_Flush c of
                  (c, Some err) \<Rightarrow> (s\<lparr>ses_conn := c\<rparr>, Some (LinkIO err))
                | (c, None) \<Rightarrow> (s\<lparr>ses_conn := c, ses_lastSeen := now\<rparr>, None))))"

text \<open>The part of \<open>RecvBytes\<close> after the length prefix, common to the four transports.\<close>

definition recv_rest :: "session \<Rightarrow> byte list \<Rightarrow> byte list \<Rightarrow> int \<Rightarrow> session \<times> (link_error + byte list)" where
  "recv_rest s lenbuf st now =
     (let n = unat (get32 lenbuf) in
      if n > maxFrame then (s\<lparr>ses_conn := (ses_conn s)\<lparr>conn_in := st\<rparr>\<rparr>, Inl InvalidFrameSize)
      else case ReadFull n st of
          (Some err, _, st) \<Rightarrow> (s\<lparr>ses_conn := (ses_conn s)\<lparr>conn_in := st\<rparr>\<rparr>, Inl (LinkIO err))
        | (None, buf, st) \<Rightarrow>
            (s\<lparr>ses_conn := (ses_conn s)\<lparr>conn_in := st\<rparr>, ses_lastSeen := now\<rparr>, Inr buf))"

text \<open>TCP and QUIC read the prefix with \<open>io.ReadFull\<close>.\<close>

definition RecvBytes :: "session \<Rightarrow> int \<Rightarrow> session \<times> (link_error + byte list)" where
  "RecvBytes s now =
     (case ReadFull 4 (conn_in (ses_conn s)) of
        (Some err, _, st) \<Rightarrow> (s\<lparr>ses_conn := (ses_conn s)\<lparr>conn_in := st\<rparr>\<rparr>, Inl (LinkIO err))
      | (None, lenbuf, st) \<Rightarrow> recv_rest s lenbuf st now)"

text \<open>
  The in-memory and pipe sessions read it with one \<open>Read\<close>, which may deliver fewer bytes than
  are asked for; \<open>k\<close> is how many it is willing to deliver. The rest of the prefix stays zero.
\<close>

definition RecvBytes_Read :: "session \<Rightarrow> nat \<Rightarrow> int \<Rightarrow> session \<times> (link_error + byte list)" where
  "RecvBytes_Read s k now =
     (let st = conn_in (ses_conn s) in
      if st = [] then (s, Inl (LinkIO EOF))
      else let got = take (min 4 (max 1 k)) st;
               lenbuf = put_at (replicate 4 0) 0 got
           in recv_rest s lenbuf (drop (length got) st) now)"

definition packet :: "byte list \<Rightarrow> byte list" where
  "packet b = put32 (of_nat (length b)) @ b"

definition open_link :: "session \<Rightarrow> bool" where
  "open_link s \<longleftrightarrow> \<not> conn_broken (ses_conn s) \<and> conn_buf (ses_conn s) = []"

lemma SendBytes_ok:
  "open_link s \<Longrightarrow> SendBytes s b now =
     (s\<lparr>ses_conn := (ses_conn s)\<lparr>conn_out := conn_out (ses_conn s) @ packet b\<rparr>, ses_lastSeen := now\<rparr>, None)"
  by (simp add: SendBytes_def bufio_Write_def bufio_Flush_def open_link_def packet_def Let_def)

lemma unat_len_small: "length b \<le> maxFrame \<Longrightarrow> unat (of_nat (length b) :: uint32) = length b"
  by (rule unat_len32) (simp add: maxFrame_def)

lemma recv_rest_ok:
  "length b \<le> maxFrame \<Longrightarrow> recv_rest s (put32 (of_nat (length b))) (b @ rest) now =
     (s\<lparr>ses_conn := (ses_conn s)\<lparr>conn_in := rest\<rparr>, ses_lastSeen := now\<rparr>, Inr b)"
  by (simp add: recv_rest_def unat_len_small ReadFull_append)

lemma RecvBytes_packet:
  assumes "conn_in (ses_conn s) = packet b @ rest"
  shows "RecvBytes s now = recv_rest s (put32 (of_nat (length b))) (b @ rest) now"
  using assms by (simp add: RecvBytes_def packet_def ReadFull_append)

text \<open>
  The contract of \<open>transport.Stream\<close>: what is sent is put on the wire in order, and receiving takes
  the encoding of one message off it. \<open>tosend\<close> and \<open>listening\<close> say that an end is in order.
\<close>

fun receive_all :: "('r \<Rightarrow> (byte list \<times> 'r) option) \<Rightarrow> nat \<Rightarrow> 'r \<Rightarrow> byte list list" where
  "receive_all recv 0 r = []"
| "receive_all recv (Suc n) r =
     (case recv r of None \<Rightarrow> [] | Some (b, r) \<Rightarrow> b # receive_all recv n r)"

locale message_stream =
  fixes send :: "'s \<Rightarrow> byte list \<Rightarrow> 's"
    and recv :: "'r \<Rightarrow> (byte list \<times> 'r) option"
    and wire :: "'s \<Rightarrow> 'w list"
    and pending :: "'r \<Rightarrow> 'w list"
    and tosend :: "'s \<Rightarrow> bool"
    and listening :: "'r \<Rightarrow> bool"
    and enc :: "byte list \<Rightarrow> 'w list"
    and fits :: "byte list \<Rightarrow> bool"
  assumes send_wire: "tosend s \<Longrightarrow> wire (send s b) = wire s @ enc b"
    and send_tosend: "tosend s \<Longrightarrow> tosend (send s b)"
    and recv_next: "listening r \<Longrightarrow> pending r = enc b @ rest \<Longrightarrow> fits b \<Longrightarrow>
      \<exists>r'. recv r = Some (b, r') \<and> pending r' = rest \<and> listening r'"
begin

lemma sent: "tosend s \<Longrightarrow> wire (foldl send s bs) = wire s @ concat (map enc bs)"
  by (induction bs arbitrary: s) (simp_all add: send_wire send_tosend)

lemma received:
  "listening r \<Longrightarrow> pending r = concat (map enc bs) @ rest \<Longrightarrow> \<forall>b \<in> set bs. fits b \<Longrightarrow>
   receive_all recv (length bs) r = bs"
proof (induction bs arbitrary: r)
  case (Cons b bs)
  then obtain r' where "recv r = Some (b, r')" "pending r' = concat (map enc bs) @ rest" "listening r'"
    using recv_next [of r b "concat (map enc bs) @ rest"] by auto
  then show ?case using Cons by simp
qed simp

lemma delivered:
  assumes "tosend s" "wire s = []" "listening r" "pending r = wire (foldl send s bs) @ rest"
    and "\<forall>b \<in> set bs. fits b"
  shows "receive_all recv (length bs) r = bs"
  using assms by (intro received) (simp_all add: sent)

end

abbreviation received_or_none :: "'s \<times> (link_error + byte list) \<Rightarrow> (byte list \<times> 's) option" where
  "received_or_none x \<equiv> (case x of (s, Inr b) \<Rightarrow> Some (b, s) | (s, Inl err) \<Rightarrow> None)"

interpretation tcp_stream: message_stream "\<lambda>s b. fst (SendBytes s b now)" "\<lambda>s. received_or_none (RecvBytes s later)"
    "\<lambda>s. conn_out (ses_conn s)" "\<lambda>s. conn_in (ses_conn s)" open_link "\<lambda>s. True" packet "\<lambda>b. length b \<le> maxFrame"
    for now later
  by unfold_locales (simp_all add: SendBytes_ok open_link_def RecvBytes_packet recv_rest_ok)

section \<open>Accept queues\<close>

text \<open>
  The listeners of the connection-based transports keep accepted sessions in a channel of
  capacity 8; a session that does not fit is closed. Of the ready cases of the \<open>select\<close> in
  \<open>Accept\<close> any may be taken.
\<close>

record Listener =
  lis_name :: string
  lis_newCh :: "session list"
  lis_closed :: bool

definition close_session :: "session \<Rightarrow> session" where
  "close_session s = s\<lparr>ses_conn := (ses_conn s)\<lparr>conn_broken := True\<rparr>\<rparr>"

definition SetPeer :: "session \<Rightarrow> PeerInfo \<Rightarrow> session" where
  "SetPeer s p = s\<lparr>ses_peer := p\<rparr>"

definition new_conn :: Conn where
  "new_conn = \<lparr>conn_in = [], conn_buf = [], conn_out = [], conn_broken = False\<rparr>"

text \<open>A session accepted by \<open>acceptLoop\<close> of \<open>tcp.go\<close> or \<open>winpipe_windows.go\<close>.\<close>

definition inbound_session :: "Kind \<Rightarrow> string \<Rightarrow> Conn \<Rightarrow> int \<Rightarrow> session" where
  "inbound_session kind raddr c now =
     \<lparr>ses_peer = \<lparr>pi_ID = TempPeerID kind (Some raddr), pi_Addr = raddr, pi_Reachable = False\<rparr>,
      ses_kind = kind, ses_conn = c, ses_establishedAt = now, ses_lastSeen = 0\<rparr>"

definition offer :: "Listener \<Rightarrow> session \<Rightarrow> Listener \<times> session" where
  "offer l s =
     (if length (lis_newCh l) < 8 then (l\<lparr>lis_newCh := lis_newCh l @ [s]\<rparr>, s)
      else (l, close_session s))"

definition acceptLoop_turn :: "Kind \<Rightarrow> Listener \<Rightarrow> string \<Rightarrow> Conn \<Rightarrow> int \<Rightarrow> Listener \<times> session" where
  "acceptLoop_turn kind l raddr c now = offer l (inbound_session kind raddr c now)"

inductive Accept :: "bool \<Rightarrow> Listener \<Rightarrow> link_error + session \<Rightarrow> Listener \<Rightarrow> bool" for ctx_done where
  accept_ctx: "ctx_done \<Longrightarrow> Accept ctx_done l (Inl CtxDone) l"
| accept_closed: "lis_closed l \<Longrightarrow> Accept ctx_done l (Inl ListenerClosed) l"
| accept_session: "lis_newCh l = s # ss \<Longrightarrow> Accept ctx_done l (Inr s) (l\<lparr>lis_newCh := ss\<rparr>)"

inductive_cases AcceptE: "Accept c l r l'"
inductive_simps Accept_Inr: "Accept c l (Inr s) l'"

definition Listener_Close :: "Listener \<Rightarrow> Listener" where
  "Listener_Close l = l\<lparr>lis_closed := True\<rparr>"

section \<open>The in-memory transport\<close>

text \<open>
  The two ends are a \<open>net.Pipe\<close>, so the client's end breaks with the refused server's end.
  The listeners by name; closing one does not remove its name, only the end of its context does.\<close>

type_synonym MemTransport = "string \<Rightarrow> Listener option"

definition mem_Listen :: "MemTransport \<Rightarrow> string \<Rightarrow> MemTransport \<times> (link_error + Listener)" where
  "mem_Listen t name =
     (if t name \<noteq> None then (t, Inl ListenerExists)
      else let l = \<lparr>lis_name = name, lis_newCh = [], lis_closed = False\<rparr> in (t(name \<mapsto> l), Inr l))"

definition mem_ctx_done :: "MemTransport \<Rightarrow> string \<Rightarrow> MemTransport" where
  "mem_ctx_done t name = t(name := None)"

definition mem_Dial ::
  "MemTransport \<Rightarrow> string \<Rightarrow> PeerInfo \<Rightarrow> int \<Rightarrow> MemTransport \<times> (link_error + session \<times> session)" where
  "mem_Dial t name peer now =
     (case t name of
        None \<Rightarrow> (t, Inl NoSuchListener)
      | Some l \<Rightarrow>
          let srv = \<lparr>ses_peer = \<lparr>pi_ID = pi_ID peer, pi_Addr = name, pi_Reachable = False\<rparr>,
                ses_kind = KindMem, ses_conn = new_conn, ses_establishedAt = now, ses_lastSeen = 0\<rparr>;
              cli = \<lparr>ses_peer = peer, ses_kind = KindMem, ses_conn = new_conn,
                ses_establishedAt = now, ses_lastSeen = 0\<rparr>;
              (l, srv) = offer l srv;
              cli = (if conn_broken (ses_conn srv) then close_session cli else cli)
          in (t(name \<mapsto> l), Inr (cli, srv)))"

section \<open>The datagram demultiplexer\<close>

text \<open>
  \<open>readLoop\<close> keeps one queue of 32 datagrams per remote address and offers a session to the
  accept queue the first time it hears from an address.
\<close>

record udpListener =
  ul_sessions :: "string \<Rightarrow> byte list list option"
  ul_newCh :: "string list"

definition udp_datagram :: "udpListener \<Rightarrow> string \<Rightarrow> byte list \<Rightarrow> udpListener" where
  "udp_datagram l key pkt =
     (let (ins, l) =
        (case ul_sessions l key of
           Some q \<Rightarrow> (q, l)
         | None \<Rightarrow>
             ([], l\<lparr>ul_sessions := (ul_sessions l)(key \<mapsto> []),
                    ul_newCh := (if length (ul_newCh l) < 8 then ul_newCh l @ [key] else ul_newCh l)\<rparr>))
      in if length ins < 32 then l\<lparr>ul_sessions := (ul_sessions l)(key \<mapsto> ins @ [pkt])\<rparr> else l)"

definition udp_Accept :: "udpListener \<Rightarrow> (string \<times> udpListener) option" where
  "udp_Accept l = (case ul_newCh l of [] \<Rightarrow> None | k # ks \<Rightarrow> Some (k, l\<lparr>ul_newCh := ks\<rparr>))"

definition udp_RecvBytes :: "udpListener \<Rightarrow> string \<Rightarrow> (byte list \<times> udpListener) option" where
  "udp_RecvBytes l key =
     (case ul_sessions l key of
        Some (p # ps) \<Rightarrow> Some (p, l\<lparr>ul_sessions := (ul_sessions l)(key \<mapsto> ps)\<rparr>)
      | _ \<Rightarrow> None)"

inductive udp_step :: "udpListener \<Rightarrow> udpListener \<Rightarrow> bool" where
  udp_in: "udp_step l (udp_datagram l key pkt)"
| udp_acc: "udp_Accept l = Some (k, l') \<Longrightarrow> udp_step l l'"
| udp_recv: "udp_RecvBytes l key = Some (p, l') \<Longrightarrow> udp_step l l'"

inductive_cases udp_stepE: "udp_step l l'"

definition udp_start :: udpListener where
  "udp_start = \<lparr>ul_sessions = Map.empty, ul_newCh = []\<rparr>"

definition udp_bounded :: "udpListener \<Rightarrow> bool" where
  "udp_bounded l \<longleftrightarrow> length (ul_newCh l) \<le> 8 \<and> distinct (ul_newCh l) \<and>
     set (ul_newCh l) \<subseteq> dom (ul_sessions l) \<and>
     (\<forall>k q. ul_sessions l k = Some q \<longrightarrow> length q \<le> 32)"

lemma udp_bounded_step:
  assumes "udp_step l l'" "udp_bounded l"
  shows "udp_bounded l'"
  using assms
proof cases
  case (udp_in key pkt)
  then show ?thesis using assms(2)
    by (cases "ul_sessions l key") (fastforce simp: udp_datagram_def udp_bounded_def Let_def split: if_splits)+
next
  case (udp_acc k)
  then show ?thesis using assms(2) by (auto simp: udp_Accept_def udp_bounded_def split: list.splits)
next
  case (udp_recv key p)
  then show ?thesis using assms(2)
    by (fastforce simp: udp_RecvBytes_def udp_bounded_def split: option.splits list.splits if_splits)
qed

lemma udp_bounded_run: "udp_step\<^sup>*\<^sup>* udp_start l \<Longrightarrow> udp_bounded l"
proof (induction rule: rtranclp_induct)
  case base
  then show ?case by (simp add: udp_bounded_def udp_start_def)
next
  case (step l l')
  then show ?case by (blast intro: udp_bounded_step)
qed

text \<open>An address that is known but not waiting to be accepted never waits again.\<close>

definition udp_unheard :: "string \<Rightarrow> udpListener \<Rightarrow> bool" where
  "udp_unheard key l \<longleftrightarrow> key \<in> dom (ul_sessions l) \<and> key \<notin> set (ul_newCh l)"

lemma udp_unheard_step: "udp_step l l' \<Longrightarrow> udp_unheard key l \<Longrightarrow> udp_unheard key l'"
  by (erule udp_stepE)
    (auto simp: udp_unheard_def udp_datagram_def udp_Accept_def udp_RecvBytes_def Let_def
      split: option.splits list.splits if_splits)

lemma udp_unheard_run: "udp_step\<^sup>*\<^sup>* l l' \<Longrightarrow> udp_unheard key l \<Longrightarrow> udp_unheard key l'"
  by (induction rule: rtranclp_induct) (auto intro: udp_unheard_step)

section \<open>Properties\<close>

text \<open>
  Over an unbroken TCP or QUIC session every sequence of messages of at most 16 MiB is
  received by the peer as sent: the same messages, in order, with the same boundaries, whatever
  their contents.
\<close>

theorem link_stream_roundtrip:
  assumes "open_link s" "conn_out (ses_conn s) = []" "\<forall>b \<in> set bs. length b \<le> maxFrame"
    and "conn_in (ses_conn r) = conn_out (ses_conn (foldl (\<lambda>s b. fst (SendBytes s b now)) s bs)) @ rest"
  shows "receive_all (\<lambda>s. received_or_none (RecvBytes s later)) (length bs) r = bs"
  using assms by (intro tcp_stream.delivered [where s = s and now = now]) simp_all

definition sample_session :: session where
  "sample_session = \<lparr>ses_peer = \<lparr>pi_ID = ''p'', pi_Addr = ''a'', pi_Reachable = True\<rparr>,
     ses_kind = KindTCPDirect, ses_conn = new_conn, ses_establishedAt = 0, ses_lastSeen = 0\<rparr>"

lemma sample_session_open: "open_link sample_session" "conn_out (ses_conn sample_session) = []"
  by (simp_all add: sample_session_def new_conn_def open_link_def)

theorem link_stream_roundtrip_witness:
  "receive_all (\<lambda>s. received_or_none (RecvBytes s 9)) (length [[1, 2], [], [3 :: byte]])
     (sample_session\<lparr>ses_conn := new_conn\<lparr>conn_in :=
        conn_out (ses_conn (foldl (\<lambda>s b. fst (SendBytes s b 5)) sample_session [[1, 2], [], [3]]))\<rparr>\<rparr>)
   = [[1, 2], [], [3]]"
  by (rule link_stream_roundtrip [OF sample_session_open, where rest = "[]" and now = 5])
    (simp_all add: maxFrame_def del: foldl_Cons)

text \<open>
  The limit of 16 MiB holds on one side only: a longer message (below 4 GiB) is sent without
  an error, and the peer's \<open>RecvBytes\<close> refuses it having consumed only the length prefix, so
  that it would read the message's own bytes as the next prefix.
\<close>

theorem oversized_message_one_sided:
  assumes "open_link s" "maxFrame < length b" "length b < 2 ^ 32"
    and "conn_in (ses_conn r) = packet b @ rest"
  shows "snd (SendBytes s b now) = None \<and>
    conn_out (ses_conn (fst (SendBytes s b now))) = conn_out (ses_conn s) @ packet b \<and>
    snd (RecvBytes r later) = Inl InvalidFrameSize \<and>
    conn_in (ses_conn (fst (RecvBytes r later))) = b @ rest"
  using assms by (simp_all add: SendBytes_ok RecvBytes_packet recv_rest_def unat_len32)

theorem oversized_message_one_sided_witness:
  "snd (SendBytes sample_session (replicate (maxFrame + 1) 0) 5) = None"
  by (rule conjunct1 [OF oversized_message_one_sided [where rest = "[]"
        and r = "sample_session\<lparr>ses_conn := new_conn\<lparr>conn_in := packet (replicate (maxFrame + 1) 0)\<rparr>\<rparr>"]])
    (simp_all add: sample_session_open maxFrame_def del: replicate.simps)

text \<open>
  Reading the prefix with one \<open>Read\<close>, as the in-memory and named-pipe sessions do, agrees
  with \<open>io.ReadFull\<close> as long as a read delivers the four bytes it is asked for; when one
  delivers a single byte, a message of 256 bytes is received as an empty message and the rest of
  its packet is left in the stream.
\<close>

theorem short_prefix_read:
  assumes "conn_in (ses_conn s) = packet b @ rest" "length b \<le> maxFrame"
  shows "(4 \<le> k \<longrightarrow> RecvBytes_Read s k now = RecvBytes s now \<and> snd (RecvBytes_Read s k now) = Inr b) \<and>
    (length b = 256 \<longrightarrow> snd (RecvBytes_Read s 1 now) = Inr [] \<and>
      conn_in (ses_conn (fst (RecvBytes_Read s 1 now))) = [1, 0, 0] @ b @ rest)"
proof (rule conjI; rule impI)
  let ?p = "put32 (of_nat (length b))"
  have l4: "length ?p = 4" by (rule length_puts(2))
  then have ne: "?p \<noteq> []" by (metis list.size(3) zero_neq_numeral)
  with l4 have st: "conn_in (ses_conn s) = ?p @ (b @ rest)" "?p @ (b @ rest) \<noteq> []" "length ?p = 4"
    using assms(1) by (simp_all add: packet_def)
  have z: "put_at (replicate 4 0) 0 ?p = ?p" using st(3) by (simp add: put_at_def)
  show "RecvBytes_Read s k now = RecvBytes s now \<and> snd (RecvBytes_Read s k now) = Inr b" if "4 \<le> k"
  proof -
    have m: "min 4 (max 1 k) = 4" using that by simp
    have "RecvBytes_Read s k now = recv_rest s ?p (b @ rest) now"
      unfolding RecvBytes_Read_def Let_def m st(1) using ne st(3) z by simp
    then show ?thesis using RecvBytes_packet [OF assms(1)] recv_rest_ok [OF assms(2)] by simp
  qed
  assume l: "length b = 256"
  have p: "put32 256 = [0, 1, 0, 0]" by code_simp
  have z: "get32 (put_at (replicate 4 0) 0 [0]) = 0" by code_simp
  have in': "conn_in (ses_conn s) = [0, 1, 0, 0] @ b @ rest"
    using assms(1) l p by (simp add: packet_def)
  show "snd (RecvBytes_Read s 1 now) = Inr [] \<and>
      conn_in (ses_conn (fst (RecvBytes_Read s 1 now))) = [1, 0, 0] @ b @ rest"
    using z unfolding RecvBytes_Read_def Let_def in' by (simp add: recv_rest_def ReadFull_def)
qed

theorem short_prefix_read_witness:
  "snd (RecvBytes_Read (sample_session\<lparr>ses_conn := new_conn\<lparr>conn_in := packet [7, 8]\<rparr>\<rparr>) 4 3) = Inr [7, 8]"
  by (rule conjunct2 [OF mp [OF conjunct1 [OF short_prefix_read [where b = "[7, 8]" and rest = "[]"]]]])
    (simp_all add: maxFrame_def)

text \<open>
  A canonical peer id determines the key: two canonical ids are equal exactly when the
  normalised algorithm names and the public keys are, and none equals the temporary id of any
  link.
\<close>

theorem canonical_id_injective:
  "(CanonicalPeerIDFromPubKey a p = CanonicalPeerIDFromPubKey a' p' \<longleftrightarrow>
     ToLower (TrimSpace a) = ToLower (TrimSpace a') \<and> p = p') \<and>
   CanonicalPeerIDFromPubKey a p \<noteq> TempPeerID kind addr"
proof (rule conjI)
  have "CanonicalPeerIDFromPubKey a p = (''pk:'' @ ToLower (TrimSpace a)) @ CHR '':'' # b64_encode p" for a p
    by (simp add: CanonicalPeerIDFromPubKey_def Let_def)
  then show "CanonicalPeerIDFromPubKey a p = CanonicalPeerIDFromPubKey a' p' \<longleftrightarrow>
     ToLower (TrimSpace a) = ToLower (TrimSpace a') \<and> p = p'"
    by (simp only: split_last_sep [OF b64_no_colon b64_no_colon]) (simp add: b64_encode_inject)
  show "CanonicalPeerIDFromPubKey a p \<noteq> TempPeerID kind addr"
    by (simp add: CanonicalPeerIDFromPubKey_def TempPeerID_def Let_def split: option.split)
qed

text \<open>
  In every reachable state of the datagram listener the accept queue holds at most 8
  addresses, each known and at most once, and every per-address queue at most 32 datagrams; and
  an address first heard from while the accept queue is full is never handed out by \<open>Accept\<close>,
  whatever happens later.
\<close>

theorem udp_demux_bounds:
  assumes "udp_step\<^sup>*\<^sup>* udp_start l"
  shows "length (ul_newCh l) \<le> 8 \<and> distinct (ul_newCh l) \<and>
    (ul_sessions l k = Some q \<longrightarrow> length q \<le> 32) \<and>
    (ul_sessions l key = None \<longrightarrow> length (ul_newCh l) = 8 \<longrightarrow>
      udp_step\<^sup>*\<^sup>* (udp_datagram l key pkt) l' \<longrightarrow> udp_Accept l' = Some (who, l'') \<longrightarrow> who \<noteq> key)"
proof (intro conjI impI)
  have b: "udp_bounded l" by (rule udp_bounded_run [OF assms])
  then show "length (ul_newCh l) \<le> 8" "distinct (ul_newCh l)" by (simp_all add: udp_bounded_def)
  show "length q \<le> 32" if "ul_sessions l k = Some q" using b that by (simp add: udp_bounded_def)
  assume new: "ul_sessions l key = None" and full: "length (ul_newCh l) = 8"
    and run: "udp_step\<^sup>*\<^sup>* (udp_datagram l key pkt) l'" and acc: "udp_Accept l' = Some (who, l'')"
  have "udp_unheard key (udp_datagram l key pkt)"
    using b new full by (auto simp: udp_unheard_def udp_datagram_def udp_bounded_def Let_def)
  then have "udp_unheard key l'" using udp_unheard_run [OF run] by blast
  then show "who \<noteq> key" using acc by (auto simp: udp_unheard_def udp_Accept_def split: list.splits)
qed

theorem udp_demux_bounds_witness:
  "length (ul_newCh (udp_datagram udp_start ''10.0.0.1:7'' [1])) \<le> 8"
proof -
  have "udp_step\<^sup>*\<^sup>* udp_start (udp_datagram udp_start ''10.0.0.1:7'' [1])"
    by (rule r_into_rtranclp) (rule udp_in)
  then show ?thesis using udp_demux_bounds by blast
qed

end
