(* ===== verification/SessionManager.thy ===== *)
theory SessionManager
  imports Transport
begin

text \<open>
  The session manager of \<open>pkg/transport/manager.go\<close>: at most one canonical session per peer,
  elected by \<open>better\<close>. A \<open>Session\<close> is an interface value, so the manager holds references
  (\<open>sid\<close>) and the sessions live in a store \<open>mgr_sess\<close>; the sessions whose \<open>Close\<close> a
  goroutine still has to call are listed in \<open>mgr_pending\<close>. The lemmas show that the election
  is a linear preference, that no session is ever lost without being closed, and how an identity
  is rebound.
\<close>

section \<open>State\<close>

type_synonym sid = nat

record SessInfo =
  si_peer :: PeerInfo
  si_kind :: Kind
  si_RTT :: int
  si_EstablishedAt :: int
  si_mutable :: bool
  si_closed :: bool

record peerEntry =
  pe_canonical :: "sid option"
  pe_candidates :: "sid list"

record Manager =
  mgr_peers :: "PeerID \<Rightarrow> peerEntry option"
  mgr_sess :: "sid \<Rightarrow> SessInfo"
  mgr_pending :: "sid list"

section \<open>Election\<close>

fun baseRank :: "Kind \<Rightarrow> int" where
  "baseRank KindMem = 120"
| "baseRank KindQUICDirect = 100"
| "baseRank KindWinPipe = 95"
| "baseRank KindTCPDirect = 90"
| "baseRank KindQUICHolePunch = 80"
| "baseRank KindQUICRelay = 70"
| "baseRank KindTCPRelay = 60"
| "baseRank KindUDP = 50"
| "baseRank KindUnknown = 0"

definition better :: "SessInfo \<Rightarrow> SessInfo \<Rightarrow> bool" where
  "better a b =
     (let ra = baseRank (si_kind a); rb = baseRank (si_kind b) in
      if ra \<noteq> rb then ra > rb
      else if si_RTT a \<noteq> si_RTT b then si_RTT a < si_RTT b
      else si_EstablishedAt a > si_EstablishedAt b)"

section \<open>Operations\<close>

definition NewManager :: "(sid \<Rightarrow> SessInfo) \<Rightarrow> Manager" where
  "NewManager sess = \<lparr>mgr_peers = Map.empty, mgr_sess = sess, mgr_pending = []\<rparr>"

definition sess_Close :: "Manager \<Rightarrow> sid \<Rightarrow> Manager" where
  "sess_Close m s = m\<lparr>mgr_sess := (mgr_sess m)(s := (mgr_sess m s)\<lparr>si_closed := True\<rparr>)\<rparr>"

definition new_entry :: peerEntry where
  "new_entry = \<lparr>pe_canonical = None, pe_candidates = []\<rparr>"

text \<open>Results: \<open>accepted\<close>, \<open>replaced\<close>, \<open>old\<close>; the error is always nil.\<close>

definition AddSession :: "Manager \<Rightarrow> sid \<Rightarrow> (bool \<times> bool \<times> sid option) \<times> Manager" where
  "AddSession m s =
     (let pid = pi_ID (si_peer (mgr_sess m s));
          (pe, m) = (case mgr_peers m pid of
                       None \<Rightarrow> (new_entry, m\<lparr>mgr_peers := (mgr_peers m)(pid \<mapsto> new_entry)\<rparr>)
                     | Some pe \<Rightarrow> (pe, m))
      in case pe_canonical pe of
           None \<Rightarrow> ((True, False, None),
             m\<lparr>mgr_peers := (mgr_peers m)(pid \<mapsto> pe\<lparr>pe_canonical := Some s\<rparr>)\<rparr>)
         | Some cur \<Rightarrow>
             if better (mgr_sess m s) (mgr_sess m cur) then
               let pe = pe\<lparr>pe_canonical := Some s, pe_candidates := pe_candidates pe @ [cur]\<rparr>
               in ((True, True, Some cur),
                   m\<lparr>mgr_peers := (mgr_peers m)(pid \<mapsto> pe), mgr_pending := mgr_pending m @ [cur]\<rparr>)
             else ((False, False, None), sess_Close m s))"

definition GetSession :: "Manager \<Rightarrow> PeerID \<Rightarrow> sid option" where
  "GetSession m pid = (case mgr_peers m pid of None \<Rightarrow> None | Some pe \<Rightarrow> pe_canonical pe)"

definition ClosePeer :: "Manager \<Rightarrow> PeerID \<Rightarrow> Manager" where
  "ClosePeer m pid =
     (case mgr_peers m pid of
        None \<Rightarrow> m
      | Some pe \<Rightarrow>
          let m = (case pe_canonical pe of None \<Rightarrow> m | Some c \<Rightarrow> sess_Close m c);
              m = foldl sess_Close m (pe_candidates pe)
          in m\<lparr>mgr_peers := (mgr_peers m)(pid := None)\<rparr>)"

text \<open>\<open>ids\<close> is the order in which ranging over the map yields the peers.\<close>

definition ListPeers :: "Manager \<Rightarrow> PeerID list \<Rightarrow> PeerID list" where
  "ListPeers m ids = sort ids"

definition mgr_SetPeer :: "Manager \<Rightarrow> sid \<Rightarrow> PeerID \<Rightarrow> Manager" where
  "mgr_SetPeer m s newID =
     (if si_mutable (mgr_sess m s)
      then m\<lparr>mgr_sess := (mgr_sess m)(s := (mgr_sess m s)\<lparr>si_peer := (si_peer (mgr_sess m s))\<lparr>pi_ID := newID\<rparr>\<rparr>)\<rparr>
      else m)"

definition RebindPeer :: "Manager \<Rightarrow> PeerID \<Rightarrow> PeerID \<Rightarrow> bool \<times> Manager" where
  "RebindPeer m oldID newID =
     (if oldID = newID \<or> newID = [] then (False, m)
      else case mgr_peers m oldID of
          None \<Rightarrow> (False, m)
        | Some src \<Rightarrow>
            (case pe_canonical src of
               None \<Rightarrow> (False, m)
             | Some moving \<Rightarrow>
                 let m = m\<lparr>mgr_peers := (mgr_peers m)(oldID := None)\<rparr>;
                     m = mgr_SetPeer m moving newID
                 in case mgr_peers m newID of
                      None \<Rightarrow> (True, m\<lparr>mgr_peers := (mgr_peers m)
                        (newID \<mapsto> \<lparr>pe_canonical = Some moving, pe_candidates = []\<rparr>)\<rparr>)
                    | Some dst \<Rightarrow>
                        (case pe_canonical dst of
                           None \<Rightarrow> (True, m\<lparr>mgr_peers := (mgr_peers m)
                             (newID \<mapsto> dst\<lparr>pe_canonical := Some moving\<rparr>)\<rparr>)
                         | Some cur \<Rightarrow>
                             if better (mgr_sess m moving) (mgr_sess m cur) then
                               (True, m\<lparr>mgr_peers := (mgr_peers m)
                                    (newID \<mapsto> dst\<lparr>pe_canonical := Some moving\<rparr>),
                                  mgr_pending := mgr_pending m @ [cur]\<rparr>)
                             else (False, m\<lparr>mgr_pending := mgr_pending m @ [moving]\<rparr>))))"

text \<open>A goroutine that closes a replaced or losing session runs.\<close>

definition run_pending :: "Manager \<Rightarrow> nat \<Rightarrow> Manager" where
  "run_pending m i =
     (if i < length (mgr_pending m)
      then sess_Close (m\<lparr>mgr_pending := take i (mgr_pending m) @ drop (Suc i) (mgr_pending m)\<rparr>)
             (mgr_pending m ! i)
      else m)"

section \<open>The preference\<close>

text \<open>The order \<open>better\<close> decides: by rank, then smaller round-trip time, then newer.\<close>

definition score :: "SessInfo \<Rightarrow> int \<times> int \<times> int" where
  "score a = (baseRank (si_kind a), - si_RTT a, si_EstablishedAt a)"

definition score_less :: "int \<times> int \<times> int \<Rightarrow> int \<times> int \<times> int \<Rightarrow> bool" where
  "score_less x y \<longleftrightarrow> fst x < fst y \<or> fst x = fst y \<and>
     (fst (snd x) < fst (snd y) \<or> fst (snd x) = fst (snd y) \<and> snd (snd x) < snd (snd y))"

lemma better_score: "better a b \<longleftrightarrow> score_less (score b) (score a)"
  by (auto simp: better_def score_def score_less_def Let_def)

lemma not_better_trans: "\<not> better a b \<Longrightarrow> \<not> better b c \<Longrightarrow> \<not> better a c"
  unfolding better_score score_less_def by auto

lemma better_asym: "better a b \<Longrightarrow> \<not> better b a"
  unfolding better_score score_less_def by auto

section \<open>No session is lost\<close>

definition canonicals :: "Manager \<Rightarrow> sid set" where
  "canonicals m = {s. \<exists>pid. GetSession m pid = Some s}"

definition closed_sids :: "Manager \<Rightarrow> sid set" where
  "closed_sids m = {s. si_closed (mgr_sess m s)}"

text \<open>Every session of \<open>S\<close> is canonical for some peer, closed, or about to be closed.\<close>

definition accounted :: "sid set \<Rightarrow> Manager \<Rightarrow> bool" where
  "accounted S m \<longleftrightarrow> S \<subseteq> canonicals m \<union> closed_sids m \<union> set (mgr_pending m)"

text \<open>A session is canonical for at most one peer.\<close>

definition unshared :: "Manager \<Rightarrow> bool" where
  "unshared m \<longleftrightarrow> (\<forall>p q s. GetSession m p = Some s \<longrightarrow> GetSession m q = Some s \<longrightarrow> p = q)"

lemma closed_Close [simp]: "closed_sids (sess_Close m s) = insert s (closed_sids m)"
  by (auto simp: closed_sids_def sess_Close_def)

lemma sess_Close_frame [simp]:
  "mgr_peers (sess_Close m s) = mgr_peers m" "mgr_pending (sess_Close m s) = mgr_pending m"
  "canonicals (sess_Close m s) = canonicals m" "GetSession (sess_Close m s) = GetSession m"
  by (simp_all add: sess_Close_def canonicals_def GetSession_def fun_eq_iff)

lemma foldl_Close_frame [simp]:
  "mgr_peers (foldl sess_Close m ss) = mgr_peers m" "mgr_pending (foldl sess_Close m ss) = mgr_pending m"
  "closed_sids (foldl sess_Close m ss) = closed_sids m \<union> set ss"
  by (induction ss arbitrary: m) auto

lemma closed_fields [simp]:
  "closed_sids (m\<lparr>mgr_peers := x\<rparr>) = closed_sids m" "closed_sids (m\<lparr>mgr_pending := y\<rparr>) = closed_sids m"
  by (simp_all add: closed_sids_def)

lemma SetPeer_frame [simp]:
  "mgr_peers (mgr_SetPeer m s i) = mgr_peers m" "mgr_pending (mgr_SetPeer m s i) = mgr_pending m"
  "closed_sids (mgr_SetPeer m s i) = closed_sids m" "GetSession (mgr_SetPeer m s i) = GetSession m"
  by (auto simp: mgr_SetPeer_def closed_sids_def GetSession_def fun_eq_iff)

lemma GetSession_upd:
  "GetSession (m\<lparr>mgr_peers := (mgr_peers m)(p := x), mgr_pending := y\<rparr>) q =
     (if q = p then (case x of None \<Rightarrow> None | Some pe \<Rightarrow> pe_canonical pe) else GetSession m q)"
  "GetSession (m\<lparr>mgr_peers := (mgr_peers m)(p := x)\<rparr>) q =
     (if q = p then (case x of None \<Rightarrow> None | Some pe \<Rightarrow> pe_canonical pe) else GetSession m q)"
  "GetSession (m\<lparr>mgr_pending := y\<rparr>) q = GetSession m q"
  by (simp_all add: GetSession_def)

lemma canonicals_eq: "canonicals m = ran (GetSession m)"
  by (auto simp: canonicals_def ran_def)

text \<open>What \<open>AddSession\<close> and \<open>RebindPeer\<close> do, on the canonical map.\<close>

lemma AddSession_first:
  assumes "GetSession m (pi_ID (si_peer (mgr_sess m s))) = None"
  shows "fst (AddSession m s) = (True, False, None)"
    and "GetSession (snd (AddSession m s)) = (GetSession m)(pi_ID (si_peer (mgr_sess m s)) \<mapsto> s)"
    and "mgr_pending (snd (AddSession m s)) = mgr_pending m"
    and "mgr_sess (snd (AddSession m s)) = mgr_sess m"
  using assms
  by (auto simp: AddSession_def Let_def new_entry_def GetSession_def fun_eq_iff split: option.splits)

lemma AddSession_elected:
  assumes "GetSession m (pi_ID (si_peer (mgr_sess m s))) = Some cur" "better (mgr_sess m s) (mgr_sess m cur)"
  shows "fst (AddSession m s) = (True, True, Some cur)"
    and "GetSession (snd (AddSession m s)) = (GetSession m)(pi_ID (si_peer (mgr_sess m s)) \<mapsto> s)"
    and "mgr_pending (snd (AddSession m s)) = mgr_pending m @ [cur]"
    and "mgr_sess (snd (AddSession m s)) = mgr_sess m"
  using assms
  by (auto simp: AddSession_def Let_def new_entry_def GetSession_def fun_eq_iff split: option.splits)

lemma AddSession_rejected:
  assumes "GetSession m (pi_ID (si_peer (mgr_sess m s))) = Some cur" "\<not> better (mgr_sess m s) (mgr_sess m cur)"
  shows "AddSession m s = ((False, False, None), sess_Close m s)"
  using assms by (auto simp: AddSession_def Let_def GetSession_def split: option.splits)

lemma ClosePeer_sessions: "GetSession (ClosePeer m p) = (GetSession m)(p := None)"
  by (auto simp: ClosePeer_def GetSession_def fun_eq_iff Let_def split: option.splits)

lemma ClosePeer_closed:
  "mgr_pending (ClosePeer m p) = mgr_pending m" "closed_sids m \<subseteq> closed_sids (ClosePeer m p)"
  "GetSession m p = Some s \<Longrightarrow> s \<in> closed_sids (ClosePeer m p)"
  by (auto simp: ClosePeer_def GetSession_def Let_def split: option.splits)

lemma RebindPeer_noop:
  "oldID = newID \<or> newID = [] \<or> GetSession m oldID = None \<Longrightarrow> RebindPeer m oldID newID = (False, m)"
  by (auto simp: RebindPeer_def GetSession_def split: option.splits)

lemma RebindPeer_moved:
  assumes "oldID \<noteq> newID" "newID \<noteq> []" "GetSession m oldID = Some s"
  shows "RebindPeer m oldID newID =
    (let m1 = mgr_SetPeer (m\<lparr>mgr_peers := (mgr_peers m)(oldID := None)\<rparr>) s newID in
     case GetSession m newID of
       None \<Rightarrow> (True, m1\<lparr>mgr_peers := (mgr_peers m)(oldID := None,
          newID \<mapsto> (case mgr_peers m newID of None \<Rightarrow> new_entry | Some dst \<Rightarrow> dst)\<lparr>pe_canonical := Some s\<rparr>)\<rparr>)
     | Some cur \<Rightarrow>
         if better (mgr_sess m1 s) (mgr_sess m1 cur)
         then (True, m1\<lparr>mgr_peers := (mgr_peers m)(oldID := None,
            newID \<mapsto> (the (mgr_peers m newID))\<lparr>pe_canonical := Some s\<rparr>), mgr_pending := mgr_pending m @ [cur]\<rparr>)
         else (False, m1\<lparr>mgr_pending := mgr_pending m @ [s]\<rparr>))"
  using assms
  by (auto simp: RebindPeer_def GetSession_def Let_def new_entry_def split: option.splits)

lemma RebindPeer_closed: "closed_sids (snd (RebindPeer m oldID newID)) = closed_sids m"
  by (simp add: RebindPeer_def Let_def split: option.split)

text \<open>The canonical map and the pending closes after a rebind that moves \<open>s\<close>.\<close>

lemma RebindPeer_effect:
  assumes "oldID \<noteq> newID" "newID \<noteq> []" "GetSession m oldID = Some s"
  shows "(fst (RebindPeer m oldID newID) \<and>
       GetSession (snd (RebindPeer m oldID newID)) = (GetSession m)(oldID := None, newID \<mapsto> s) \<and>
       mgr_pending (snd (RebindPeer m oldID newID)) =
         mgr_pending m @ (case GetSession m newID of None \<Rightarrow> [] | Some cur \<Rightarrow> [cur])) \<or>
     (\<not> fst (RebindPeer m oldID newID) \<and> (\<exists>cur. GetSession m newID = Some cur) \<and>
       GetSession (snd (RebindPeer m oldID newID)) = (GetSession m)(oldID := None) \<and>
       mgr_pending (snd (RebindPeer m oldID newID)) = mgr_pending m @ [s])"
proof (cases "GetSession m newID")
  case None
  then show ?thesis using assms unfolding RebindPeer_moved [OF assms]
    by (auto simp: Let_def fun_eq_iff GetSession_def split: option.splits)
next
  case (Some cur)
  then show ?thesis using assms unfolding RebindPeer_moved [OF assms]
    by (auto simp: Let_def fun_eq_iff GetSession_def split: option.splits)
qed

text \<open>The history of a manager: \<open>S\<close> are the sessions that were ever handed to \<open>AddSession\<close>.\<close>

inductive mgr_reach :: "sid set \<Rightarrow> Manager \<Rightarrow> bool" where
  mgr_new: "mgr_reach {} (NewManager sess)"
| mgr_add: "mgr_reach S m \<Longrightarrow> s \<notin> S \<Longrightarrow> mgr_reach (insert s S) (snd (AddSession m s))"
| mgr_close: "mgr_reach S m \<Longrightarrow> mgr_reach S (ClosePeer m p)"
| mgr_rebind: "mgr_reach S m \<Longrightarrow> mgr_reach S (snd (RebindPeer m p q))"
| mgr_goroutine: "mgr_reach S m \<Longrightarrow> mgr_reach S (run_pending m i)"

definition mgr_inv :: "sid set \<Rightarrow> Manager \<Rightarrow> bool" where
  "mgr_inv S m \<longleftrightarrow> accounted S m \<and> unshared m \<and> canonicals m \<subseteq> S"

lemma canonicals_upd:
  assumes g: "GetSession m' = (GetSession m)(p := x)"
  shows "canonicals m \<subseteq> canonicals m' \<union> set_option (GetSession m p)"
    and "canonicals m' \<subseteq> canonicals m \<union> set_option x"
proof -
  show "canonicals m \<subseteq> canonicals m' \<union> set_option (GetSession m p)"
  proof
    fix s assume "s \<in> canonicals m"
    then obtain q where q: "GetSession m q = Some s" by (auto simp: canonicals_def)
    then have "q \<noteq> p \<Longrightarrow> GetSession m' q = Some s" by (simp add: g)
    with q show "s \<in> canonicals m' \<union> set_option (GetSession m p)"
      by (cases "q = p") (auto simp: canonicals_def)
  qed
  show "canonicals m' \<subseteq> canonicals m \<union> set_option x"
    by (auto simp: canonicals_def g split: if_splits)
qed

lemma unshared_upd:
  assumes g: "GetSession m' = (GetSession m)(p := x)" and "unshared m"
    and "\<And>s q. x = Some s \<Longrightarrow> q \<noteq> p \<Longrightarrow> GetSession m q \<noteq> Some s"
  shows "unshared m'"
  using assms(2,3) unfolding unshared_def g by (metis fun_upd_apply)

text \<open>
  A step that changes the canonical session of one peer keeps the invariant when the session it
  takes away is closed or about to be, and the one it puts in place is nobody else's.
\<close>

lemma inv_upd:
  assumes inv: "mgr_inv S m" and g: "GetSession m' = (GetSession m)(p := x)"
    and keep: "closed_sids m \<union> set (mgr_pending m) \<subseteq> closed_sids m' \<union> set (mgr_pending m')"
    and gone: "set_option (GetSession m p) \<subseteq> set_option x \<union> closed_sids m' \<union> set (mgr_pending m')"
    and new: "\<And>s q. x = Some s \<Longrightarrow> q \<noteq> p \<Longrightarrow> GetSession m q \<noteq> Some s"
    and S: "S \<subseteq> S'" "S' \<subseteq> S \<union> set_option x \<union> closed_sids m'" "set_option x \<subseteq> S'"
  shows "mgr_inv S' m'"
proof -
  have x: "set_option x \<subseteq> canonicals m'"
    by (auto simp: canonicals_def g intro!: exI [of _ p])
  have "canonicals m \<subseteq> canonicals m' \<union> closed_sids m' \<union> set (mgr_pending m')"
    using canonicals_upd(1) [OF g] gone x by blast
  moreover have "S \<subseteq> canonicals m \<union> closed_sids m \<union> set (mgr_pending m)"
    using inv by (simp add: mgr_inv_def accounted_def)
  ultimately have "accounted S' m'" using keep S(2) x unfolding accounted_def by blast
  moreover have "unshared m'" using unshared_upd [OF g _ new] inv by (simp add: mgr_inv_def)
  moreover have "canonicals m' \<subseteq> S'"
    using canonicals_upd(2) [OF g] inv S(1,3) unfolding mgr_inv_def by blast
  ultimately show ?thesis by (simp add: mgr_inv_def)
qed

lemma inv_add:
  assumes "mgr_inv S m" "s \<notin> S"
  shows "mgr_inv (insert s S) (snd (AddSession m s))"
proof -
  let ?p = "pi_ID (si_peer (mgr_sess m s))"
  have fresh: "GetSession m q \<noteq> Some s" for q
    using assms by (auto simp: mgr_inv_def canonicals_def)
  have cl: "closed_sids m' = closed_sids m" if "mgr_sess m' = mgr_sess m" for m'
    using that by (simp add: closed_sids_def)
  consider "GetSession m ?p = None"
    | cur where "GetSession m ?p = Some cur" "better (mgr_sess m s) (mgr_sess m cur)"
    | cur where "GetSession m ?p = Some cur" "\<not> better (mgr_sess m s) (mgr_sess m cur)"
    by (cases "GetSession m ?p") auto
  then show ?thesis
  proof cases
    case 1
    note a = AddSession_first [OF 1]
    show ?thesis by (rule inv_upd [OF assms(1) a(2)]) (use fresh 1 in \<open>auto simp: cl [OF a(4)] a(3)\<close>)
  next
    case (2 cur)
    note a = AddSession_elected [OF 2]
    show ?thesis by (rule inv_upd [OF assms(1) a(2)]) (use fresh 2(1) in \<open>auto simp: cl [OF a(4)] a(3)\<close>)
  next
    case (3 cur)
    then show ?thesis using assms
      by (auto simp: AddSession_rejected mgr_inv_def accounted_def unshared_def)
  qed
qed

lemma inv_close: "mgr_inv S m \<Longrightarrow> mgr_inv S (ClosePeer m p)"
  by (rule inv_upd [OF _ ClosePeer_sessions])
    (use ClosePeer_closed(2) [of m p] ClosePeer_closed(3) [of m p] in \<open>auto simp: ClosePeer_closed(1)\<close>)

lemma inv_rebind:
  assumes "mgr_inv S m"
  shows "mgr_inv S (snd (RebindPeer m p q))"
proof (cases "p = q \<or> q = [] \<or> GetSession m p = None")
  case True
  then show ?thesis using assms by (simp add: RebindPeer_noop)
next
  case False
  then obtain s where s: "p \<noteq> q" "q \<noteq> []" "GetSession m p = Some s" by auto
  let ?m = "snd (RebindPeer m p q)" and ?m1 = "m\<lparr>mgr_peers := (mgr_peers m)(p := None), mgr_pending := mgr_pending m @ [s]\<rparr>"
  have inS: "s \<in> S" using assms s(3) by (auto simp: mgr_inv_def canonicals_def)
  have only: "GetSession m r = Some s \<Longrightarrow> r = p" for r
    using assms s(3) by (auto simp: mgr_inv_def unshared_def)
  from RebindPeer_effect [OF s] show ?thesis
  proof (elim disjE conjE)
    assume g: "GetSession ?m = (GetSession m)(p := None, q \<mapsto> s)"
      and pd: "mgr_pending ?m = mgr_pending m @ (case GetSession m q of None \<Rightarrow> [] | Some cur \<Rightarrow> [cur])"
    have g1: "GetSession ?m1 = (GetSession m)(p := None)" by (simp add: GetSession_upd fun_eq_iff)
    have m1: "mgr_inv S ?m1" by (rule inv_upd [OF assms g1]) (use s in auto)
    have "accounted S ?m"
    proof -
      have "canonicals ?m1 \<subseteq> canonicals ?m \<union> set_option (GetSession ?m1 q)"
        by (rule canonicals_upd(1)) (simp add: g g1)
      moreover have "set_option (GetSession ?m1 q) \<subseteq> set (mgr_pending ?m)"
        using s(1) by (auto simp: g1 pd split: option.splits)
      moreover have "s \<in> canonicals ?m" using s(1) by (auto simp: canonicals_def g intro!: exI [of _ q])
      ultimately show ?thesis using m1 by (auto simp: mgr_inv_def accounted_def RebindPeer_closed pd)
    qed
    moreover have "unshared ?m"
    proof (rule unshared_upd [of _ ?m1 q "Some s"])
      show "GetSession ?m = (GetSession ?m1)(q := Some s)" using g g1 by simp
      show "unshared ?m1" using m1 by (simp add: mgr_inv_def)
      show "GetSession ?m1 r \<noteq> Some s'" if "Some s = Some s'" "r \<noteq> q" for s' r
        using that only [of r] unfolding g1 by (auto split: if_splits)
    qed
    moreover have "canonicals ?m \<subseteq> S"
      using canonicals_upd(2) [of ?m ?m1 q "Some s"] m1 inS g g1 by (auto simp: mgr_inv_def)
    ultimately show ?thesis by (simp add: mgr_inv_def)
  next
    assume g: "GetSession ?m = (GetSession m)(p := None)" and pd: "mgr_pending ?m = mgr_pending m @ [s]"
    show ?thesis by (rule inv_upd [OF assms g]) (use s in \<open>auto simp: RebindPeer_closed pd\<close>)
  qed
qed

lemma run_pending_set:
  "i < length xs \<Longrightarrow> set xs = insert (xs ! i) (set (take i xs @ drop (Suc i) xs))"
  using id_take_nth_drop [of i xs] by (metis list.simps(15) set_append Un_insert_right)

lemma inv_pending:
  assumes "mgr_inv S m"
  shows "mgr_inv S (run_pending m i)"
proof (cases "i < length (mgr_pending m)")
  case True
  have "GetSession (run_pending m i) = GetSession m" using True by (simp add: run_pending_def GetSession_upd fun_eq_iff)
  moreover have "closed_sids (run_pending m i) \<union> set (mgr_pending (run_pending m i)) =
      closed_sids m \<union> set (mgr_pending m)"
    using True run_pending_set [OF True] by (auto simp: run_pending_def)
  ultimately show ?thesis using assms
    by (simp add: mgr_inv_def accounted_def unshared_def canonicals_def Un_assoc)
next
  case False
  then show ?thesis using assms by (simp add: run_pending_def)
qed

lemma reach_inv: "mgr_reach S m \<Longrightarrow> mgr_inv S m"
proof (induction rule: mgr_reach.induct)
  case (mgr_new sess)
  then show ?case by (simp add: mgr_inv_def accounted_def unshared_def canonicals_def NewManager_def GetSession_def)
qed (simp_all add: inv_add inv_close inv_rebind inv_pending)

section \<open>Electing among many\<close>

fun add_all :: "Manager \<Rightarrow> sid list \<Rightarrow> Manager" where
  "add_all m [] = m"
| "add_all m (s # ss) = add_all (snd (AddSession m s)) ss"

lemma AddSession_info:
  "si_kind (mgr_sess (snd (AddSession m s)) t) = si_kind (mgr_sess m t)"
  "si_RTT (mgr_sess (snd (AddSession m s)) t) = si_RTT (mgr_sess m t)"
  "si_EstablishedAt (mgr_sess (snd (AddSession m s)) t) = si_EstablishedAt (mgr_sess m t)"
  "si_peer (mgr_sess (snd (AddSession m s)) t) = si_peer (mgr_sess m t)"
  by (simp_all add: AddSession_def Let_def sess_Close_def split: option.split)

lemma better_cong:
  "score a = score a' \<Longrightarrow> score b = score b' \<Longrightarrow> better a b = better a' b'"
  by (simp add: better_score)

lemma AddSession_score: "score (mgr_sess (snd (AddSession m s)) t) = score (mgr_sess m t)"
  by (simp add: score_def AddSession_info)

lemma add_all_elects:
  assumes "\<forall>s \<in> set ss. pi_ID (si_peer (mgr_sess m s)) = p" "GetSession m p = Some c"
  shows "\<exists>b. GetSession (add_all m ss) p = Some b \<and> b \<in> insert c (set ss) \<and>
    (\<forall>s \<in> insert c (set ss). \<not> better (mgr_sess m s) (mgr_sess m b))"
  using assms
proof (induction ss arbitrary: m c)
  case Nil
  then show ?case by (auto dest: better_asym)
next
  case (Cons s ss)
  let ?m = "snd (AddSession m s)"
  have p: "pi_ID (si_peer (mgr_sess m s)) = p" using Cons.prems(1) by simp
  have eq: "better (mgr_sess ?m x) (mgr_sess ?m y) = better (mgr_sess m x) (mgr_sess m y)" for x y
    by (intro better_cong AddSession_score)
  have rest: "\<forall>s \<in> set ss. pi_ID (si_peer (mgr_sess ?m s)) = p" using Cons.prems(1) by (simp add: AddSession_info)
  show ?case
  proof (cases "better (mgr_sess m s) (mgr_sess m c)")
    case True
    then have "GetSession ?m p = Some s"
      using AddSession_elected(2) [of m s c] p Cons.prems(2) by simp
    from Cons.IH [OF rest this] obtain b where b: "GetSession (add_all ?m ss) p = Some b"
        "b \<in> insert s (set ss)" "\<And>x. x \<in> insert s (set ss) \<Longrightarrow> \<not> better (mgr_sess m x) (mgr_sess m b)"
      by (auto simp: eq)
    have "\<not> better (mgr_sess m c) (mgr_sess m b)"
      using not_better_trans better_asym [OF True] b(3) [of s] by blast
    with b show ?thesis by auto
  next
    case False
    then have "GetSession ?m p = Some c"
      using AddSession_rejected [of m s c] p Cons.prems(2) by simp
    from Cons.IH [OF rest this] obtain b where b: "GetSession (add_all ?m ss) p = Some b"
        "b \<in> insert c (set ss)" "\<And>x. x \<in> insert c (set ss) \<Longrightarrow> \<not> better (mgr_sess m x) (mgr_sess m b)"
      by (auto simp: eq)
    have "\<not> better (mgr_sess m s) (mgr_sess m b)"
      using not_better_trans [OF False] b(3) [of c] by blast
    with b show ?thesis by auto
  qed
qed

section \<open>Properties\<close>

text \<open>
  C5: in every state that adding (fresh) sessions, closing and rebinding peers and the closing
  goroutines lead to, in any order, a session is canonical for at most one peer, and every
  session that was ever added is canonical, closed, or waiting for a goroutine to close it: no
  link is leaked.
\<close>

theorem manager_no_leak:
  assumes "mgr_reach S m"
  shows "(GetSession m p = Some s \<longrightarrow> GetSession m q = Some s \<longrightarrow> p = q) \<and>
    (s \<in> S \<longrightarrow> (\<exists>p. GetSession m p = Some s) \<or> si_closed (mgr_sess m s) \<or> s \<in> set (mgr_pending m))"
  using reach_inv [OF assms]
  by (auto simp: mgr_inv_def unshared_def accounted_def canonicals_def closed_sids_def)

definition sample_info :: "sid \<Rightarrow> SessInfo" where
  "sample_info s = \<lparr>si_peer = \<lparr>pi_ID = ''n1'', pi_Addr = ''a'', pi_Reachable = True\<rparr>,
     si_kind = (if s = 1 then KindQUICDirect else KindTCPDirect), si_RTT = 0,
     si_EstablishedAt = int s, si_mutable = True, si_closed = False\<rparr>"

theorem manager_no_leak_witness:
  "let m = snd (AddSession (snd (AddSession (NewManager sample_info) 0)) 1)
   in (\<exists>p. GetSession m p = Some 0) \<or> si_closed (mgr_sess m 0) \<or> 0 \<in> set (mgr_pending m)"
proof -
  have "mgr_reach (insert 1 (insert 0 {})) (snd (AddSession (snd (AddSession (NewManager sample_info) 0)) 1))"
    by (intro mgr_add mgr_new) simp_all
  from manager_no_leak [OF this, where s = 0] show ?thesis by (simp add: Let_def)
qed

text \<open>
  C6: whatever the order in which links to one peer come up, the session the manager keeps as
  canonical is the best of all of them: none of the added sessions is better by rank of the
  transport, then round-trip time, then age.
\<close>

theorem manager_elects_best:
  assumes "ss \<noteq> []" "\<forall>s \<in> set ss. pi_ID (si_peer (sess s)) = p"
  shows "\<exists>b \<in> set ss. GetSession (add_all (NewManager sess) ss) p = Some b \<and>
    (\<forall>s \<in> set ss. \<not> better (sess s) (sess b))"
proof -
  obtain s rest where ss: "ss = s # rest" using assms(1) by (cases ss) auto
  let ?m = "snd (AddSession (NewManager sess) s)"
  have none: "GetSession (NewManager sess) q = None" for q by (simp add: NewManager_def GetSession_def)
  have m: "mgr_sess ?m = sess" "GetSession ?m p = Some s"
    using AddSession_first(2,4) [of "NewManager sess" s] none assms(2) ss
    by (auto simp: NewManager_def)
  have "\<exists>b. GetSession (add_all ?m rest) p = Some b \<and> b \<in> insert s (set rest) \<and>
    (\<forall>t \<in> insert s (set rest). \<not> better (mgr_sess ?m t) (mgr_sess ?m b))"
    using assms(2) ss m by (intro add_all_elects) auto
  then show ?thesis using ss m by auto
qed

theorem manager_elects_best_witness:
  "GetSession (add_all (NewManager sample_info) [0, 1, 2]) ''n1'' = Some 1"
proof -
  have "\<exists>b \<in> set [0, 1, 2]. GetSession (add_all (NewManager sample_info) [0, 1, 2]) ''n1'' = Some b \<and>
    (\<forall>s \<in> set [0, 1, 2]. \<not> better (sample_info s) (sample_info b))"
    by (rule manager_elects_best) (simp_all add: sample_info_def)
  then show ?thesis by (auto simp: better_def sample_info_def simp del: add_all.simps)
qed

text \<open>
  Rebinding an authenticated peer frees the temporary identity, and the new identity keeps
  the better of the moved session and the one it had; the result says whether the moved session
  is now the canonical one, and the loser is the one waiting to be closed.
\<close>

theorem rebind_keeps_better:
  assumes "oldID \<noteq> newID" "newID \<noteq> []" "GetSession m oldID = Some s"
    and "RebindPeer m oldID newID = (ok, m')"
  shows "GetSession m' oldID = None \<and>
    (GetSession m newID = None \<longrightarrow> ok \<and> GetSession m' newID = Some s) \<and>
    (\<forall>cur. GetSession m newID = Some cur \<longrightarrow> (ok = better (mgr_sess m s) (mgr_sess m cur)) \<and>
      GetSession m' newID = Some (if ok then s else cur) \<and>
      mgr_pending m' = mgr_pending m @ [if ok then cur else s]) \<and>
    (\<forall>p. p \<noteq> oldID \<longrightarrow> p \<noteq> newID \<longrightarrow> GetSession m' p = GetSession m p) \<and>
    (si_mutable (mgr_sess m s) \<longrightarrow> pi_ID (si_peer (mgr_sess m' s)) = newID)"
proof -
  note e = RebindPeer_effect [OF assms(1,2,3), unfolded assms(4) fst_conv snd_conv]
  have sc: "score (mgr_sess (mgr_SetPeer m1 s newID) t) = score (mgr_sess m1 t)" for m1 t
    by (simp add: mgr_SetPeer_def score_def)
  have bt: "better (mgr_sess (mgr_SetPeer m1 s newID) s) (mgr_sess (mgr_SetPeer m1 s newID) t) =
      better (mgr_sess m1 s) (mgr_sess m1 t)" for m1 t
    by (intro better_cong sc)
  have "GetSession m' oldID = None" using e assms(1) by auto
  moreover have "GetSession m newID = None \<longrightarrow> ok \<and> GetSession m' newID = Some s" using e by auto
  moreover have "GetSession m' p = GetSession m p" if "p \<noteq> oldID" "p \<noteq> newID" for p using e that by auto
  moreover have "(ok = better (mgr_sess m s) (mgr_sess m cur)) \<and>
      GetSession m' newID = Some (if ok then s else cur) \<and>
      mgr_pending m' = mgr_pending m @ [if ok then cur else s]" if "GetSession m newID = Some cur" for cur
    using that assms(4) e assms(1) unfolding RebindPeer_moved [OF assms(1,2,3)]
    by (auto simp: Let_def bt split: if_splits)
  moreover have "si_mutable (mgr_sess m s) \<longrightarrow> pi_ID (si_peer (mgr_sess m' s)) = newID"
    using assms(4) unfolding RebindPeer_moved [OF assms(1,2,3)]
    by (auto simp: Let_def mgr_SetPeer_def split: option.splits if_splits)
  ultimately show ?thesis by blast
qed

theorem rebind_keeps_better_witness:
  "GetSession (snd (RebindPeer (snd (AddSession (NewManager sample_info) 0)) ''n1'' ''pk:x'')) ''pk:x'' = Some 0"
proof -
  let ?m = "snd (AddSession (NewManager sample_info) 0)"
  have none: "GetSession (NewManager sample_info) q = None" for q by (simp add: NewManager_def GetSession_def)
  have "pi_ID (si_peer (mgr_sess (NewManager sample_info) 0)) = ''n1''"
    by (simp add: NewManager_def sample_info_def)
  then have g: "GetSession ?m = (GetSession (NewManager sample_info))(''n1'' \<mapsto> 0)"
    using AddSession_first(2) [of "NewManager sample_info" 0] none by simp
  show ?thesis
    using rebind_keeps_better [of "''n1''" "''pk:x''" ?m 0 "fst (RebindPeer ?m ''n1'' ''pk:x'')"
        "snd (RebindPeer ?m ''n1'' ''pk:x'')"] g none by simp
qed

end
