(* ===== verification/Peers.thy ===== *)
theory Peers
  imports Complex_Main Memkv SessionManager
begin

text \<open>
  The peer and route store of \<open>pkg/peers/store.go\<close>: JSON documents about peers, learned paths
  and route candidates, kept in the key-value store, with two in-memory indexes. What
  \<open>encoding/json\<close> does is the parameter \<open>J\<close>: a marshalling and an unmarshalling function per
  document type (the latter returns the value filled in from a zero value, and whether it
  succeeded); the theorems that read a document back say for which value they rely on the
  round trip. \<open>clk\<close> gives the successive readings of the clock an operation takes, in
  nanoseconds. Floating-point fields are rational numbers.
\<close>

section \<open>Documents\<close>

record RouteRef =
  rr_ID :: string
  rr_Version :: uint32
  rr_Hash :: "byte list"

record PeerMeta =
  pm_ID :: PeerID
  pm_NodeName :: string
  pm_Alg :: string
  pm_PublicKey :: "byte list"
  pm_Addresses :: "string list"
  pm_Reachable :: bool
  pm_LastSeen :: int
  pm_Score :: rat
  pm_RTTms :: uint32
  pm_LossRatio :: rat
  pm_Labels :: "string \<Rightarrow> string option"
  pm_Routes :: "RouteRef list"
  pm_Kind :: string
  pm_Handshake :: string
  pm_MsgsIn :: uint64
  pm_MsgsOut :: uint64
  pm_BytesIn :: uint64
  pm_BytesOut :: uint64
  pm_LastHelloTs :: int
  pm_LastAckTs :: int
  pm_ConnectedDirectIDs :: "string list"
  pm_ViaPath :: "string list"

definition zero_meta :: PeerMeta where
  "zero_meta = \<lparr>pm_ID = [], pm_NodeName = [], pm_Alg = [], pm_PublicKey = [], pm_Addresses = [],
     pm_Reachable = False, pm_LastSeen = 0, pm_Score = 0, pm_RTTms = 0, pm_LossRatio = 0,
     pm_Labels = Map.empty, pm_Routes = [], pm_Kind = [], pm_Handshake = [], pm_MsgsIn = 0,
     pm_MsgsOut = 0, pm_BytesIn = 0, pm_BytesOut = 0, pm_LastHelloTs = 0, pm_LastAckTs = 0,
     pm_ConnectedDirectIDs = [], pm_ViaPath = []\<rparr>"

record RouteTo =
  rt_Target :: string
  rt_Path :: "string list"
  rt_NextHop :: string
  rt_Metric :: uint32
  rt_LearnedFrom :: string
  rt_Updated :: int

definition zero_route :: RouteTo where
  "zero_route = \<lparr>rt_Target = [], rt_Path = [], rt_NextHop = [], rt_Metric = 0,
     rt_LearnedFrom = [], rt_Updated = 0\<rparr>"

record RouteCandidate =
  rc_Target :: string
  rc_Path :: "string list"
  rc_NextHop :: string
  rc_Metric :: uint32
  rc_Source :: string
  rc_LearnedFrom :: string
  rc_Health :: string
  rc_Updated :: int
  rc_Expires :: int

record Quality =
  qu_RTT :: int
  qu_LossRatio :: rat
  qu_Jitter :: int
  qu_EstablishedAt :: int
  qu_LastSeen :: "int option"
  qu_Score :: rat

record 'd json =
  js_Marshal :: "'d \<Rightarrow> byte list"
  js_Unmarshal :: "byte list \<Rightarrow> 'd \<times> bool"

record peers_json =
  pj_meta :: "PeerMeta json"
  pj_route :: "RouteTo json"
  pj_cands :: "RouteCandidate list json"

text \<open>The value survives being written and read.\<close>

definition js_keeps :: "'d json \<Rightarrow> 'd \<Rightarrow> bool" where
  "js_keeps J x \<longleftrightarrow> js_Unmarshal J (js_Marshal J x) = (x, True)"

section \<open>State\<close>

record PeerStore =
  pst_kv :: Store
  pst_peerIndex :: "string set"
  pst_routeIndex :: "string set"

definition peers_NewStore :: "Store \<Rightarrow> PeerStore" where
  "peers_NewStore kv = \<lparr>pst_kv = kv, pst_peerIndex = {}, pst_routeIndex = {}\<rparr>"

definition keyPeer :: "PeerID \<Rightarrow> string" where "keyPeer pid = ''peer:'' @ pid"
definition keyRoutePath :: "string \<Rightarrow> string" where "keyRoutePath target = ''routepath:'' @ target"
definition keyRouteCands :: "string \<Rightarrow> string" where "keyRouteCands target = ''routecands:'' @ target"

definition defaultPeerTTL :: int where "defaultPeerTTL = 300000000000"

definition unixMilli :: "int \<Rightarrow> int" where "unixMilli ns = ns div 1000000"

type_synonym clock = "nat \<Rightarrow> int"

definition index_peer :: "PeerStore \<Rightarrow> string \<Rightarrow> PeerStore" where
  "index_peer s pid = s\<lparr>pst_peerIndex := insert pid (pst_peerIndex s)\<rparr>"

text \<open>\<open>s.kv.Update\<close> with a closure that reads, changes and writes a document.\<close>

definition edit :: "'d json \<Rightarrow> ('d \<Rightarrow> 'd) \<Rightarrow> byte list \<Rightarrow> byte list" where
  "edit J f old = js_Marshal J (f (fst (js_Unmarshal J old)))"

definition kv_update :: "PeerStore \<Rightarrow> string \<Rightarrow> (byte list \<Rightarrow> byte list) \<Rightarrow> int \<Rightarrow> PeerStore" where
  "kv_update s key fn now = s\<lparr>pst_kv := snd (Update (pst_kv s) key fn now)\<rparr>"

section \<open>Peers\<close>

definition Upsert :: "peers_json \<Rightarrow> PeerStore \<Rightarrow> PeerMeta \<Rightarrow> clock \<Rightarrow> PeerStore" where
  "Upsert J s meta clk =
     (let b = js_Marshal (pj_meta J) meta;
          s = s\<lparr>pst_kv := snd (Set (pst_kv s) (keyPeer (pm_ID meta)) b defaultPeerTTL (clk 0))\<rparr>
      in index_peer s (pm_ID meta))"

definition peers_Get :: "peers_json \<Rightarrow> PeerStore \<Rightarrow> PeerID \<Rightarrow> clock \<Rightarrow> PeerMeta option \<times> PeerStore" where
  "peers_Get J s pid clk =
     (case Get (pst_kv s) (keyPeer pid) (clk 0) (clk 1) of
        (None, kv) \<Rightarrow> (None, s\<lparr>pst_kv := kv\<rparr>)
      | (Some b, kv) \<Rightarrow>
          (case js_Unmarshal (pj_meta J) b of
             (pm, ok) \<Rightarrow> (if ok then Some pm else None, s\<lparr>pst_kv := kv\<rparr>)))"

definition touch_meta :: "PeerID \<Rightarrow> string \<Rightarrow> int \<Rightarrow> PeerMeta \<Rightarrow> PeerMeta" where
  "touch_meta pid addr when pm =
     (let pm = pm\<lparr>pm_ID := pid, pm_LastSeen := unixMilli when\<rparr> in
      if addr \<noteq> [] \<and> addr \<notin> set (pm_Addresses pm)
      then pm\<lparr>pm_Addresses := pm_Addresses pm @ [addr]\<rparr> else pm)"

text \<open>\<open>when = None\<close> is the zero time; the closure then reads the clock itself.\<close>

definition Touch :: "peers_json \<Rightarrow> PeerStore \<Rightarrow> PeerID \<Rightarrow> string \<Rightarrow> int option \<Rightarrow> clock \<Rightarrow> PeerStore" where
  "Touch J s pid addr when clk =
     (let w = (case when of None \<Rightarrow> clk 1 | Some w \<Rightarrow> w);
          s = kv_update s (keyPeer pid) (edit (pj_meta J) (touch_meta pid addr w)) (clk 0);
          s = s\<lparr>pst_kv := snd (Expire (pst_kv s) (keyPeer pid) defaultPeerTTL (clk 2) (clk 3))\<rparr>
      in index_peer s pid)"

definition quality_meta :: "PeerID \<Rightarrow> Quality \<Rightarrow> PeerMeta \<Rightarrow> PeerMeta" where
  "quality_meta pid q pm =
     (let pm = pm\<lparr>pm_ID := pid\<rparr>;
          pm = (if qu_RTT q > 0 then pm\<lparr>pm_RTTms := of_int (go_div (qu_RTT q) 1000000)\<rparr> else pm);
          pm = (if qu_LossRatio q \<ge> 0 then pm\<lparr>pm_LossRatio := qu_LossRatio q\<rparr> else pm);
          pm = pm\<lparr>pm_Score := qu_Score q\<rparr>
      in case qu_LastSeen q of None \<Rightarrow> pm | Some t \<Rightarrow> pm\<lparr>pm_LastSeen := unixMilli t\<rparr>)"

definition RecordQuality :: "peers_json \<Rightarrow> PeerStore \<Rightarrow> PeerID \<Rightarrow> Quality \<Rightarrow> clock \<Rightarrow> PeerStore" where
  "RecordQuality J s pid q clk = kv_update s (keyPeer pid) (edit (pj_meta J) (quality_meta pid q)) (clk 0)"

definition exchange_meta :: "PeerID \<Rightarrow> uint64 \<Rightarrow> uint64 \<Rightarrow> uint64 \<Rightarrow> uint64 \<Rightarrow> PeerMeta \<Rightarrow> PeerMeta" where
  "exchange_meta pid inBytes outBytes inMsgs outMsgs pm =
     pm\<lparr>pm_ID := pid, pm_MsgsIn := pm_MsgsIn pm + inMsgs, pm_MsgsOut := pm_MsgsOut pm + outMsgs,
        pm_BytesIn := pm_BytesIn pm + inBytes, pm_BytesOut := pm_BytesOut pm + outBytes\<rparr>"

definition RecordExchange ::
  "peers_json \<Rightarrow> PeerStore \<Rightarrow> PeerID \<Rightarrow> uint64 \<Rightarrow> uint64 \<Rightarrow> uint64 \<Rightarrow> uint64 \<Rightarrow> clock \<Rightarrow> PeerStore" where
  "RecordExchange J s pid inBytes outBytes inMsgs outMsgs clk =
     kv_update s (keyPeer pid)
       (edit (pj_meta J) (exchange_meta pid inBytes outBytes inMsgs outMsgs)) (clk 0)"

definition add_direct :: "PeerID \<Rightarrow> PeerID \<Rightarrow> PeerMeta \<Rightarrow> PeerMeta" where
  "add_direct pid peer pm =
     (let pm = pm\<lparr>pm_ID := pid\<rparr> in
      if peer \<in> set (pm_ConnectedDirectIDs pm) then pm
      else pm\<lparr>pm_ConnectedDirectIDs := pm_ConnectedDirectIDs pm @ [peer]\<rparr>)"

definition AddConnectedDirect :: "peers_json \<Rightarrow> PeerStore \<Rightarrow> PeerID \<Rightarrow> PeerID \<Rightarrow> clock \<Rightarrow> PeerStore" where
  "AddConnectedDirect J s pid peer clk =
     (if pid = peer \<or> pid = [] \<or> peer = [] then s
      else let s = kv_update s (keyPeer pid) (edit (pj_meta J) (add_direct pid peer)) (clk 0)
           in index_peer (index_peer s pid) peer)"

text \<open>A nil and an empty list of neighbours are both left as they are (the document is rewritten
  for the empty one, which cannot come out of \<open>omitempty\<close> documents).\<close>

definition remove_direct :: "peers_json \<Rightarrow> PeerID \<Rightarrow> byte list \<Rightarrow> byte list" where
  "remove_direct J peer old =
     (let pm = fst (js_Unmarshal (pj_meta J) old) in
      if pm_ConnectedDirectIDs pm = [] then old
      else js_Marshal (pj_meta J)
        (pm\<lparr>pm_ConnectedDirectIDs := filter (\<lambda>v. v \<noteq> peer) (pm_ConnectedDirectIDs pm)\<rparr>))"

definition RemoveConnectedDirect :: "peers_json \<Rightarrow> PeerStore \<Rightarrow> PeerID \<Rightarrow> PeerID \<Rightarrow> clock \<Rightarrow> PeerStore" where
  "RemoveConnectedDirect J s pid peer clk = kv_update s (keyPeer pid) (remove_direct J peer) (clk 0)"

text \<open>\<open>ListPeerIDs\<close> yields the index in some order \<open>ids\<close>.\<close>

definition ListPeerIDs :: "PeerStore \<Rightarrow> string list \<Rightarrow> bool" where
  "ListPeerIDs s ids \<longleftrightarrow> enumerates ids (pst_peerIndex s)"

fun remove_from_all :: "peers_json \<Rightarrow> PeerStore \<Rightarrow> PeerID list \<Rightarrow> PeerID \<Rightarrow> clock \<Rightarrow> PeerStore" where
  "remove_from_all J s [] pid clk = s"
| "remove_from_all J s (p # ps) pid clk =
     remove_from_all J (RemoveConnectedDirect J s p pid clk) ps pid (\<lambda>n. clk (Suc n))"

definition DeletePeer :: "peers_json \<Rightarrow> PeerStore \<Rightarrow> PeerID \<Rightarrow> PeerID list \<Rightarrow> clock \<Rightarrow> PeerStore" where
  "DeletePeer J s pid ids clk =
     (let s = s\<lparr>pst_kv := snd (Delete (pst_kv s) (keyPeer pid))\<rparr>;
          s = s\<lparr>pst_peerIndex := pst_peerIndex s - {pid}\<rparr>
      in remove_from_all J s ids pid clk)"

definition ExpirePeer :: "PeerStore \<Rightarrow> PeerID \<Rightarrow> int \<Rightarrow> clock \<Rightarrow> PeerStore" where
  "ExpirePeer s pid ttl clk = s\<lparr>pst_kv := snd (Expire (pst_kv s) (keyPeer pid) ttl (clk 0) (clk 1))\<rparr>"

definition SetViaPathForPeer :: "peers_json \<Rightarrow> PeerStore \<Rightarrow> PeerID \<Rightarrow> PeerID list \<Rightarrow> clock \<Rightarrow> PeerStore" where
  "SetViaPathForPeer J s pid path clk =
     kv_update s (keyPeer pid) (edit (pj_meta J) (\<lambda>pm. pm\<lparr>pm_ID := pid, pm_ViaPath := path\<rparr>)) (clk 0)"

definition AdvertiseRoutes :: "peers_json \<Rightarrow> PeerStore \<Rightarrow> PeerID \<Rightarrow> RouteRef list \<Rightarrow> clock \<Rightarrow> PeerStore" where
  "AdvertiseRoutes J s pid routes clk =
     kv_update s (keyPeer pid) (edit (pj_meta J) (\<lambda>pm. pm\<lparr>pm_ID := pid, pm_Routes := routes\<rparr>)) (clk 0)"

section \<open>Learned paths\<close>

definition new_route :: "string \<Rightarrow> PeerID \<Rightarrow> string list \<Rightarrow> uint32 \<Rightarrow> int \<Rightarrow> RouteTo" where
  "new_route target learnedFrom prevPath metric now =
     \<lparr>rt_Target = target, rt_Path = prevPath @ [learnedFrom], rt_NextHop = learnedFrom,
      rt_Metric = metric, rt_LearnedFrom = learnedFrom, rt_Updated = now\<rparr>"

definition replaces :: "RouteTo \<Rightarrow> RouteTo \<Rightarrow> bool" where
  "replaces new cur \<longleftrightarrow> rt_Target cur = [] \<or> rt_Metric new < rt_Metric cur \<or>
     rt_Metric new = rt_Metric cur \<and> length (rt_Path new) < length (rt_Path cur)"

text \<open>The variables \<open>out\<close> and \<open>updated\<close> are set by the closure, which runs on a live entry only.\<close>

definition LearnPath ::
  "peers_json \<Rightarrow> PeerStore \<Rightarrow> string \<Rightarrow> PeerID \<Rightarrow> string list \<Rightarrow> uint32 \<Rightarrow> clock \<Rightarrow>
   (RouteTo \<times> bool) \<times> PeerStore" where
  "LearnPath J s target learnedFrom prevPath metric clk =
     (let now = unixMilli (clk 0); key = keyRoutePath target;
          new = new_route target learnedFrom prevPath metric now;
          cur_of = (\<lambda>old. fst (js_Unmarshal (pj_route J) old));
          fn = (\<lambda>old. if replaces new (cur_of old) then js_Marshal (pj_route J) new else old);
          res = (case shardFor (pst_kv s) key key of
              None \<Rightarrow> (zero_route, False)
            | Some e \<Rightarrow>
                if expired e (clk 1) then (zero_route, False)
                else if replaces new (cur_of (ent_val e)) then (new, True)
                else (cur_of (ent_val e), False))
      in (res, kv_update s key fn (clk 1)))"

definition LearnPeerPath ::
  "peers_json \<Rightarrow> PeerStore \<Rightarrow> PeerID \<Rightarrow> PeerID \<Rightarrow> PeerID list \<Rightarrow> uint32 \<Rightarrow> clock \<Rightarrow>
   (RouteTo \<times> bool) \<times> PeerStore" where
  "LearnPeerPath J s target learnedFrom prevPath metric clk =
     LearnPath J s (''peer:'' @ target) learnedFrom prevPath metric clk"

definition GetPath :: "peers_json \<Rightarrow> PeerStore \<Rightarrow> string \<Rightarrow> clock \<Rightarrow> RouteTo option \<times> PeerStore" where
  "GetPath J s target clk =
     (case Get (pst_kv s) (keyRoutePath target) (clk 0) (clk 1) of
        (None, kv) \<Rightarrow> (None, s\<lparr>pst_kv := kv\<rparr>)
      | (Some b, kv) \<Rightarrow>
          (case js_Unmarshal (pj_route J) b of
             (r, ok) \<Rightarrow> (if ok then Some r else None, s\<lparr>pst_kv := kv\<rparr>)))"

section \<open>Route candidates\<close>

definition same_origin :: "RouteCandidate \<Rightarrow> RouteCandidate \<Rightarrow> bool" where
  "same_origin c rc \<longleftrightarrow> rc_LearnedFrom c = rc_LearnedFrom rc \<and> rc_Source c = rc_Source rc"

fun merge_loop :: "int \<Rightarrow> RouteCandidate \<Rightarrow> RouteCandidate list \<Rightarrow> bool \<Rightarrow> RouteCandidate list \<times> bool" where
  "merge_loop now rc [] replaced = ([], replaced)"
| "merge_loop now rc (c # cs) replaced =
     (if rc_Expires c \<le> now then merge_loop now rc cs replaced
      else if same_origin c rc then
        (if \<not> replaced then apfst (Cons rc) (merge_loop now rc cs True) else merge_loop now rc cs replaced)
      else apfst (Cons c) (merge_loop now rc cs replaced))"

definition merge_candidates :: "int \<Rightarrow> RouteCandidate \<Rightarrow> RouteCandidate list \<Rightarrow> RouteCandidate list" where
  "merge_candidates now rc arr =
     (case merge_loop now rc arr False of (keep, replaced) \<Rightarrow> if replaced then keep else keep @ [rc])"

definition UpsertRouteCandidate :: "peers_json \<Rightarrow> PeerStore \<Rightarrow> RouteCandidate \<Rightarrow> int \<Rightarrow> clock \<Rightarrow> PeerStore" where
  "UpsertRouteCandidate J s rc ttl clk =
     (let now = unixMilli (clk 0);
          ttl = (if ttl \<le> 0 then 60000000000 else ttl);
          rc = rc\<lparr>rc_Updated := now, rc_Expires := i64 (now + go_div ttl 1000000)\<rparr>;
          s = kv_update s (keyRouteCands (rc_Target rc)) (edit (pj_cands J) (merge_candidates now rc)) (clk 1)
      in s\<lparr>pst_routeIndex := insert (rc_Target rc) (pst_routeIndex s)\<rparr>)"

definition confirm :: "PeerID \<Rightarrow> string \<Rightarrow> bool \<Rightarrow> int \<Rightarrow> int \<Rightarrow> RouteCandidate \<Rightarrow> RouteCandidate" where
  "confirm learnedFrom source up ttl now c =
     (if rc_LearnedFrom c = learnedFrom \<and> rc_Source c = source then
        let c = c\<lparr>rc_Health := (if up then ''up'' else ''down'')\<rparr>;
            c = (if ttl > 0 then c\<lparr>rc_Expires := i64 (now + go_div ttl 1000000)\<rparr> else c)
        in c\<lparr>rc_Updated := now\<rparr>
      else c)"

definition ConfirmRoute ::
  "peers_json \<Rightarrow> PeerStore \<Rightarrow> string \<Rightarrow> PeerID \<Rightarrow> string \<Rightarrow> bool \<Rightarrow> int \<Rightarrow> clock \<Rightarrow> PeerStore" where
  "ConfirmRoute J s target learnedFrom source up ttl clk =
     (let now = unixMilli (clk 0) in
      kv_update s (keyRouteCands target)
        (edit (pj_cands J) (map (confirm learnedFrom source up ttl now))) (clk 1))"

definition GetRouteCandidates ::
  "peers_json \<Rightarrow> PeerStore \<Rightarrow> string \<Rightarrow> clock \<Rightarrow> RouteCandidate list \<times> PeerStore" where
  "GetRouteCandidates J s target clk =
     (let now = unixMilli (clk 0) in
      case Get (pst_kv s) (keyRouteCands target) (clk 1) (clk 2) of
        (None, kv) \<Rightarrow> ([], s\<lparr>pst_kv := kv\<rparr>)
      | (Some b, kv) \<Rightarrow>
          (filter (\<lambda>c. rc_Expires c > now) (fst (js_Unmarshal (pj_cands J) b)), s\<lparr>pst_kv := kv\<rparr>))"

definition routeScore :: "RouteCandidate \<Rightarrow> rat" where
  "routeScore c =
     (let h = (if rc_Health c = ''up'' then 1 else if rc_Health c = ''unknown'' then 1 / 2 else 0);
          metric = of_nat (unat (rc_Metric c));
          metric = (if metric \<le> 0 then 1 else metric);
          plen = of_nat (length (rc_Path c));
          fresh = of_int (rc_Updated c) / 10 ^ 12
      in h * 10 + 1000 / (metric + plen) + fresh)"

fun best_loop :: "RouteCandidate \<Rightarrow> RouteCandidate list \<Rightarrow> RouteCandidate" where
  "best_loop best [] = best"
| "best_loop best (c # cs) = best_loop (if routeScore c > routeScore best then c else best) cs"

definition BestRouteCandidate ::
  "peers_json \<Rightarrow> PeerStore \<Rightarrow> string \<Rightarrow> clock \<Rightarrow> RouteCandidate option \<times> PeerStore" where
  "BestRouteCandidate J s target clk =
     (case GetRouteCandidates J s target clk of
        ([], s) \<Rightarrow> (None, s)
      | (c # cs, s) \<Rightarrow> (Some (best_loop c cs), s))"

definition ListRouteTargets :: "PeerStore \<Rightarrow> string list \<Rightarrow> bool" where
  "ListRouteTargets s ts \<longleftrightarrow> enumerates ts (pst_routeIndex s)"

section \<open>Runs of the store\<close>

text \<open>
  What the node does to the store, in the order it happens: the operations above, turns of the
  expirer of the shared key-value store, and the worker registry's use of it under its own keys.
\<close>

datatype peers_op =
    PUpsert PeerMeta clock
  | PGet PeerID clock
  | PTouch PeerID string "int option" clock
  | PQuality PeerID Quality clock
  | PExchange PeerID uint64 uint64 uint64 uint64 clock
  | PAddDirect PeerID PeerID clock
  | PRemoveDirect PeerID PeerID clock
  | PDelete PeerID "PeerID list" clock
  | PExpire PeerID int clock
  | PViaPath PeerID "PeerID list" clock
  | PAdvertise PeerID "RouteRef list" clock
  | PLearn string PeerID "string list" uint32 clock
  | PGetPath string clock
  | PCandidate RouteCandidate int clock
  | PConfirm string PeerID string bool int clock
  | PCandidates string clock
  | PExpirer int int
  | PRegSet string "byte list" int
  | PRegUpdate string "byte list \<Rightarrow> byte list" int
  | PRegDelete string
  | PRegGet string int int

definition reg_key :: "string \<Rightarrow> string" where "reg_key wid = ''reg:worker:'' @ wid"

fun peers_exec :: "peers_json \<Rightarrow> PeerStore \<Rightarrow> peers_op \<Rightarrow> PeerStore" where
  "peers_exec J s (PUpsert pm clk) = Upsert J s pm clk"
| "peers_exec J s (PGet p clk) = snd (peers_Get J s p clk)"
| "peers_exec J s (PTouch p a w clk) = Touch J s p a w clk"
| "peers_exec J s (PQuality p q clk) = RecordQuality J s p q clk"
| "peers_exec J s (PExchange p bi bo mi mo clk) = RecordExchange J s p bi bo mi mo clk"
| "peers_exec J s (PAddDirect p q clk) = AddConnectedDirect J s p q clk"
| "peers_exec J s (PRemoveDirect p q clk) = RemoveConnectedDirect J s p q clk"
| "peers_exec J s (PDelete p ids clk) = DeletePeer J s p ids clk"
| "peers_exec J s (PExpire p ttl clk) = ExpirePeer s p ttl clk"
| "peers_exec J s (PViaPath p path clk) = SetViaPathForPeer J s p path clk"
| "peers_exec J s (PAdvertise p rs clk) = AdvertiseRoutes J s p rs clk"
| "peers_exec J s (PLearn t p path m clk) = snd (LearnPath J s t p path m clk)"
| "peers_exec J s (PGetPath t clk) = snd (GetPath J s t clk)"
| "peers_exec J s (PCandidate rc ttl clk) = UpsertRouteCandidate J s rc ttl clk"
| "peers_exec J s (PConfirm t p src up ttl clk) = ConfirmRoute J s t p src up ttl clk"
| "peers_exec J s (PCandidates t clk) = snd (GetRouteCandidates J s t clk)"
| "peers_exec J s (PExpirer now nowN) = s\<lparr>pst_kv := snd (expirer_turn (pst_kv s) now nowN)\<rparr>"
| "peers_exec J s (PRegSet w v now) = s\<lparr>pst_kv := snd (Set (pst_kv s) (reg_key w) v 0 now)\<rparr>"
| "peers_exec J s (PRegUpdate w f now) = s\<lparr>pst_kv := snd (Update (pst_kv s) (reg_key w) f now)\<rparr>"
| "peers_exec J s (PRegDelete w) = s\<lparr>pst_kv := snd (Delete (pst_kv s) (reg_key w))\<rparr>"
| "peers_exec J s (PRegGet w now now2) = s\<lparr>pst_kv := snd (Get (pst_kv s) (reg_key w) now now2)\<rparr>"

definition peers_run :: "peers_json \<Rightarrow> PeerStore \<Rightarrow> peers_op list \<Rightarrow> PeerStore" where
  "peers_run J s ops = foldl (peers_exec J) s ops"

definition upserted :: "peers_op list \<Rightarrow> PeerID set" where
  "upserted ops = (\<Union>x\<in>set ops. case x of PUpsert pm clk \<Rightarrow> {pm_ID pm} | _ \<Rightarrow> {})"

section \<open>Keys\<close>

lemma keys_inject [simp]:
  "keyPeer a = keyPeer b \<longleftrightarrow> a = b" "keyRouteCands a = keyRouteCands b \<longleftrightarrow> a = b"
  "keyRoutePath a = keyRoutePath b \<longleftrightarrow> a = b" "reg_key a = reg_key b \<longleftrightarrow> a = b"
  by (simp_all add: keyPeer_def keyRouteCands_def keyRoutePath_def reg_key_def)

lemma keys_differ [simp]:
  "keyPeer a \<noteq> keyRouteCands b" "keyPeer a \<noteq> keyRoutePath b" "keyPeer a \<noteq> reg_key b"
  "keyRouteCands b \<noteq> keyPeer a" "keyRoutePath b \<noteq> keyPeer a" "reg_key b \<noteq> keyPeer a"
  "keyRouteCands a \<noteq> reg_key b" "keyRoutePath a \<noteq> reg_key b" "keyRouteCands a \<noteq> keyRoutePath b"
  by (simp_all add: keyPeer_def keyRouteCands_def keyRoutePath_def reg_key_def)

section \<open>What is in the store\<close>

text \<open>The documents present are those of peers in \<open>U\<close> and of the registry.\<close>

definition peers_only :: "PeerID set \<Rightarrow> PeerStore \<Rightarrow> bool" where
  "peers_only U s \<longleftrightarrow> kv_plain (pst_kv s) \<and> dom (kv_map (pst_kv s)) \<subseteq> keyPeer ` U \<union> range reg_key"

lemma only_NewStore:
  "opt_Shards opts < 2 ^ 63 \<Longrightarrow> opt_MaxBytes opts = 0 \<Longrightarrow> opt_ExpireJitter opts = 0 \<Longrightarrow>
   peers_only {} (peers_NewStore (New opts))"
  by (simp add: peers_only_def peers_NewStore_def plain_New kv_map_New)

text \<open>Only \<open>Set\<close> can add a key.\<close>

lemma only_shrinks:
  assumes "peers_only U s" "kv_plain (pst_kv t)"
    "\<And>k. kv_map (pst_kv s) k = None \<Longrightarrow> kv_map (pst_kv t) k = None"
  shows "peers_only U t"
proof -
  have "dom (kv_map (pst_kv t)) \<subseteq> dom (kv_map (pst_kv s))" using assms(3) by (metis domIff subsetI)
  with assms(1,2) show ?thesis unfolding peers_only_def by blast
qed

lemma only_Update: "peers_only U s \<Longrightarrow> peers_only U (s\<lparr>pst_kv := snd (Update (pst_kv s) k f now)\<rparr>)"
  by (rule only_shrinks) (auto simp: peers_only_def memkv.upd_inv intro: memkv.absent_kept)

lemma only_Get: "peers_only U s \<Longrightarrow> peers_only U (s\<lparr>pst_kv := snd (Get (pst_kv s) k now now2)\<rparr>)"
  by (rule only_shrinks) (auto simp: peers_only_def memkv.get_inv intro: memkv.absent_kept)

lemma only_Delete: "peers_only U s \<Longrightarrow> peers_only U (s\<lparr>pst_kv := snd (Delete (pst_kv s) k)\<rparr>)"
  by (rule only_shrinks) (auto simp: peers_only_def memkv.del_inv intro: memkv.absent_kept)

lemma only_Expire: "peers_only U s \<Longrightarrow> peers_only U (s\<lparr>pst_kv := snd (Expire (pst_kv s) k ttl now now2)\<rparr>)"
  by (rule only_shrinks) (auto simp: peers_only_def memkv.exp_inv intro: memkv.absent_kept)

lemma only_Set:
  assumes "peers_only U s" "k \<in> keyPeer ` V \<union> range reg_key"
  shows "peers_only (U \<union> V) (s\<lparr>pst_kv := snd (Set (pst_kv s) k v ttl now)\<rparr>)"
proof -
  have s: "kv_plain (pst_kv s)" "dom (kv_map (pst_kv s)) \<subseteq> keyPeer ` U \<union> range reg_key"
    using assms(1) by (simp_all add: peers_only_def)
  have "dom (kv_map (snd (Set (pst_kv s) k v ttl now))) \<subseteq> insert k (dom (kv_map (pst_kv s)))"
    by (simp add: memkv.set_ents [OF s(1)])
  then have "dom (kv_map (snd (Set (pst_kv s) k v ttl now))) \<subseteq> keyPeer ` (U \<union> V) \<union> range reg_key"
    using s(2) assms(2) by blast
  then show ?thesis by (simp add: peers_only_def memkv.set_inv [OF s(1)])
qed

lemma only_expirer:
  assumes "peers_only U s"
  shows "peers_only U (s\<lparr>pst_kv := snd (expirer_turn (pst_kv s) now nowN)\<rparr>)"
proof -
  have p: "kv_plain (pst_kv s)" using assms by (simp add: peers_only_def)
  then have q: "kv_plain (pst_kv s\<lparr>st_expq := x\<rparr>) \<and> kv_map (pst_kv s\<lparr>st_expq := x\<rparr>) = kv_map (pst_kv s)" for x
    by (intro plain_same) simp_all
  show ?thesis
    using p q
    by (intro only_shrinks [OF assms])
      (auto simp: expirer_turn_def plain_evict evict_map purge_def kv_plain_def [of "_\<lparr>st_expq := _\<rparr>"]
        split: option.split)
qed

lemma only_index [simp]:
  "peers_only U (s\<lparr>pst_peerIndex := P\<rparr>) = peers_only U s"
  "peers_only U (s\<lparr>pst_routeIndex := P\<rparr>) = peers_only U s"
  by (simp_all add: peers_only_def)

lemma only_kv_update: "peers_only U s \<Longrightarrow> peers_only U (kv_update s k f now)"
  by (simp add: kv_update_def only_Update)

lemma only_remove_all: "peers_only U s \<Longrightarrow> peers_only U (remove_from_all J s ps p clk)"
  by (induction ps arbitrary: s clk) (simp_all add: RemoveConnectedDirect_def only_kv_update)

lemma only_exec:
  assumes "peers_only U s"
  shows "peers_only (U \<union> upserted [x]) (peers_exec J s x)"
proof -
  have get: "peers_only U (s\<lparr>pst_kv := kv\<rparr>)" if "Get (pst_kv s) k now now2 = (r, kv)" for k now now2 r kv
    using only_Get [OF assms, of k now now2] that by simp
  have mono: "peers_only (U \<union> V) t" if "peers_only U t" for t V
    using that by (auto simp: peers_only_def)
  show ?thesis
  proof (cases x)
    case (PUpsert pm clk)
    then show ?thesis
      using only_Set [OF assms, of "keyPeer (pm_ID pm)" "{pm_ID pm}"]
      by (simp add: Upsert_def index_peer_def upserted_def Let_def)
  next
    case (PGet p clk)
    then show ?thesis using assms get
      by (auto simp: peers_Get_def upserted_def split: option.split prod.split)
  next
    case (PGetPath p clk)
    then show ?thesis using assms get
      by (auto simp: GetPath_def upserted_def split: option.split prod.split)
  next
    case (PCandidates p clk)
    then show ?thesis using assms get
      by (auto simp: GetRouteCandidates_def upserted_def Let_def split: option.split prod.split)
  next
    case (PDelete p ids clk)
    then show ?thesis using only_Delete [OF assms]
      by (simp add: DeletePeer_def upserted_def Let_def only_remove_all)
  next
    case (PTouch p a w clk)
    then show ?thesis
      using only_Expire [OF only_kv_update [OF assms]]
      by (simp add: Touch_def index_peer_def upserted_def Let_def)
  next
    case (PRegSet w v now)
    then show ?thesis using only_Set [OF assms, of "reg_key w" "{}"] by (simp add: upserted_def)
  next
    case (PExpirer now nowN)
    then show ?thesis using only_expirer [OF assms] by (simp add: upserted_def)
  next
    case (PExpire p ttl clk)
    then show ?thesis using only_Expire [OF assms] by (simp add: ExpirePeer_def upserted_def)
  qed (use assms only_Update [OF assms] only_Get [OF assms] only_Delete [OF assms] in
    \<open>simp_all add: only_kv_update upserted_def RecordQuality_def RecordExchange_def AddConnectedDirect_def
       RemoveConnectedDirect_def SetViaPathForPeer_def AdvertiseRoutes_def LearnPath_def Let_def
       UpsertRouteCandidate_def ConfirmRoute_def index_peer_def\<close>)
qed

lemma only_run: "peers_only U s \<Longrightarrow> peers_only (U \<union> upserted ops) (peers_run J s ops)"
proof (induction ops arbitrary: U s)
  case Nil
  then show ?case by (simp add: peers_run_def upserted_def)
next
  case (Cons x ops)
  then have "peers_only ((U \<union> upserted [x]) \<union> upserted ops) (peers_run J (peers_exec J s x) ops)"
    by (intro Cons.IH only_exec)
  then show ?case by (simp add: peers_run_def upserted_def Un_assoc)
qed

lemma only_absent:
  assumes "peers_only U s"
  shows "kv_map (pst_kv s) (keyRoutePath t) = None" "kv_map (pst_kv s) (keyRouteCands t) = None"
    "p \<notin> U \<Longrightarrow> kv_map (pst_kv s) (keyPeer p) = None"
  using assms by (fastforce simp: peers_only_def)+

lemma absent_reads:
  assumes "kv_plain (pst_kv s)"
  shows "kv_map (pst_kv s) (keyRoutePath t) = None \<Longrightarrow> fst (GetPath J s t clk) = None"
    "kv_map (pst_kv s) (keyRoutePath t) = None \<Longrightarrow> fst (LearnPath J s t p path m clk) = (zero_route, False)"
    "kv_map (pst_kv s) (keyRouteCands t) = None \<Longrightarrow> fst (BestRouteCandidate J s t clk) = None"
    "kv_map (pst_kv s) (keyPeer q) = None \<Longrightarrow> fst (peers_Get J s q clk) = None"
proof -
  have g: "fst (Get (pst_kv s) k now now2) = None" if "kv_map (pst_kv s) k = None" for k now now2
    using memkv.get_absent assms that by blast
  show "kv_map (pst_kv s) (keyRoutePath t) = None \<Longrightarrow> fst (GetPath J s t clk) = None"
    using g [of "keyRoutePath t" "clk 0" "clk 1"] by (auto simp: GetPath_def split: prod.split option.split)
  show "kv_map (pst_kv s) (keyRoutePath t) = None \<Longrightarrow> fst (LearnPath J s t p path m clk) = (zero_route, False)"
    by (simp add: LearnPath_def kv_map_def Let_def)
  show "kv_map (pst_kv s) (keyRouteCands t) = None \<Longrightarrow> fst (BestRouteCandidate J s t clk) = None"
    using g [of "keyRouteCands t" "clk 1" "clk 2"]
    by (auto simp: BestRouteCandidate_def GetRouteCandidates_def Let_def split: prod.split option.split)
  show "kv_map (pst_kv s) (keyPeer q) = None \<Longrightarrow> fst (peers_Get J s q clk) = None"
    using g [of "keyPeer q" "clk 0" "clk 1"] by (auto simp: peers_Get_def split: prod.split option.split)
qed

section \<open>Live documents\<close>

text \<open>The document \<open>d\<close> is stored under \<open>k\<close> and lives until \<open>T\<close>.\<close>

definition holds_doc :: "'d json \<Rightarrow> PeerStore \<Rightarrow> string \<Rightarrow> 'd \<Rightarrow> int \<Rightarrow> bool" where
  "holds_doc J s k d T \<longleftrightarrow> kv_plain (pst_kv s) \<and> js_keeps J d \<and>
     kv_map (pst_kv s) k = Some \<lparr>ent_val = js_Marshal J d, ent_expireAt = T\<rparr>"

lemma holds_edit:
  assumes "holds_doc J s k d T" "T = 0 \<or> now < T" "js_keeps J (f d)"
  shows "holds_doc J (kv_update s k (edit J f) now) k (f d) T"
  using assms
  by (auto simp: holds_doc_def kv_update_def memkv.upd_inv memkv.upd_ents live_def expired_def edit_def js_keeps_def)

lemma holds_edit_other:
  assumes "holds_doc J s k d T" "j \<noteq> k"
  shows "holds_doc J (kv_update s j f now) k d T"
  using assms by (auto simp: holds_doc_def kv_update_def memkv.upd_inv memkv.frame)

lemma holds_index [simp]:
  "holds_doc J (s\<lparr>pst_peerIndex := P\<rparr>) = holds_doc J s" "holds_doc J (s\<lparr>pst_routeIndex := P\<rparr>) = holds_doc J s"
  "holds_doc J (index_peer s p) = holds_doc J s"
  by (simp_all add: holds_doc_def fun_eq_iff index_peer_def)

lemma holds_Upsert:
  assumes "kv_plain (pst_kv s)" "js_keeps (pj_meta J) pm"
  shows "holds_doc (pj_meta J) (Upsert J s pm clk) (keyPeer (pm_ID pm)) pm (i64 (clk 0 + defaultPeerTTL))"
  using assms by (simp add: holds_doc_def Upsert_def index_peer_def memkv.set_inv memkv.set_ents defaultPeerTTL_def)

lemma holds_peers_Get:
  assumes "holds_doc (pj_meta J) s (keyPeer p) pm T" "T = 0 \<or> clk 0 < T"
  shows "fst (peers_Get J s p clk) = Some pm"
proof -
  have "fst (Get (pst_kv s) (keyPeer p) (clk 0) (clk 1)) = Some (js_Marshal (pj_meta J) pm)"
    using assms by (auto simp: holds_doc_def memkv.get_val live_def expired_def)
  then show ?thesis
    using assms(1) by (auto simp: peers_Get_def holds_doc_def js_keeps_def split: prod.split option.split)
qed

section \<open>Counters\<close>

definition with_counters :: "PeerMeta \<Rightarrow> uint64 \<Rightarrow> uint64 \<Rightarrow> uint64 \<Rightarrow> uint64 \<Rightarrow> PeerMeta" where
  "with_counters pm bi bo mi mo =
     pm\<lparr>pm_BytesIn := bi, pm_BytesOut := bo, pm_MsgsIn := mi, pm_MsgsOut := mo\<rparr>"

type_synonym exchange = "uint64 \<times> uint64 \<times> uint64 \<times> uint64 \<times> clock"

fun record_one :: "peers_json \<Rightarrow> PeerID \<Rightarrow> PeerStore \<Rightarrow> exchange \<Rightarrow> PeerStore" where
  "record_one J p s (bi, bo, mi, mo, clk) = RecordExchange J s p bi bo mi mo clk"

lemma holds_exchanges:
  assumes "holds_doc (pj_meta J) s (keyPeer (pm_ID pm)) (with_counters pm a b c d) T"
    and "\<forall>a b c d. js_keeps (pj_meta J) (with_counters pm a b c d)"
    and "\<forall>(bi, bo, mi, mo, clk)\<in>set xs. clk 0 < T"
  shows "holds_doc (pj_meta J) (foldl (record_one J (pm_ID pm)) s xs) (keyPeer (pm_ID pm))
    (with_counters pm (a + (\<Sum>(bi, bo, mi, mo, clk)\<leftarrow>xs. bi)) (b + (\<Sum>(bi, bo, mi, mo, clk)\<leftarrow>xs. bo))
       (c + (\<Sum>(bi, bo, mi, mo, clk)\<leftarrow>xs. mi)) (d + (\<Sum>(bi, bo, mi, mo, clk)\<leftarrow>xs. mo))) T"
  using assms(1,3)
proof (induction xs arbitrary: s a b c d)
  case Nil
  then show ?case by simp
next
  case (Cons x xs)
  obtain bi bo mi mo clk where x: "x = (bi, bo, mi, mo, clk)" by (cases x)
  have e: "exchange_meta (pm_ID pm) bi bo mi mo (with_counters pm a b c d) =
      with_counters pm (a + bi) (b + bo) (c + mi) (d + mo)"
    by (simp add: exchange_meta_def with_counters_def)
  have "holds_doc (pj_meta J) (record_one J (pm_ID pm) s x) (keyPeer (pm_ID pm))
      (with_counters pm (a + bi) (b + bo) (c + mi) (d + mo)) T"
    using holds_edit [OF Cons.prems(1), of "clk 0" "exchange_meta (pm_ID pm) bi bo mi mo"]
      Cons.prems(2) assms(2)
    by (simp add: x RecordExchange_def e)
  from Cons.IH [OF this] Cons.prems(2) show ?case by (simp add: x add.assoc)
qed

section \<open>Candidates\<close>

lemma same_origin_refl [simp]: "same_origin rc rc"
  by (simp add: same_origin_def)

lemma merge_loop_keep:
  "filter (\<lambda>c. \<not> same_origin c rc) (fst (merge_loop now rc arr r)) =
     filter (\<lambda>c. rc_Expires c > now \<and> \<not> same_origin c rc) arr \<and>
   filter (\<lambda>c. same_origin c rc) (fst (merge_loop now rc arr r)) =
     (if \<not> r \<and> snd (merge_loop now rc arr r) then [rc] else []) \<and>
   (r \<longrightarrow> snd (merge_loop now rc arr r))"
  by (induction now rc arr r rule: merge_loop.induct) (auto simp: apfst_def map_prod_def case_prod_beta)

lemma merge_others:
  "filter (\<lambda>c. \<not> same_origin c rc) (merge_candidates now rc arr) =
     filter (\<lambda>c. rc_Expires c > now \<and> \<not> same_origin c rc) arr"
  using merge_loop_keep [of rc now arr False]
  by (simp add: merge_candidates_def case_prod_beta)

lemma merge_own: "filter (\<lambda>c. same_origin c rc) (merge_candidates now rc arr) = [rc]"
  using merge_loop_keep [of rc now arr False]
  by (simp add: merge_candidates_def case_prod_beta)

lemma set_merge:
  "set (merge_candidates now rc arr) = insert rc {c \<in> set arr. rc_Expires c > now \<and> \<not> same_origin c rc}"
proof -
  have "set (merge_candidates now rc arr) =
      set (filter (\<lambda>c. same_origin c rc) (merge_candidates now rc arr)) \<union>
      set (filter (\<lambda>c. \<not> same_origin c rc) (merge_candidates now rc arr))" by auto
  then show ?thesis by (simp add: merge_own merge_others)
qed

lemma best_loop_max:
  "best_loop b cs \<in> set (b # cs) \<and> (\<forall>c\<in>set (b # cs). routeScore c \<le> routeScore (best_loop b cs))"
proof (induction b cs rule: best_loop.induct)
  case (2 b c cs)
  then show ?case by (auto split: if_splits)
qed simp

lemma holds_candidates:
  assumes "holds_doc (pj_cands J) s (keyRouteCands t) arr T" "T = 0 \<or> clk 1 < T"
  shows "fst (GetRouteCandidates J s t clk) = filter (\<lambda>c. rc_Expires c > unixMilli (clk 0)) arr"
proof -
  have "fst (Get (pst_kv s) (keyRouteCands t) (clk 1) (clk 2)) = Some (js_Marshal (pj_cands J) arr)"
    using assms by (auto simp: holds_doc_def memkv.get_val live_def expired_def)
  then show ?thesis
    using assms(1) by (auto simp: GetRouteCandidates_def holds_doc_def js_keeps_def Let_def split: prod.split option.split)
qed

lemma best_of_candidates:
  "fst (BestRouteCandidate J s t clk) =
     (case fst (GetRouteCandidates J s t clk) of [] \<Rightarrow> None | c # cs \<Rightarrow> Some (best_loop c cs))"
  by (auto simp: BestRouteCandidate_def split: prod.split list.split)

section \<open>Adjacency\<close>

definition without :: "PeerID \<Rightarrow> PeerMeta \<Rightarrow> PeerMeta" where
  "without p pm = pm\<lparr>pm_ConnectedDirectIDs := filter (\<lambda>v. v \<noteq> p) (pm_ConnectedDirectIDs pm)\<rparr>"

lemma without_nil: "pm_ConnectedDirectIDs pm = [] \<Longrightarrow> without p pm = pm"
  by (cases pm) (simp add: without_def)

lemma without_idem [simp]: "without p (without p pm) = without p pm"
  by (simp add: without_def)

lemma holds_remove:
  assumes "holds_doc (pj_meta J) s (keyPeer q) pm T" "js_keeps (pj_meta J) (without p pm)" "T = 0 \<or> clk 0 < T"
  shows "holds_doc (pj_meta J) (RemoveConnectedDirect J s r p clk) (keyPeer q)
    (if r = q then without p pm else pm) T"
proof (cases "r = q")
  case True
  have "remove_direct J p (js_Marshal (pj_meta J) pm) = js_Marshal (pj_meta J) (without p pm)"
    using assms(1) by (auto simp: remove_direct_def holds_doc_def js_keeps_def without_nil) (simp add: without_def)
  then show ?thesis
    using assms True
    by (auto simp: RemoveConnectedDirect_def holds_doc_def kv_update_def memkv.upd_inv memkv.upd_ents live_def expired_def)
next
  case False
  then show ?thesis using assms(1) by (simp add: RemoveConnectedDirect_def holds_edit_other)
qed

lemma holds_remove_all:
  assumes "holds_doc (pj_meta J) s (keyPeer q) pm T" "js_keeps (pj_meta J) (without p pm)" "T = 0 \<or> (\<forall>n. clk n < T)"
  shows "holds_doc (pj_meta J) (remove_from_all J s ids p clk) (keyPeer q)
    (if q \<in> set ids then without p pm else pm) T"
  using assms
proof (induction ids arbitrary: s pm clk)
  case (Cons r ids)
  have h: "holds_doc (pj_meta J) (RemoveConnectedDirect J s r p clk) (keyPeer q) (if r = q then without p pm else pm) T"
    using Cons.prems by (intro holds_remove) auto
  have t: "T = 0 \<or> (\<forall>n. clk (Suc n) < T)" using Cons.prems(3) by auto
  show ?case
  proof (cases "r = q")
    case True
    then show ?thesis
      using Cons.IH [of "RemoveConnectedDirect J s r p clk" "without p pm" "\<lambda>n. clk (Suc n)"] h t Cons.prems(2)
      by (cases "q \<in> set ids") simp_all
  next
    case False
    then show ?thesis
      using Cons.IH [of "RemoveConnectedDirect J s r p clk" pm "\<lambda>n. clk (Suc n)"] h t Cons.prems(2) by simp
  qed
qed simp

lemma absent_remove_all:
  assumes "kv_plain (pst_kv s)" "kv_map (pst_kv s) k = None"
  shows "kv_plain (pst_kv (remove_from_all J s ids p clk)) \<and> kv_map (pst_kv (remove_from_all J s ids p clk)) k = None"
  using assms
  by (induction ids arbitrary: s clk)
    (simp_all add: RemoveConnectedDirect_def kv_update_def memkv.upd_inv memkv.absent_kept(2))

lemma index_remove_all [simp]: "pst_peerIndex (remove_from_all J s ids p clk) = pst_peerIndex s"
  by (induction ids arbitrary: s clk) (simp_all add: RemoveConnectedDirect_def kv_update_def)

section \<open>Properties\<close>

text \<open>
  C16: in every state the node can bring the store to, by any sequence of the store's operations,
  expirer turns and registry traffic on the shared key-value store, no path has been learned and
  no route candidate is stored, and the next \<open>LearnPath\<close> stores nothing either: the store's
  learning operations edit documents in place (\<open>kv.Update\<close>), which does nothing for a key that
  is absent, and no operation ever creates one of these keys. In the same way there is no
  document for a peer that was never given to \<open>Upsert\<close>, whatever \<open>Touch\<close>, \<open>RecordQuality\<close> or
  \<open>AddConnectedDirect\<close> recorded about it.
\<close>

theorem routes_never_learned:
  assumes "opt_Shards opts < 2 ^ 63" "opt_MaxBytes opts = 0" "opt_ExpireJitter opts = 0"
    and "s = peers_run J (peers_NewStore (New opts)) ops"
  shows "fst (GetPath J s t clk) = None \<and> fst (LearnPath J s t p path m clk) = (zero_route, False) \<and>
    fst (BestRouteCandidate J s t clk) = None \<and>
    (q \<notin> upserted ops \<longrightarrow> fst (peers_Get J s q clk) = None)"
proof -
  have o: "peers_only (upserted ops) s"
    using only_run [OF only_NewStore [OF assms(1-3)]] assms(4) by simp
  then have "kv_plain (pst_kv s)" by (simp add: peers_only_def)
  then show ?thesis using absent_reads only_absent [OF o] by simp
qed

text \<open>
  From the moment a peer's document is stored until it expires, the counters it shows are the
  initial ones plus, modulo 2^64, the amounts of all \<open>RecordExchange\<close> calls in between, and
  nothing else of the document changes. The JSON codec is relied upon for the documents that
  differ from the stored one in the counters only.
\<close>

theorem exchange_counters:
  assumes "kv_plain (pst_kv s)" "\<forall>a b c d. js_keeps (pj_meta J) (with_counters pm a b c d)"
    and "\<forall>(bi, bo, mi, mo, clk)\<in>set xs. clk 0 < i64 (clk0 0 + defaultPeerTTL)"
    and "clk1 0 < i64 (clk0 0 + defaultPeerTTL)"
  shows "fst (peers_Get J (foldl (record_one J (pm_ID pm)) (Upsert J s pm clk0) xs) (pm_ID pm) clk1) =
    Some (with_counters pm
      (pm_BytesIn pm + (\<Sum>(bi, bo, mi, mo, clk)\<leftarrow>xs. bi)) (pm_BytesOut pm + (\<Sum>(bi, bo, mi, mo, clk)\<leftarrow>xs. bo))
      (pm_MsgsIn pm + (\<Sum>(bi, bo, mi, mo, clk)\<leftarrow>xs. mi)) (pm_MsgsOut pm + (\<Sum>(bi, bo, mi, mo, clk)\<leftarrow>xs. mo)))"
proof -
  have "with_counters pm (pm_BytesIn pm) (pm_BytesOut pm) (pm_MsgsIn pm) (pm_MsgsOut pm) = pm"
    by (cases pm) (simp add: with_counters_def)
  then have "holds_doc (pj_meta J) (Upsert J s pm clk0) (keyPeer (pm_ID pm))
      (with_counters pm (pm_BytesIn pm) (pm_BytesOut pm) (pm_MsgsIn pm) (pm_MsgsOut pm)) (i64 (clk0 0 + defaultPeerTTL))"
    using holds_Upsert [OF assms(1), of J pm clk0] assms(2) by metis
  from holds_peers_Get [where clk = clk1, OF holds_exchanges [OF this assms(2,3)]] assms(4)
  show ?thesis by simp
qed

text \<open>
  Deleting a peer removes its document and its index entry, and takes it out of the
  neighbour list of every peer the walk over the index visits, leaving the rest of their
  documents as it was.
\<close>

theorem delete_peer_forgets:
  assumes "holds_doc (pj_meta J) s (keyPeer q) pm T" "q \<in> set ids" "q \<noteq> p"
    and "js_keeps (pj_meta J) (without p pm)" "T = 0 \<or> (\<forall>n. clk n < T)" "T = 0 \<or> clk1 0 < T"
  shows "fst (peers_Get J (DeletePeer J s p ids clk) p clk1) = None \<and>
    p \<notin> pst_peerIndex (DeletePeer J s p ids clk) \<and>
    fst (peers_Get J (DeletePeer J s p ids clk) q clk1) = Some (without p pm) \<and>
    p \<notin> set (pm_ConnectedDirectIDs (without p pm))"
proof -
  define s1 where "s1 = s\<lparr>pst_kv := snd (Delete (pst_kv s) (keyPeer p)), pst_peerIndex := pst_peerIndex s - {p}\<rparr>"
  have D: "DeletePeer J s p ids clk = remove_from_all J s1 ids p clk" by (simp add: DeletePeer_def s1_def)
  have p: "kv_plain (pst_kv s)" using assms(1) by (simp add: holds_doc_def)
  have "holds_doc (pj_meta J) s1 (keyPeer q) pm T"
    using assms(1,3) by (auto simp: s1_def holds_doc_def memkv.del_inv memkv.frame)
  from holds_remove_all [OF this assms(4,5), of ids] assms(2)
  have "holds_doc (pj_meta J) (DeletePeer J s p ids clk) (keyPeer q) (without p pm) T" by (simp add: D)
  moreover have "kv_plain (pst_kv s1)" "kv_map (pst_kv s1) (keyPeer p) = None"
    using p by (simp_all add: s1_def memkv.del_inv memkv.del_ents)
  note absent_remove_all [OF this, of J ids p clk]
  ultimately show ?thesis
    using holds_peers_Get [where clk = clk1, OF _ assms(6)] absent_reads(4) by (simp add: D) (simp add: s1_def without_def)
qed

text \<open>
  On a live list of candidates, \<open>UpsertRouteCandidate\<close> stamps the candidate, puts it in place
  of the one from the same neighbour and source and drops the expired ones; a
  \<open>BestRouteCandidate\<close> before the new one expires then returns one of the unexpired candidates,
  and no other has a higher score.
\<close>

theorem candidate_upsert_best:
  assumes "holds_doc (pj_cands J) s (keyRouteCands (rc_Target rc)) arr T" "T = 0 \<or> clk 1 < T \<and> clk1 1 < T"
    and "new = rc\<lparr>rc_Updated := unixMilli (clk 0),
      rc_Expires := i64 (unixMilli (clk 0) + go_div (if ttl \<le> 0 then 60000000000 else ttl) 1000000)\<rparr>"
    and "js_keeps (pj_cands J) (merge_candidates (unixMilli (clk 0)) new arr)"
    and "unixMilli (clk1 0) < rc_Expires new"
    and "alive = insert new {c \<in> set arr. max (unixMilli (clk 0)) (unixMilli (clk1 0)) < rc_Expires c \<and> \<not> same_origin c new}"
  shows "\<exists>best\<in>alive.
    fst (BestRouteCandidate J (UpsertRouteCandidate J s rc ttl clk) (rc_Target rc) clk1) = Some best \<and>
    (\<forall>c\<in>alive. routeScore c \<le> routeScore best)"
proof -
  let ?s = "UpsertRouteCandidate J s rc ttl clk"
  let ?arr = "merge_candidates (unixMilli (clk 0)) new arr"
  have "holds_doc (pj_cands J) ?s (keyRouteCands (rc_Target rc)) ?arr T"
    using holds_edit [OF assms(1), of "clk 1" "merge_candidates (unixMilli (clk 0)) new"] assms(2,4)
    by (auto simp: UpsertRouteCandidate_def Let_def assms(3))
  then have g: "fst (GetRouteCandidates J ?s (rc_Target rc) clk1) = filter (\<lambda>c. rc_Expires c > unixMilli (clk1 0)) ?arr"
    using holds_candidates [where clk = clk1] assms(2) by blast
  have a: "set (filter (\<lambda>c. rc_Expires c > unixMilli (clk1 0)) ?arr) = alive"
    using assms(5) by (auto simp: set_merge assms(6))
  then obtain c cs where c: "filter (\<lambda>c. rc_Expires c > unixMilli (clk1 0)) ?arr = c # cs" "set (c # cs) = alive"
    using assms(6) by (cases "filter (\<lambda>c. rc_Expires c > unixMilli (clk1 0)) ?arr") auto
  have "fst (BestRouteCandidate J ?s (rc_Target rc) clk1) = Some (best_loop c cs)"
    by (simp only: best_of_candidates g c(1) list.case)
  then show ?thesis using best_loop_max [of c cs] c(2) by auto
qed

section \<open>The properties at work\<close>

text \<open>
  A codec for two documents, and one that keeps the four counters of documents like \<open>pm\<close>.
\<close>

definition pair_json :: "'d \<Rightarrow> 'd \<Rightarrow> 'd json" where
  "pair_json a b = \<lparr>js_Marshal = (\<lambda>d. if d = a then [0] else [1]),
     js_Unmarshal = (\<lambda>bs. (if bs = [0] then a else b, True))\<rparr>"

definition counter_json :: "PeerMeta \<Rightarrow> PeerMeta json" where
  "counter_json pm = \<lparr>js_Marshal = (\<lambda>d. le_bytes 8 (unat (pm_BytesIn d)) @ le_bytes 8 (unat (pm_BytesOut d)) @
       le_bytes 8 (unat (pm_MsgsIn d)) @ le_bytes 8 (unat (pm_MsgsOut d))),
     js_Unmarshal = (\<lambda>bs. (with_counters pm (of_nat (le_val (take 8 bs))) (of_nat (le_val (take 8 (drop 8 bs))))
       (of_nat (le_val (take 8 (drop 16 bs)))) (of_nat (le_val (drop 24 bs))), True))\<rparr>"

lemma pair_json_keeps: "js_keeps (pair_json a b) a" "js_keeps (pair_json a b) b"
  by (simp_all add: js_keeps_def pair_json_def)

lemma counter_json_keeps: "js_keeps (counter_json pm) (with_counters pm a b c d)"
proof -
  have "le_val (le_bytes 8 (unat w)) = unat w" for w :: uint64
    using unsigned_less [of w] by (intro le_val_le_bytes) simp
  then show ?thesis by (simp add: js_keeps_def counter_json_def with_counters_def)
qed

definition node_opts :: Options where
  "node_opts = \<lparr>opt_Shards = 0, opt_CopyOnSet = False, opt_CopyOnGet = False, opt_ExpireJitter = 0, opt_MaxBytes = 0\<rparr>"

definition node_store :: PeerStore where "node_store = peers_NewStore (New node_opts)"

lemma node_store_plain: "kv_plain (pst_kv node_store)"
  by (simp add: node_store_def peers_NewStore_def node_opts_def plain_New)

definition some_peer :: PeerMeta where "some_peer = zero_meta\<lparr>pm_ID := ''ed25519:b'', pm_ConnectedDirectIDs := [''a'', ''c'']\<rparr>"

definition some_json :: peers_json where
  "some_json = \<lparr>pj_meta = pair_json some_peer (without ''a'' some_peer),
     pj_route = pair_json zero_route zero_route, pj_cands = pair_json [] []\<rparr>"

lemma routes_never_learned_witness:
  "fst (BestRouteCandidate some_json (peers_run some_json (peers_NewStore (New node_opts))
     [PTouch ''local'' ''tcp'' None (\<lambda>n. 1), PAddDirect ''local'' ''b'' (\<lambda>n. 2),
      PLearn ''x'' ''b'' [] 1 (\<lambda>n. 3)]) ''x'' (\<lambda>n. 4)) = None"
  using routes_never_learned [of node_opts _ some_json
     "[PTouch ''local'' ''tcp'' None (\<lambda>n. 1), PAddDirect ''local'' ''b'' (\<lambda>n. 2),
      PLearn ''x'' ''b'' [] 1 (\<lambda>n. 3)]" "''x''" "\<lambda>n. 4"]
  by (simp add: node_opts_def)

lemma exchange_counters_witness:
  "fst (peers_Get \<lparr>pj_meta = counter_json some_peer, pj_route = pair_json zero_route zero_route, pj_cands = pair_json [] []\<rparr>
     (foldl (record_one \<lparr>pj_meta = counter_json some_peer, pj_route = pair_json zero_route zero_route, pj_cands = pair_json [] []\<rparr> ''ed25519:b'')
       (Upsert \<lparr>pj_meta = counter_json some_peer, pj_route = pair_json zero_route zero_route, pj_cands = pair_json [] []\<rparr>
         node_store some_peer (\<lambda>n. 1000))
       [(100, 0, 1, 0, \<lambda>n. 2000), (0, 70, 0, 1, \<lambda>n. 3000)]) ''ed25519:b'' (\<lambda>n. 4000)) =
   Some (with_counters some_peer 100 70 1 1)"
  using exchange_counters [OF node_store_plain, where xs = "[(100, 0, 1, 0, \<lambda>n. 2000), (0, 70, 0, 1, \<lambda>n. 3000)]"
      and pm = some_peer and ?clk0.0 = "\<lambda>n. 1000" and ?clk1.0 = "\<lambda>n. 4000"
      and J = "\<lparr>pj_meta = counter_json some_peer, pj_route = pair_json zero_route zero_route, pj_cands = pair_json [] []\<rparr>"]
  by (simp add: counter_json_keeps defaultPeerTTL_def i64_id) (simp add: some_peer_def zero_meta_def)

lemma delete_peer_forgets_witness:
  "fst (peers_Get some_json (DeletePeer some_json (Upsert some_json node_store some_peer (\<lambda>n. 1)) ''a''
     [''ed25519:b''] (\<lambda>n. 2)) ''ed25519:b'' (\<lambda>n. 3)) = Some (without ''a'' some_peer)"
  using delete_peer_forgets [of some_json "Upsert some_json node_store some_peer (\<lambda>n. 1)" "''ed25519:b''" some_peer
      "i64 (1 + defaultPeerTTL)" "[''ed25519:b'']" "''a''" "\<lambda>n. 2" "\<lambda>n. 3"]
    holds_Upsert [OF node_store_plain, of some_json some_peer "\<lambda>n. 1"]
  by (simp add: some_json_def pair_json_keeps defaultPeerTTL_def i64_id) (simp add: some_peer_def)

definition cand1 :: RouteCandidate where
  "cand1 = \<lparr>rc_Target = ''x'', rc_Path = [''b''], rc_NextHop = ''b'', rc_Metric = 10, rc_Source = ''rip'',
     rc_LearnedFrom = ''b'', rc_Health = ''up'', rc_Updated = 0, rc_Expires = 60000\<rparr>"

definition cand2 :: RouteCandidate where
  "cand2 = cand1\<lparr>rc_LearnedFrom := ''c'', rc_NextHop := ''c'', rc_Metric := 20, rc_Expires := 50\<rparr>"

definition cand_store :: PeerStore where
  "cand_store = node_store\<lparr>pst_kv := snd (Set (pst_kv node_store) (keyRouteCands ''x'') [0] 0 1)\<rparr>"

definition cand_json :: peers_json where
  "cand_json = some_json\<lparr>pj_cands := pair_json [cand2] (merge_candidates 0 cand1 [cand2])\<rparr>"

lemma candidate_upsert_best_witness:
  "\<exists>best\<in>{cand1}. fst (BestRouteCandidate cand_json
     (UpsertRouteCandidate cand_json cand_store cand1 0 (\<lambda>n. 0)) ''x'' (\<lambda>n. 50000000)) = Some best"
proof -
  have "holds_doc (pj_cands cand_json) cand_store (keyRouteCands ''x'') [cand2] 0"
    using node_store_plain
    by (simp add: holds_doc_def cand_store_def memkv.set_inv memkv.set_ents cand_json_def pair_json_keeps)
      (simp add: pair_json_def)
  then have "\<exists>best\<in>{cand1}. fst (BestRouteCandidate cand_json
     (UpsertRouteCandidate cand_json cand_store cand1 0 (\<lambda>n. 0)) (rc_Target cand1) (\<lambda>n. 50000000)) = Some best \<and>
       (\<forall>c\<in>{cand1}. routeScore c \<le> routeScore best)"
    by (intro candidate_upsert_best [where arr = "[cand2]" and T = 0 and new = cand1])
      (simp_all add: cand_json_def pair_json_keeps unixMilli_def cand1_def cand2_def go_div_def i64_id, auto)
  then show ?thesis by (simp add: cand1_def)
qed

end
