(* ===== verification/Messages.thy ===== *)
theory Messages
  imports Peers
begin

text \<open>
  The protobuf messages the node reads and writes (\<open>pkg/protocol/proto\<close>, generated from
  \<open>api/proto\<close>), as records with the fields of the generated structs. A map field of a message
  is an association list, an open enumeration an \<open>int\<close>, a \<open>oneof\<close> a datatype. Messages no code
  looks into (leases, flow control, blobs, contracts, policies) stand as their encoded bytes.
  Encoding itself is \<open>google.golang.org/protobuf\<close>: the parameter \<open>pb_codec\<close>.
\<close>

type_synonym opaque = "byte list"
type_synonym pb_map = "(string \<times> string) list"

record NodeRef =
  nr_Id :: string
  nr_Geohash :: string

record NetworkEndpoint =
  ne_Scheme :: string
  ne_Address :: string
  ne_Params :: pb_map

record TaskDescriptor =
  td_Name :: string
  td_Version :: string
  td_StableId :: string
  td_HashAlg :: string
  td_Hash :: "byte list"
  td_StreamInput :: bool
  td_StreamOutput :: bool
  td_PriorityDefault :: uint32
  td_MinReq :: "opaque option"
  td_MaxConcurrency :: uint32
  td_Contract :: "opaque option"
  td_Auth :: "opaque option"
  td_Meta :: pb_map

record TaskKey =
  tk_Name :: string
  tk_Version :: string
  tk_StableId :: string

record TaskRegister =
  tr_WorkerId :: string
  tr_Self :: "NodeRef option"
  tr_Tasks :: "TaskDescriptor list"
  tr_Endpoints :: "NetworkEndpoint list"
  tr_Features :: "opaque option"
  tr_Labels :: pb_map

record TaskRegisterAck =
  ta_Accepted :: bool
  ta_Reason :: string
  ta_Conflicts :: "string list"

record TaskUpdate =
  tu_WorkerId :: string
  tu_AddOrUpdate :: "TaskDescriptor list"
  tu_Remove :: "TaskKey list"
  tu_Endpoints :: "NetworkEndpoint list"
  tu_LabelsSet :: pb_map
  tu_LabelsDel :: "string list"

record TaskDeregister =
  tx_WorkerId :: string
  tx_Tasks :: "TaskKey list"
  tx_Reason :: string

record TaskListWorkers =
  tl_LabelFilter :: pb_map
  tl_FunctionName :: string
  tl_Version :: string
  tl_IncludeTasks :: bool
  tl_PageSize :: uint32
  tl_PageToken :: string

record WorkerRecord =
  wr_WorkerId :: string
  wr_Self :: "NodeRef option"
  wr_Endpoints :: "NetworkEndpoint list"
  wr_Features :: "opaque option"
  wr_Labels :: "string \<Rightarrow> string option"
  wr_CapacityTotal :: "opaque option"
  wr_CapacityFree :: "opaque option"
  wr_Tasks :: "TaskDescriptor list"

record TaskListWorkersReply =
  lr_Workers :: "WorkerRecord list"
  lr_NextPageToken :: string

section \<open>Control messages\<close>

record PbPeerMeta =
  pb_Id :: string
  pb_NodeName :: string
  pb_Alg :: string
  pb_Pubkey :: "byte list"
  pb_Addresses :: "string list"
  pb_Reachable :: bool
  pb_Labels :: "string \<Rightarrow> string option"
  pb_Handshake :: int
  pb_LastHelloTs :: int
  pb_LastAckTs :: int

definition HS_VERIFIED :: int where "HS_VERIFIED = 2"

definition zero_pb_meta :: PbPeerMeta where
  "zero_pb_meta = \<lparr>pb_Id = [], pb_NodeName = [], pb_Alg = [], pb_Pubkey = [], pb_Addresses = [],
     pb_Reachable = False, pb_Labels = Map.empty, pb_Handshake = 0, pb_LastHelloTs = 0, pb_LastAckTs = 0\<rparr>"

record PeerHello =
  he_NodeName :: string
  he_Alg :: string
  he_Pubkey :: "byte list"
  he_Nonce :: "byte list"
  he_TsUnixMs :: int
  he_Sig :: "byte list"
  he_Meta :: "PbPeerMeta option"

record PeerHelloAck =
  ha_Accepted :: bool
  ha_PeerId :: string
  ha_Reason :: string
  ha_Meta :: "PbPeerMeta option"

record PeerAdj =
  ad_From :: string
  ad_To :: string

record RouteCandidatePB =
  rp_Target :: string
  rp_Path :: "string list"
  rp_NextHop :: string
  rp_Metric :: uint32
  rp_Source :: string
  rp_LearnedFrom :: string
  rp_Health :: string
  rp_UpdatedUnixMs :: int
  rp_ExpiresUnixMs :: int

record RoutesReply =
  ry_Peers :: "PbPeerMeta list"
  ry_Targets :: "string list"
  ry_Candidates :: "RouteCandidatePB list"
  ry_Adjacency :: "PeerAdj list"

record IdentityReply =
  ir_Id :: string
  ir_NodeName :: string
  ir_Alg :: string
  ir_Pubkey :: "byte list"

datatype ControlKind =
    CFlow opaque | CCancel opaque
  | CHello PeerHello | CHelloAck PeerHelloAck
  | CGetRoutes | CRoutesReply RoutesReply
  | CGetIdentity | CIdentityReply IdentityReply
  | CWorkerRegister opaque | CWorkerAdvert opaque | CWorkerQuery opaque | CWorkerQueryReply opaque
  | CTaskRegister TaskRegister | CTaskRegisterAck TaskRegisterAck
  | CTaskUpdate TaskUpdate | CTaskDeregister TaskDeregister
  | CTaskListWorkers TaskListWorkers | CTaskListWorkersReply TaskListWorkersReply

text \<open>A control message whose kind is not set has no value here: \<open>None\<close>.\<close>

type_synonym Control = "ControlKind option"

section \<open>Envelopes\<close>

type_synonym MessageType = int

definition MT_TASK :: MessageType where "MT_TASK = 1"
definition MT_RESULT :: MessageType where "MT_RESULT = 2"
definition MT_CONTROL :: MessageType where "MT_CONTROL = 3"
definition MT_DAG_FRAGMENT :: MessageType where "MT_DAG_FRAGMENT = 6"

type_synonym Status = int

definition ST_OK :: Status where "ST_OK = 0"

record PbHeader =
  ph_Version :: uint32
  ph_Type :: MessageType
  ph_Flags :: uint32
  ph_Priority :: uint32
  ph_CorrelationId :: "byte list"
  ph_Source :: "NodeRef option"
  ph_Dest :: "NodeRef option"
  ph_ReplyTo :: "NodeRef option"
  ph_FragIndex :: uint32
  ph_FragTotal :: uint32
  ph_MessageId :: "byte list"
  ph_TraceId :: "byte list"
  ph_CreatedUnixMs :: int
  ph_Tags :: pb_map
  ph_Codec :: int
  ph_Compression :: int
  ph_DirectStatus :: "Status option"

definition zero_pb_header :: PbHeader where
  "zero_pb_header = \<lparr>ph_Version = 0, ph_Type = 0, ph_Flags = 0, ph_Priority = 0, ph_CorrelationId = [],
     ph_Source = None, ph_Dest = None, ph_ReplyTo = None, ph_FragIndex = 0, ph_FragTotal = 0,
     ph_MessageId = [], ph_TraceId = [], ph_CreatedUnixMs = 0, ph_Tags = [], ph_Codec = 0,
     ph_Compression = 0, ph_DirectStatus = None\<rparr>"

text \<open>An output carries inline bytes, a blob reference, or nothing.\<close>

datatype Payload = PInline "byte list" | PBlob opaque

record Output =
  ou_Name :: string
  ou_Payload :: "Payload option"

record Invoke =
  in_Params :: "opaque list"
  in_InlineArgs :: "(string \<times> byte list) list"
  in_Blobs :: "(string \<times> opaque) list"

record ParamChunk =
  pc_Data :: "byte list"
  pc_rest :: opaque

record Result =
  rs_Outputs :: "Output list"
  rs_rest :: opaque

record TinyResult =
  tn_Payload :: "Payload option"
  tn_rest :: opaque

datatype Body =
    BInvoke Invoke | BChunk ParamChunk | BResult Result | BAck opaque | BControl Control
  | BLeaseReq opaque | BLeaseRep opaque | BRaw "byte list" | BTinyResult TinyResult
  | BSessionInit opaque | BSessionClose opaque

record PbEnvelope =
  pe_Header :: "PbHeader option"
  pe_rest :: opaque
  pe_Body :: "Body option"

definition GetHeader :: "PbEnvelope \<Rightarrow> PbHeader" where
  "GetHeader e = (case pe_Header e of None \<Rightarrow> zero_pb_header | Some h \<Rightarrow> h)"

definition GetId :: "NodeRef option \<Rightarrow> string" where
  "GetId n = (case n of None \<Rightarrow> [] | Some r \<Rightarrow> nr_Id r)"

definition GetControl :: "PbEnvelope \<Rightarrow> Control option" where
  "GetControl e = (case pe_Body e of Some (BControl c) \<Rightarrow> Some c | _ \<Rightarrow> None)"

definition GetRaw :: "PbEnvelope \<Rightarrow> byte list option" where
  "GetRaw e = (case pe_Body e of Some (BRaw b) \<Rightarrow> Some b | _ \<Rightarrow> None)"

definition control_envelope :: "ControlKind \<Rightarrow> PbEnvelope" where
  "control_envelope k = \<lparr>pe_Header = Some (zero_pb_header\<lparr>ph_Version := 1, ph_Type := MT_CONTROL\<rparr>),
     pe_rest = [], pe_Body = Some (BControl (Some k))\<rparr>"

record pb_codec =
  pb_Marshal :: "PbEnvelope \<Rightarrow> byte list option"
  pb_Unmarshal :: "byte list \<Rightarrow> PbEnvelope option"

end
