(* ===== verification/Priocq.thy ===== *)
theory Priocq
  imports Prelude
begin

text \<open>
  The egress queue of \<open>pkg/core/priocq\<close>: strict priority between three classes and deficit
  round robin between the destinations of a class (\<open>queue.go\<close>), and the token bucket of
  \<open>shaper.go\<close>. \<open>Dequeue\<close> is \<open>tryPop\<close> in a loop around a condition variable; the relation
  \<open>worker_step\<close> interleaves it with producers and \<open>Close\<close>. The lemmas show that no item is lost,
  duplicated or reordered within a flow, which flows are served, and what the bucket grants.
  Sizes and deficits are \<open>int\<close> values far from the machine limits; the bucket's products are
  computed with wrap-around.
\<close>

section \<open>State\<close>

datatype Class = L0Control | L1Realtime | L2Bulk

record Item =
  itm_Bytes :: "byte list"
  itm_Dest :: string
  itm_Size :: int
  itm_Class :: Class
  itm_Deadline :: int
  itm_Src :: string
  itm_Arrived :: int

record flow =
  fl_q :: "Item list"
  fl_deficit :: int
  fl_quantum :: int

record level =
  lv_flows :: "string \<Rightarrow> flow option"
  lv_order :: "string list"
  lv_idx :: nat

type_synonym MultiLevelQueue = "Class \<Rightarrow> level"

section \<open>Operations\<close>

definition mlq_New :: MultiLevelQueue where
  "mlq_New c = \<lparr>lv_flows = Map.empty, lv_order = [], lv_idx = 0\<rparr>"

fun chooseQuantum :: "Class \<Rightarrow> int" where
  "chooseQuantum L0Control = 2048"
| "chooseQuantum L1Realtime = 8192"
| "chooseQuantum L2Bulk = 65536"

definition Enqueue :: "MultiLevelQueue \<Rightarrow> Item \<Rightarrow> MultiLevelQueue" where
  "Enqueue q it =
     (let lvl = q (itm_Class it);
          (f, lvl) = (case lv_flows lvl (itm_Dest it) of
              Some f \<Rightarrow> (f, lvl)
            | None \<Rightarrow> (\<lparr>fl_q = [], fl_deficit = 0, fl_quantum = chooseQuantum (itm_Class it)\<rparr>,
                lvl\<lparr>lv_order := lv_order lvl @ [itm_Dest it]\<rparr>))
      in q(itm_Class it := lvl\<lparr>lv_flows := (lv_flows lvl)(itm_Dest it \<mapsto> f\<lparr>fl_q := fl_q f @ [it]\<rparr>)\<rparr>))"

text \<open>The body of the scan at position \<open>j\<close> of the order: an item if the flow may send.\<close>

definition visit :: "level \<Rightarrow> nat \<Rightarrow> Item option \<times> level" where
  "visit lvl j =
     (let n = length (lv_order lvl); k = lv_order lvl ! j in
      case lv_flows lvl k of
        None \<Rightarrow> (None, lvl)
      | Some f \<Rightarrow>
          (case fl_q f of
             [] \<Rightarrow> (None, lvl)
           | it # rest \<Rightarrow>
               let f = (if fl_deficit f \<le> 0 then f\<lparr>fl_deficit := fl_deficit f + fl_quantum f\<rparr> else f) in
               if itm_Size it \<le> fl_deficit f then
                 let f = f\<lparr>fl_q := rest, fl_deficit := fl_deficit f - itm_Size it\<rparr>;
                     lvl = lvl\<lparr>lv_idx := (j + 1) mod n\<rparr>;
                     f = (if rest = [] \<and> fl_deficit f \<ge> fl_quantum f * 4 then f\<lparr>fl_deficit := 0\<rparr> else f)
                 in (Some it, lvl\<lparr>lv_flows := (lv_flows lvl)(k \<mapsto> f)\<rparr>)
               else (None, lvl\<lparr>lv_flows := (lv_flows lvl)(k \<mapsto> f)\<rparr>)))"

fun scan :: "level \<Rightarrow> nat list \<Rightarrow> Item option \<times> level" where
  "scan lvl [] = (None, lvl)"
| "scan lvl (j # js) =
     (case visit lvl j of (Some it, lvl) \<Rightarrow> (Some it, lvl) | (None, lvl) \<Rightarrow> scan lvl js)"

definition level_pop :: "level \<Rightarrow> Item option \<times> level" where
  "level_pop lvl =
     (if lv_order lvl = [] then (None, lvl)
      else let n = length (lv_order lvl); start = lv_idx lvl
           in scan lvl (map (\<lambda>i. (start + i) mod n) [0 ..< n]))"

fun pop_levels :: "MultiLevelQueue \<Rightarrow> Class list \<Rightarrow> Item option \<times> MultiLevelQueue" where
  "pop_levels q [] = (None, q)"
| "pop_levels q (c # cs) =
     (case level_pop (q c) of
        (Some it, lvl) \<Rightarrow> (Some it, q(c := lvl))
      | (None, lvl) \<Rightarrow> pop_levels (q(c := lvl)) cs)"

definition tryPop :: "MultiLevelQueue \<Rightarrow> Item option \<times> MultiLevelQueue" where
  "tryPop q = pop_levels q [L0Control, L1Realtime, L2Bulk]"

section \<open>Waiting for items\<close>

text \<open>
  One consumer in \<open>Dequeue\<close> and any number of producers. The consumer tries without holding
  \<open>q.mu\<close>; when it found nothing it locks, starts a goroutine that looks at \<open>stop\<close> once, and waits,
  which unlocks. A producer pushes its item, then owes a broadcast, for which it needs \<open>q.mu\<close>.

  Of the goroutines, \<open>ws_look\<close> is that of the current turn while it has not looked yet, \<open>ws_stale\<close>
  counts those of earlier turns, whose \<open>done\<close> nobody reads any more, and \<open>ws_fire\<close> those that found
  \<open>stop\<close> closed and have still to broadcast, for which they do not lock. A broadcast wakes a
  consumer that is already waiting and is otherwise lost. \<open>Returned None\<close> is the answer \<open>false\<close>.
\<close>

datatype worker_pc = Trying | FoundNothing | Locked | Waiting | Woken | Returned "Item option"

record worker_sys =
  ws_q :: MultiLevelQueue
  ws_pc :: worker_pc
  ws_stopped :: bool
  ws_done :: bool
  ws_look :: bool
  ws_stale :: nat
  ws_fire :: nat
  ws_owed :: nat

definition broadcast :: "worker_sys \<Rightarrow> worker_sys" where
  "broadcast w = (if ws_pc w = Waiting then w\<lparr>ws_pc := Woken\<rparr> else w)"

inductive worker_step :: "worker_sys \<Rightarrow> worker_sys \<Rightarrow> bool" where
  w_found: "ws_pc w = Trying \<Longrightarrow> tryPop (ws_q w) = (Some it, q) \<Longrightarrow>
    worker_step w (w\<lparr>ws_q := q, ws_pc := Returned (Some it)\<rparr>)"
| w_nothing: "ws_pc w = Trying \<Longrightarrow> tryPop (ws_q w) = (None, q) \<Longrightarrow>
    worker_step w (w\<lparr>ws_q := q, ws_pc := FoundNothing\<rparr>)"
| w_lock: "ws_pc w = FoundNothing \<Longrightarrow>
    worker_step w (w\<lparr>ws_pc := Locked, ws_done := False, ws_look := True,
      ws_stale := (if ws_look w then ws_stale w + 1 else ws_stale w)\<rparr>)"
| w_wait: "ws_pc w = Locked \<Longrightarrow> worker_step w (w\<lparr>ws_pc := Waiting\<rparr>)"
| w_resume: "ws_pc w = Woken \<Longrightarrow>
    worker_step w (w\<lparr>ws_pc := (if ws_done w then Returned None else Trying)\<rparr>)"
| w_look: "ws_look w \<Longrightarrow>
    worker_step w (if ws_stopped w then w\<lparr>ws_look := False, ws_done := True, ws_fire := ws_fire w + 1\<rparr>
      else w\<lparr>ws_look := False\<rparr>)"
| w_stale: "0 < ws_stale w \<Longrightarrow>
    worker_step w (if ws_stopped w then w\<lparr>ws_stale := ws_stale w - 1, ws_fire := ws_fire w + 1\<rparr>
      else w\<lparr>ws_stale := ws_stale w - 1\<rparr>)"
| w_fire: "0 < ws_fire w \<Longrightarrow> worker_step w (broadcast (w\<lparr>ws_fire := ws_fire w - 1\<rparr>))"
| w_stop: "worker_step w (w\<lparr>ws_stopped := True\<rparr>)"
| w_push: "worker_step w (w\<lparr>ws_q := Enqueue (ws_q w) it, ws_owed := ws_owed w + 1\<rparr>)"
| w_notify: "0 < ws_owed w \<Longrightarrow> ws_pc w \<noteq> Locked \<Longrightarrow>
    worker_step w (broadcast (w\<lparr>ws_owed := ws_owed w - 1\<rparr>))"

inductive_cases worker_stepE: "worker_step w w'"

definition worker_start :: worker_sys where
  "worker_start = \<lparr>ws_q = mlq_New, ws_pc = Trying, ws_stopped = False, ws_done = False,
     ws_look = False, ws_stale = 0, ws_fire = 0, ws_owed = 0\<rparr>"

text \<open>The steps that put nothing into the queue and take nothing out.\<close>

definition worker_quiet :: "worker_sys \<Rightarrow> worker_sys \<Rightarrow> bool" where
  "worker_quiet w w' \<longleftrightarrow> worker_step w w' \<and> ws_q w' = ws_q w"

lemma Enqueue_differs: "Enqueue q it \<noteq> q"
proof
  assume eq: "Enqueue q it = q"
  let ?c = "itm_Class it" and ?d = "itm_Dest it"
  have "lv_flows (Enqueue q it ?c) ?d =
      Some (case lv_flows (q ?c) ?d of
          Some f \<Rightarrow> f\<lparr>fl_q := fl_q f @ [it]\<rparr>
        | None \<Rightarrow> \<lparr>fl_q = [it], fl_deficit = 0, fl_quantum = chooseQuantum ?c\<rparr>)"
    by (simp add: Enqueue_def Let_def split: option.split)
  then have "lv_flows (q ?c) ?d =
      Some (case lv_flows (q ?c) ?d of
          Some f \<Rightarrow> f\<lparr>fl_q := fl_q f @ [it]\<rparr>
        | None \<Rightarrow> \<lparr>fl_q = [it], fl_deficit = 0, fl_quantum = chooseQuantum ?c\<rparr>)"
    by (simp only: eq)
  then show False by (cases "lv_flows (q ?c) ?d") (auto dest: arg_cong [where f = fl_q])
qed

text \<open>A consumer that waits while no goroutine and no producer has a broadcast to make.\<close>

definition deaf :: "worker_sys \<Rightarrow> bool" where
  "deaf w \<longleftrightarrow> ws_pc w = Waiting \<and> \<not> ws_look w \<and> ws_stale w = 0 \<and> ws_fire w = 0 \<and> ws_owed w = 0"

lemma deaf_quiet: "deaf w \<Longrightarrow> worker_quiet w w' \<Longrightarrow> deaf w'"
  unfolding worker_quiet_def
  by (auto simp: deaf_def Enqueue_differs elim!: worker_stepE)

lemma deaf_for_good: "worker_quiet\<^sup>*\<^sup>* w w' \<Longrightarrow> deaf w \<Longrightarrow> deaf w'"
  by (induction rule: rtranclp_induct) (auto dest: deaf_quiet)

section \<open>The token bucket\<close>

record TokenBucket =
  tb_capacity :: int
  tb_tokens :: int
  tb_rate :: int
  tb_last :: "int option"

definition nanosPerSecond :: int where "nanosPerSecond = 1000000000"

definition NewTokenBucket :: "int \<Rightarrow> int \<Rightarrow> int \<Rightarrow> TokenBucket" where
  "NewTokenBucket ratePerSec capacity now =
     (let capacity = (if capacity \<le> 0 then ratePerSec else capacity) in
      \<lparr>tb_capacity = capacity, tb_tokens = capacity, tb_rate = ratePerSec, tb_last = Some now\<rparr>)"

text \<open>The refill part; \<open>tb_last = None\<close> is the zero time.\<close>

definition refill :: "TokenBucket \<Rightarrow> int \<Rightarrow> TokenBucket" where
  "refill b now =
     (let b = (case tb_last b of None \<Rightarrow> b\<lparr>tb_last := Some now\<rparr> | Some _ \<Rightarrow> b);
          dt = now - the (tb_last b)
      in if dt > 0 then
           let add = go_div (i64 (tb_rate b * dt)) nanosPerSecond in
           if add > 0 then
             b\<lparr>tb_tokens := min (i64 (tb_tokens b + add)) (tb_capacity b), tb_last := Some now\<rparr>
           else b
         else b)"

text \<open>\<open>None\<close> is the run-time panic of a division by a zero rate.\<close>

definition Allow :: "TokenBucket \<Rightarrow> int \<Rightarrow> int \<Rightarrow> ((bool \<times> int) \<times> TokenBucket) option" where
  "Allow b n now =
     (let b = refill b now in
      if tb_tokens b \<ge> n then Some ((True, 0), b\<lparr>tb_tokens := i64 (tb_tokens b - n)\<rparr>)
      else let need = i64 (n - tb_tokens b) in
        if tb_rate b = 0 then None
        else Some ((False, i64 (go_div (i64 (need * nanosPerSecond)) (tb_rate b))), b))"

section \<open>What a pop does to the flows\<close>

definition lv_items :: "level \<Rightarrow> string \<Rightarrow> Item list" where
  "lv_items lvl k = (case lv_flows lvl k of None \<Rightarrow> [] | Some f \<Rightarrow> fl_q f)"

definition flow_wf :: "Class \<Rightarrow> string \<Rightarrow> flow \<Rightarrow> bool" where
  "flow_wf c k f \<longleftrightarrow> fl_quantum f = chooseQuantum c \<and> 0 \<le> fl_deficit f \<and>
     fl_deficit f \<le> chooseQuantum c \<and>
     (\<forall>it \<in> set (fl_q f). itm_Dest it = k \<and> itm_Class it = c \<and> 0 \<le> itm_Size it)"

definition level_wf :: "Class \<Rightarrow> level \<Rightarrow> bool" where
  "level_wf c lvl \<longleftrightarrow> set (lv_order lvl) = dom (lv_flows lvl) \<and> distinct (lv_order lvl) \<and>
     (\<forall>k f. lv_flows lvl k = Some f \<longrightarrow> flow_wf c k f)"

lemma level_wf_flow: "level_wf c lvl \<Longrightarrow> lv_flows lvl k = Some f \<Longrightarrow> flow_wf c k f"
  by (simp add: level_wf_def)

lemma level_wf_upd:
  "level_wf c lvl \<Longrightarrow> lv_flows lvl k = Some f \<Longrightarrow> flow_wf c k f' \<Longrightarrow>
   level_wf c (lvl\<lparr>lv_flows := (lv_flows lvl)(k \<mapsto> f')\<rparr>) \<and>
   level_wf c (lvl\<lparr>lv_idx := i, lv_flows := (lv_flows lvl)(k \<mapsto> f')\<rparr>)"
  by (auto simp: level_wf_def insert_absorb domI)

definition mlq_wf :: "MultiLevelQueue \<Rightarrow> bool" where
  "mlq_wf q \<longleftrightarrow> (\<forall>c. level_wf c (q c))"

text \<open>A flow can send its first item, after the refill a visit would give it.\<close>

definition eligible :: "level \<Rightarrow> string \<Rightarrow> bool" where
  "eligible lvl k =
     (case lv_flows lvl k of
        None \<Rightarrow> False
      | Some f \<Rightarrow>
          (case fl_q f of
             [] \<Rightarrow> False
           | it # rest \<Rightarrow>
               itm_Size it \<le> (if fl_deficit f \<le> 0 then fl_deficit f + fl_quantum f else fl_deficit f)))"

text \<open>A flow whose positive deficit is smaller than its first item.\<close>

definition stuck :: "level \<Rightarrow> string \<Rightarrow> bool" where
  "stuck lvl k \<longleftrightarrow> (\<exists>f it rest. lv_flows lvl k = Some f \<and> fl_q f = it # rest \<and>
     0 < fl_deficit f \<and> fl_deficit f < itm_Size it)"

lemma chooseQuantum_pos: "0 < chooseQuantum c"
  by (cases c) simp_all

lemma visit_cases:
  assumes "level_wf c lvl"
  obtains (idle) "visit lvl j = (None, lvl)" "\<not> eligible lvl (lv_order lvl ! j)"
  | (blocked) f f' where "lv_flows lvl (lv_order lvl ! j) = Some f"
      "f' = f\<lparr>fl_deficit := (if fl_deficit f \<le> 0 then fl_deficit f + fl_quantum f else fl_deficit f)\<rparr>"
      "visit lvl j = (None, lvl\<lparr>lv_flows := (lv_flows lvl)(lv_order lvl ! j \<mapsto> f')\<rparr>)"
      "\<not> eligible lvl (lv_order lvl ! j)"
  | (served) f it rest f' i where "lv_flows lvl (lv_order lvl ! j) = Some f" "fl_q f = it # rest"
      "eligible lvl (lv_order lvl ! j)" "fl_q f' = rest" "fl_quantum f' = fl_quantum f"
      "0 \<le> fl_deficit f'" "fl_deficit f' \<le> fl_quantum f"
      "visit lvl j = (Some it, lvl\<lparr>lv_idx := i, lv_flows := (lv_flows lvl)(lv_order lvl ! j \<mapsto> f')\<rparr>)"
proof -
  let ?k = "lv_order lvl ! j"
  show thesis
  proof (cases "lv_flows lvl ?k")
    case None
    then show thesis by (intro idle) (simp_all add: visit_def eligible_def Let_def)
  next
    case (Some f)
    have wf: "fl_quantum f = chooseQuantum c" "0 \<le> fl_deficit f" "fl_deficit f \<le> fl_quantum f"
      "\<forall>it \<in> set (fl_q f). 0 \<le> itm_Size it"
      using level_wf_flow [OF assms Some] by (auto simp: flow_wf_def)
    let ?d = "if fl_deficit f \<le> 0 then fl_deficit f + fl_quantum f else fl_deficit f"
    have d: "0 < ?d" "?d \<le> fl_quantum f" using wf chooseQuantum_pos [of c] by auto
    show thesis
    proof (cases "fl_q f")
      case Nil
      then show thesis using Some by (intro idle) (simp_all add: visit_def eligible_def Let_def)
    next
      case (Cons it rest)
      show thesis
      proof (cases "itm_Size it \<le> ?d")
        case True
        let ?f = "f\<lparr>fl_q := rest, fl_deficit := ?d - itm_Size it\<rparr>"
        show thesis
          by (rule served [of f it rest "if rest = [] \<and> fl_deficit ?f \<ge> fl_quantum f * 4 then ?f\<lparr>fl_deficit := 0\<rparr> else ?f"
                "(j + 1) mod length (lv_order lvl)"])
            (use Some Cons True wf d in \<open>auto simp: visit_def eligible_def Let_def\<close>)
      next
        case False
        then show thesis using Some Cons
          by (intro blocked [of f "f\<lparr>fl_deficit := ?d\<rparr>"]) (auto simp: visit_def eligible_def Let_def)
      qed
    qed
  qed
qed

text \<open>
  \<open>pops c lvl r lvl'\<close>: from \<open>lvl\<close> to \<open>lvl'\<close> exactly the item \<open>r\<close> (if any) left its flow at the
  front, every other flow kept its items, and no stuck flow was served or freed.
\<close>

definition pops :: "Class \<Rightarrow> level \<Rightarrow> Item option \<Rightarrow> level \<Rightarrow> bool" where
  "pops c lvl r lvl' \<longleftrightarrow> level_wf c lvl' \<and>
     (case r of
        None \<Rightarrow> lv_items lvl' = lv_items lvl
      | Some it \<Rightarrow> itm_Class it = c \<and> itm_Size it \<le> chooseQuantum c \<and>
          \<not> stuck lvl (itm_Dest it) \<and>
          lv_items lvl = (lv_items lvl')(itm_Dest it := it # lv_items lvl' (itm_Dest it))) \<and>
     (\<forall>k. stuck lvl k \<longrightarrow> stuck lvl' k) \<and>
     (r = None \<longrightarrow> lv_order lvl' = lv_order lvl \<and> eligible lvl' = eligible lvl)"

lemma stuck_not_eligible: "stuck lvl k \<Longrightarrow> \<not> eligible lvl k"
  by (auto simp: stuck_def eligible_def)

lemma visit_pops:
  assumes wf: "level_wf c lvl"
  shows "pops c lvl (fst (visit lvl j)) (snd (visit lvl j)) \<and>
    (fst (visit lvl j) \<noteq> None \<longleftrightarrow> eligible lvl (lv_order lvl ! j))"
  using wf
proof (cases rule: visit_cases [of c lvl j])
  case idle
  then show ?thesis using wf by (simp add: pops_def)
next
  case (blocked f f')
  let ?k = "lv_order lvl ! j" and ?l = "lvl\<lparr>lv_flows := (lv_flows lvl)(lv_order lvl ! j \<mapsto> f')\<rparr>"
  have fw: "flow_wf c ?k f" by (rule level_wf_flow [OF wf blocked(1)])
  then have q: "0 < fl_quantum f" "0 \<le> fl_deficit f" using chooseQuantum_pos [of c] by (simp_all add: flow_wf_def)
  have "flow_wf c ?k f'" using fw q blocked(2) by (auto simp: flow_wf_def)
  then have "level_wf c ?l" using level_wf_upd [OF wf blocked(1)] by blast
  moreover have "lv_items ?l = lv_items lvl" using blocked(1,2) by (auto simp: lv_items_def fun_eq_iff)
  moreover have "stuck lvl k \<longrightarrow> stuck ?l k" for k using blocked(1,2) by (auto simp: stuck_def)
  moreover have "eligible ?l = eligible lvl"
    using blocked(1,2) q by (auto simp: eligible_def fun_eq_iff split: list.split)
  ultimately show ?thesis using blocked(3,4) by (simp add: pops_def)
next
  case (served f it rest f' i)
  let ?k = "lv_order lvl ! j"
  let ?l = "lvl\<lparr>lv_idx := i, lv_flows := (lv_flows lvl)(lv_order lvl ! j \<mapsto> f')\<rparr>"
  have fw: "flow_wf c ?k f" by (rule level_wf_flow [OF wf served(1)])
  then have it: "itm_Dest it = ?k" "itm_Class it = c" using served(2) by (auto simp: flow_wf_def)
  have size: "itm_Size it \<le> chooseQuantum c"
    using fw served(1-3) by (auto simp: eligible_def flow_wf_def split: if_splits)
  have "flow_wf c ?k f'" using fw served(2,4-7) by (auto simp: flow_wf_def)
  then have "level_wf c ?l" using level_wf_upd [OF wf served(1)] by blast
  moreover have "lv_items lvl = (lv_items ?l)(itm_Dest it := it # lv_items ?l (itm_Dest it))"
    using served(1,2,4) it by (auto simp: lv_items_def fun_eq_iff)
  moreover have ns: "\<not> stuck lvl ?k" using stuck_not_eligible served(3) by blast
  moreover have "stuck lvl k \<longrightarrow> stuck ?l k" for k using ns by (cases "k = ?k") (auto simp: stuck_def)
  ultimately show ?thesis using served(3,8) it size by (simp add: pops_def)
qed

lemma pops_refl: "level_wf c lvl \<Longrightarrow> pops c lvl None lvl"
  by (simp add: pops_def)

lemma pops_trans:
  assumes "pops c a None b" "pops c b r d"
  shows "pops c a r d"
  using assms by (cases r) (auto simp: pops_def)

lemma pops_wf: "pops c lvl r lvl' \<Longrightarrow> level_wf c lvl'"
  by (simp add: pops_def)

lemma scan_pops:
  "level_wf c lvl \<Longrightarrow> pops c lvl (fst (scan lvl js)) (snd (scan lvl js)) \<and>
     (fst (scan lvl js) \<noteq> None \<longleftrightarrow> (\<exists>j \<in> set js. eligible lvl (lv_order lvl ! j)))"
proof (induction js arbitrary: lvl)
  case Nil
  then show ?case by (simp add: pops_refl)
next
  case (Cons j js)
  obtain r l where v: "visit lvl j = (r, l)" by (cases "visit lvl j")
  have vp: "pops c lvl r l" "r \<noteq> None \<longleftrightarrow> eligible lvl (lv_order lvl ! j)"
    using visit_pops [OF Cons.prems, of j] v by simp_all
  show ?case
  proof (cases r)
    case (Some it)
    then show ?thesis using vp v by auto
  next
    case None
    have same: "lv_order l = lv_order lvl" "eligible l = eligible lvl" using vp(1) None by (simp_all add: pops_def)
    note IH = Cons.IH [OF pops_wf [OF vp(1)]]
    have "pops c lvl (fst (scan l js)) (snd (scan l js))"
      using pops_trans [OF vp(1) [unfolded None] conjunct1 [OF IH]] .
    then show ?thesis using IH vp(2) v None same by simp
  qed
qed

lemma all_positions: "0 < n \<Longrightarrow> (\<lambda>i. (start + i) mod n) ` {0 ..< n} = {0 ..< (n :: nat)}"
proof
  assume n: "0 < n"
  show "(\<lambda>i. (start + i) mod n) ` {0 ..< n} \<subseteq> {0 ..< n}" using n by auto
  show "{0 ..< n} \<subseteq> (\<lambda>i. (start + i) mod n) ` {0 ..< n}"
  proof
    fix j assume j: "j \<in> {0 ..< n}"
    let ?i = "(j + (n - start mod n)) mod n"
    have "(start + ?i) mod n = (start mod n + (j + (n - start mod n))) mod n"
      by (simp add: mod_simps)
    also have "start mod n + (j + (n - start mod n)) = j + n" using mod_less_divisor [OF n, of start] by simp
    also have "(j + n) mod n = j" using j by simp
    finally show "j \<in> (\<lambda>i. (start + i) mod n) ` {0 ..< n}" using n by (intro image_eqI [of _ _ ?i]) auto
  qed
qed

lemma level_pop_pops:
  assumes wf: "level_wf c lvl"
  shows "pops c lvl (fst (level_pop lvl)) (snd (level_pop lvl)) \<and>
    (fst (level_pop lvl) \<noteq> None \<longleftrightarrow> (\<exists>k. eligible lvl k))"
proof (cases "lv_order lvl = []")
  case True
  then have "lv_flows lvl = Map.empty" using wf by (auto simp: level_wf_def)
  then show ?thesis using True wf by (simp add: level_pop_def pops_refl eligible_def)
next
  case False
  let ?js = "map (\<lambda>i. (lv_idx lvl + i) mod length (lv_order lvl)) [0 ..< length (lv_order lvl)]"
  have "set ?js = {0 ..< length (lv_order lvl)}"
    using False all_positions [of "length (lv_order lvl)" "lv_idx lvl"] by simp
  moreover have "eligible lvl k \<Longrightarrow> k \<in> set (lv_order lvl)" for k
    using wf by (auto simp: eligible_def level_wf_def split: option.splits)
  ultimately have "(\<exists>j \<in> set ?js. eligible lvl (lv_order lvl ! j)) \<longleftrightarrow> (\<exists>k. eligible lvl k)"
    by (metis atLeastLessThan_iff in_set_conv_nth le0)
  then show ?thesis using scan_pops [OF wf, of ?js] False by (simp add: level_pop_def Let_def)
qed

definition pop_at :: "Item option \<Rightarrow> Class \<Rightarrow> Item option" where
  "pop_at r c = (case r of None \<Rightarrow> None | Some it \<Rightarrow> if itm_Class it = c then Some it else None)"

fun class_rank :: "Class \<Rightarrow> nat" where
  "class_rank L0Control = 0"
| "class_rank L1Realtime = 1"
| "class_rank L2Bulk = 2"

lemma pop_levels_pops:
  assumes "mlq_wf q" "distinct cs" "sorted (map class_rank cs)"
  shows "(\<forall>c. pops c (q c) (pop_at (fst (pop_levels q cs)) c) (snd (pop_levels q cs) c)) \<and>
    (fst (pop_levels q cs) = None \<longleftrightarrow> (\<forall>c \<in> set cs. \<forall>k. \<not> eligible (q c) k)) \<and>
    (\<forall>it c k. fst (pop_levels q cs) = Some it \<longrightarrow> c \<in> set cs \<longrightarrow> class_rank c < class_rank (itm_Class it) \<longrightarrow>
       \<not> eligible (q c) k) \<and>
    (\<forall>it. fst (pop_levels q cs) = Some it \<longrightarrow> itm_Class it \<in> set cs)"
  using assms
proof (induction cs arbitrary: q)
  case Nil
  then show ?case by (simp add: pop_at_def mlq_wf_def pops_refl)
next
  case (Cons c cs)
  have wf: "level_wf d (q d)" for d using Cons.prems(1) by (simp add: mlq_wf_def)
  obtain r l where lp: "level_pop (q c) = (r, l)" by (cases "level_pop (q c)")
  have vp: "pops c (q c) r l" "r \<noteq> None \<longleftrightarrow> (\<exists>k. eligible (q c) k)"
    using level_pop_pops [OF wf, of c] lp by simp_all
  show ?case
  proof (cases r)
    case (Some it)
    have cl: "itm_Class it = c" using vp(1) Some by (simp add: pops_def)
    have "\<not> class_rank d < class_rank c" if "d \<in> set (c # cs)" for d
      using that Cons.prems(3) by auto
    then show ?thesis using Some lp vp wf cl by (auto simp: pop_at_def pops_refl)
  next
    case None
    define q' where "q' = q(c := l)"
    have q': "q' c = l" "d \<noteq> c \<Longrightarrow> q' d = q d" for d by (simp_all add: q'_def)
    have "mlq_wf q'" using Cons.prems(1) pops_wf [OF vp(1)] by (simp add: mlq_wf_def q'_def)
    note IH = Cons.IH [OF this] and cs = Cons.prems(2,3)
    have IHp: "pops d (q' d) (pop_at (fst (pop_levels q' cs)) d) (snd (pop_levels q' cs) d)" for d
      using IH cs by simp
    have other: "q' d = q d" if "d \<in> set cs" for d
      using that cs(1) q'(2) [of d] by (cases "d = c") auto
    have pop: "pops d (q d) (pop_at (fst (pop_levels q' cs)) d) (snd (pop_levels q' cs) d)" for d
      using IHp [of d] pops_trans [of c "q c" l] vp(1) None q' by (cases "d = c") auto
    have eq: "pop_levels q (c # cs) = pop_levels q' cs" using lp None by (simp add: q'_def)
    have rest: "fst (pop_levels q' cs) = None \<longleftrightarrow> (\<forall>c \<in> set cs. \<forall>k. \<not> eligible (q c) k)"
      "\<And>it d k. fst (pop_levels q' cs) = Some it \<Longrightarrow> d \<in> set cs \<Longrightarrow> class_rank d < class_rank (itm_Class it) \<Longrightarrow>
         \<not> eligible (q d) k"
      "\<And>it. fst (pop_levels q' cs) = Some it \<Longrightarrow> itm_Class it \<in> set cs"
      using IH cs other by auto
    show ?thesis unfolding eq using pop rest None vp(2) by auto
  qed
qed

section \<open>Runs of the queue\<close>

definition mlq_items :: "MultiLevelQueue \<Rightarrow> Class \<Rightarrow> string \<Rightarrow> Item list" where
  "mlq_items q c k = lv_items (q c) k"

lemma tryPop_pops:
  assumes "mlq_wf q"
  shows "pops c (q c) (pop_at (fst (tryPop q)) c) (snd (tryPop q) c)"
    and "fst (tryPop q) = None \<longleftrightarrow> (\<forall>c k. \<not> eligible (q c) k)"
    and "fst (tryPop q) = Some it \<Longrightarrow> class_rank c < class_rank (itm_Class it) \<Longrightarrow> \<not> eligible (q c) k"
    and "mlq_wf (snd (tryPop q))"
proof -
  let ?cs = "[L0Control, L1Realtime, L2Bulk]"
  have cs: "distinct ?cs" "sorted (map class_rank ?cs)" by simp_all
  have all: "c \<in> set ?cs" for c by (cases c) simp_all
  note p = pop_levels_pops [OF assms cs, folded tryPop_def]
  show pops: "pops c (q c) (pop_at (fst (tryPop q)) c) (snd (tryPop q) c)" for c using p by simp
  show "fst (tryPop q) = None \<longleftrightarrow> (\<forall>c k. \<not> eligible (q c) k)" using p all by blast
  show "fst (tryPop q) = Some it \<Longrightarrow> class_rank c < class_rank (itm_Class it) \<Longrightarrow> \<not> eligible (q c) k"
    using p all by blast
  show "mlq_wf (snd (tryPop q))" unfolding mlq_wf_def using pops_wf [OF pops] by blast
qed

lemma tryPop_items:
  assumes "mlq_wf q"
  shows "mlq_items q c k =
    (case fst (tryPop q) of
       Some it \<Rightarrow> if itm_Class it = c \<and> itm_Dest it = k then [it] else []
     | None \<Rightarrow> []) @ mlq_items (snd (tryPop q)) c k"
  using tryPop_pops(1) [OF assms, of c]
  by (cases "fst (tryPop q)") (auto simp: pops_def pop_at_def mlq_items_def split: if_splits)

lemma tryPop_stuck:
  assumes "mlq_wf q" "stuck (q c) k"
  shows "stuck (snd (tryPop q) c) k"
    and "fst (tryPop q) = Some it \<Longrightarrow> \<not> (itm_Class it = c \<and> itm_Dest it = k)"
  using tryPop_pops(1) [OF assms(1), of c] assms(2)
  by (auto simp: pops_def pop_at_def split: option.splits if_splits)

lemma Enqueue_wf:
  assumes "mlq_wf q" "0 \<le> itm_Size it"
  shows "mlq_wf (Enqueue q it)"
proof -
  have wf: "level_wf c (q c)" for c using assms(1) by (simp add: mlq_wf_def)
  have "level_wf (itm_Class it) (Enqueue q it (itm_Class it))"
  proof (cases "lv_flows (q (itm_Class it)) (itm_Dest it)")
    case None
    then show ?thesis using wf [of "itm_Class it"] assms(2) chooseQuantum_pos [of "itm_Class it"]
      by (auto simp: Enqueue_def Let_def level_wf_def flow_wf_def)
  next
    case (Some f)
    have "flow_wf (itm_Class it) (itm_Dest it) (f\<lparr>fl_q := fl_q f @ [it]\<rparr>)"
      using level_wf_flow [OF wf Some] assms(2) by (auto simp: flow_wf_def)
    then show ?thesis using level_wf_upd [OF wf Some] Some by (simp add: Enqueue_def Let_def)
  qed
  then show ?thesis using wf by (auto simp: mlq_wf_def Enqueue_def Let_def split: option.splits)
qed

lemma Enqueue_items:
  "mlq_items (Enqueue q it) c k =
     mlq_items q c k @ (if itm_Class it = c \<and> itm_Dest it = k then [it] else [])"
  by (auto simp: Enqueue_def Let_def mlq_items_def lv_items_def split: option.split)

lemma Enqueue_stuck: "stuck (q c) k \<Longrightarrow> stuck (Enqueue q it c) k"
  by (auto simp: Enqueue_def Let_def stuck_def split: option.split)

lemma mlq_wf_New: "mlq_wf mlq_New"
  by (simp add: mlq_wf_def mlq_New_def level_wf_def)

datatype q_op = QEnq Item | QPop

fun q_run :: "MultiLevelQueue \<Rightarrow> q_op list \<Rightarrow> Item list \<times> MultiLevelQueue" where
  "q_run q [] = ([], q)"
| "q_run q (QEnq it # xs) = q_run (Enqueue q it) xs"
| "q_run q (QPop # xs) =
     (case tryPop q of
        (None, q) \<Rightarrow> q_run q xs
      | (Some it, q) \<Rightarrow> (case q_run q xs of (its, q) \<Rightarrow> (it # its, q)))"

fun enqueued :: "q_op list \<Rightarrow> Item list" where
  "enqueued [] = []"
| "enqueued (QEnq it # xs) = it # enqueued xs"
| "enqueued (QPop # xs) = enqueued xs"

definition of_flow :: "Class \<Rightarrow> string \<Rightarrow> Item \<Rightarrow> bool" where
  "of_flow c k it \<longleftrightarrow> itm_Class it = c \<and> itm_Dest it = k"

lemma q_run_fifo:
  "mlq_wf q \<Longrightarrow> \<forall>it \<in> set (enqueued xs). 0 \<le> itm_Size it \<Longrightarrow>
   mlq_items q c k @ filter (of_flow c k) (enqueued xs) =
     filter (of_flow c k) (fst (q_run q xs)) @ mlq_items (snd (q_run q xs)) c k \<and>
   mlq_wf (snd (q_run q xs))"
proof (induction q xs rule: q_run.induct)
  case (1 q)
  then show ?case by simp
next
  case (2 q it xs)
  then show ?case by (auto simp: Enqueue_items of_flow_def dest: Enqueue_wf)
next
  case (3 q xs)
  obtain r q' where t: "tryPop q = (r, q')" by (cases "tryPop q")
  have wf: "mlq_wf q'" using tryPop_pops(4) [OF "3.prems"(1)] t by simp
  have items: "mlq_items q c k = (case r of
       Some it \<Rightarrow> if itm_Class it = c \<and> itm_Dest it = k then [it] else [] | None \<Rightarrow> []) @ mlq_items q' c k"
    using tryPop_items [OF "3.prems"(1), of c k] t by simp
  show ?case
  proof (cases r)
    case None
    then show ?thesis using "3.IH"(1) [OF t [symmetric, unfolded None] refl] wf "3.prems"(2) t items
      by (simp del: append_assoc)
  next
    case (Some it)
    have IH: "mlq_items q' c k @ filter (of_flow c k) (enqueued xs) =
       filter (of_flow c k) (fst (q_run q' xs)) @ mlq_items (snd (q_run q' xs)) c k \<and>
       mlq_wf (snd (q_run q' xs))"
      using "3.IH"(2) [of r q' it] t Some wf "3.prems"(2) by simp
    then show ?thesis using t Some items by (auto simp: of_flow_def [of c k it] case_prod_beta)
  qed
qed

lemma q_run_stuck:
  "mlq_wf q \<Longrightarrow> \<forall>it \<in> set (enqueued xs). 0 \<le> itm_Size it \<Longrightarrow> stuck (q c) k \<Longrightarrow>
   filter (of_flow c k) (fst (q_run q xs)) = []"
proof (induction q xs rule: q_run.induct)
  case (1 q)
  then show ?case by simp
next
  case (2 q it xs)
  then show ?case by (simp add: Enqueue_wf Enqueue_stuck)
next
  case (3 q xs)
  obtain r q' where t: "tryPop q = (r, q')" by (cases "tryPop q")
  have wf: "mlq_wf q'" using tryPop_pops(4) [OF "3.prems"(1)] t by simp
  have st: "stuck (q' c) k" using tryPop_stuck(1) [OF "3.prems"(1,3)] t by simp
  show ?case
  proof (cases r)
    case None
    then show ?thesis using "3.IH"(1) [of r q'] t wf st "3.prems"(2) by simp
  next
    case (Some it)
    have "\<not> of_flow c k it" using tryPop_stuck(2) [OF "3.prems"(1,3), of it] t Some by (simp add: of_flow_def)
    then show ?thesis using "3.IH"(2) [of r q' it] t Some wf st "3.prems"(2) by (simp add: case_prod_beta)
  qed
qed

lemma q_run_sizes:
  "mlq_wf q \<Longrightarrow> \<forall>it \<in> set (enqueued xs). 0 \<le> itm_Size it \<Longrightarrow>
   \<forall>it \<in> set (fst (q_run q xs)). itm_Size it \<le> chooseQuantum (itm_Class it)"
proof (induction q xs rule: q_run.induct)
  case (1 q)
  then show ?case by simp
next
  case (2 q it xs)
  then show ?case by (simp add: Enqueue_wf)
next
  case (3 q xs)
  obtain r q' where t: "tryPop q = (r, q')" by (cases "tryPop q")
  have wf: "mlq_wf q'" using tryPop_pops(4) [OF "3.prems"(1)] t by simp
  show ?case
  proof (cases r)
    case None
    then show ?thesis using "3.IH"(1) [of r q'] t wf "3.prems"(2) by simp
  next
    case (Some it)
    have "itm_Size it \<le> chooseQuantum (itm_Class it)"
      using tryPop_pops(1) [OF "3.prems"(1), of "itm_Class it"] t Some by (simp add: pops_def pop_at_def)
    then show ?thesis using "3.IH"(2) [of r q' it] t Some wf "3.prems"(2) by (simp add: case_prod_beta)
  qed
qed

section \<open>What the bucket grants\<close>

text \<open>The total granted to a sequence of requests \<open>(n, time)\<close>, and the bucket after it.\<close>

fun allow_run :: "TokenBucket \<Rightarrow> (int \<times> int) list \<Rightarrow> int \<times> TokenBucket" where
  "allow_run b [] = (0, b)"
| "allow_run b ((n, now) # xs) =
     (case Allow b n now of
        None \<Rightarrow> (0, b)
      | Some ((ok, w), b) \<Rightarrow> (case allow_run b xs of (g, b) \<Rightarrow> ((if ok then n else 0) + g, b)))"

definition tb_ok :: "TokenBucket \<Rightarrow> int \<Rightarrow> bool" where
  "tb_ok b now \<longleftrightarrow> 0 \<le> tb_tokens b \<and> tb_tokens b \<le> tb_capacity b \<and> tb_capacity b < 2 ^ 62 \<and>
     0 < tb_rate b \<and> (\<exists>l. tb_last b = Some l \<and> l \<le> now \<and> tb_rate b * (now - l) < 2 ^ 63)"

lemma refill_effect:
  assumes "tb_ok b now" "tb_last b = Some l"
  shows "tb_capacity (refill b now) = tb_capacity b" "tb_rate (refill b now) = tb_rate b"
    "(refill b now = b \<and> tb_rate b * (now - l) < nanosPerSecond) \<or>
     (tb_tokens (refill b now) = min (tb_tokens b + tb_rate b * (now - l) div nanosPerSecond) (tb_capacity b) \<and>
      tb_last (refill b now) = Some now)"
proof -
  let ?x = "tb_rate b * (now - l)"
  have x: "0 \<le> ?x" "?x < 2 ^ 63" using assms by (auto simp: tb_ok_def)
  have add: "go_div (i64 ?x) nanosPerSecond = ?x div nanosPerSecond"
    using x by (simp add: i64_id go_div_nonneg nanosPerSecond_def)
  have "?x div nanosPerSecond < 2 ^ 62" using x by (simp add: nanosPerSecond_def)
  moreover have "0 \<le> ?x div nanosPerSecond" using x by (simp add: nanosPerSecond_def pos_imp_zdiv_nonneg_iff)
  ultimately have sum: "i64 (tb_tokens b + ?x div nanosPerSecond) = tb_tokens b + ?x div nanosPerSecond"
    using assms(1) by (intro i64_id) (auto simp: tb_ok_def)
  show "tb_capacity (refill b now) = tb_capacity b" "tb_rate (refill b now) = tb_rate b"
    using assms(2) by (simp_all add: refill_def Let_def)
  have small: "?x < nanosPerSecond" if "\<not> 0 < ?x div nanosPerSecond"
    using that by (simp add: nanosPerSecond_def pos_imp_zdiv_pos_iff)
  have "now - l = 0 \<or> 0 < now - l" using assms by (auto simp: tb_ok_def)
  then show "(refill b now = b \<and> ?x < nanosPerSecond) \<or>
     (tb_tokens (refill b now) = min (tb_tokens b + ?x div nanosPerSecond) (tb_capacity b) \<and>
      tb_last (refill b now) = Some now)"
    using assms(2) small add sum by (auto simp: refill_def Let_def nanosPerSecond_def)
qed

lemma allow_run_bound:
  assumes "0 \<le> tb_tokens b" "tb_tokens b \<le> tb_capacity b" "tb_capacity b < 2 ^ 62" "0 < tb_rate b"
    and "tb_last b = Some l" "tb_rate b * (T - l) < 2 ^ 63" "l \<le> T"
    and "sorted (map snd xs)" "\<forall>x \<in> set xs. l \<le> snd x \<and> snd x \<le> T \<and> 0 \<le> fst x"
  shows "(fst (allow_run b xs) + tb_tokens (snd (allow_run b xs))) * nanosPerSecond
      \<le> tb_tokens b * nanosPerSecond + tb_rate b * (T - l) \<and> 0 \<le> tb_tokens (snd (allow_run b xs))"
  using assms
proof (induction xs arbitrary: b l)
  case Nil
  then show ?case by (simp add: mult_nonneg_nonneg)
next
  case (Cons x xs)
  obtain n now where x: "x = (n, now)" by (cases x)
  let ?N = nanosPerSecond and ?b = "refill b now"
  have now: "l \<le> now" "now \<le> T" "0 \<le> n" using Cons.prems(9) x by auto
  have "tb_rate b * (now - l) \<le> tb_rate b * (T - l)" using now Cons.prems(4) by (intro mult_left_mono) auto
  then have "tb_rate b * (now - l) < 2 ^ 63" using Cons.prems(6) by linarith
  then have ok: "tb_ok b now" using Cons.prems(1-5) now by (simp add: tb_ok_def)
  note e = refill_effect [OF ok Cons.prems(5)]
  obtain l1 where l1: "tb_last ?b = Some l1" "l1 = l \<or> l1 = now" "l \<le> l1" "l1 \<le> T" "\<forall>y \<in> set xs. l1 \<le> snd y"
    using e(3) Cons.prems(5,8,9) x now by fastforce
  have pos: "0 \<le> tb_tokens ?b" "tb_tokens ?b \<le> tb_capacity b"
    using e(3) Cons.prems(1,2,4) now by (auto simp: nanosPerSecond_def pos_imp_zdiv_nonneg_iff)
  have fl: "tb_rate b * (now - l) div ?N * ?N \<le> tb_rate b * (now - l)"
    by (simp add: nanosPerSecond_def div_times_less_eq_dividend)
  have pot: "tb_tokens ?b * ?N + tb_rate b * (T - l1) \<le> tb_tokens b * ?N + tb_rate b * (T - l)"
  proof (cases "?b = b")
    case True
    then show ?thesis using l1(1) Cons.prems(5) by simp
  next
    case False
    then have t: "tb_tokens ?b \<le> tb_tokens b + tb_rate b * (now - l) div ?N" "l1 = now" using e(3) l1(1) by auto
    have "tb_tokens ?b * ?N \<le> (tb_tokens b + tb_rate b * (now - l) div ?N) * ?N"
      using t(1) by (intro mult_right_mono) (auto simp: nanosPerSecond_def)
    then show ?thesis using t(2) fl by (simp add: algebra_simps)
  qed
  have rate: "tb_rate b * (T - l1) < 2 ^ 63"
    using Cons.prems(4,6) l1(3) mult_left_mono [of "T - l1" "T - l" "tb_rate b"] by linarith
  have later: "sorted (map snd xs)" "\<forall>y \<in> set xs. l1 \<le> snd y \<and> snd y \<le> T \<and> 0 \<le> fst y"
    using Cons.prems(8,9) l1(5) x by auto
  show ?case
  proof (cases "n \<le> tb_tokens ?b")
    case True
    let ?b2 = "?b\<lparr>tb_tokens := tb_tokens ?b - n\<rparr>"
    have "i64 (tb_tokens ?b - n) = tb_tokens ?b - n"
      using True pos now Cons.prems(3) by (intro i64_id) auto
    then have a: "allow_run b (x # xs) = (n + fst (allow_run ?b2 xs), snd (allow_run ?b2 xs))"
      using True x by (simp add: Allow_def Let_def case_prod_beta)
    have "(fst (allow_run ?b2 xs) + tb_tokens (snd (allow_run ?b2 xs))) * ?N
        \<le> tb_tokens ?b2 * ?N + tb_rate ?b2 * (T - l1) \<and> 0 \<le> tb_tokens (snd (allow_run ?b2 xs))"
      by (rule Cons.IH) (use True pos now e l1 rate later Cons.prems in auto)
    then show ?thesis using a pot e(2) by (simp add: algebra_simps)
  next
    case False
    have a: "allow_run b (x # xs) = allow_run ?b xs"
      using False x Cons.prems(4) e(2) by (simp add: Allow_def Let_def case_prod_beta)
    have "(fst (allow_run ?b xs) + tb_tokens (snd (allow_run ?b xs))) * ?N
        \<le> tb_tokens ?b * ?N + tb_rate ?b * (T - l1) \<and> 0 \<le> tb_tokens (snd (allow_run ?b xs))"
      by (rule Cons.IH) (use pos now e l1 rate later Cons.prems in auto)
    then show ?thesis using a pot e(2) by simp
  qed
qed

section \<open>Properties\<close>

text \<open>
  C11: no item is lost, duplicated or reordered within a flow: after any sequence of \<open>Enqueue\<close>
  and \<open>tryPop\<close> calls, for every class and destination, the items enqueued are the items popped
  followed by the items still queued, in order.
\<close>

theorem queue_fifo_per_flow:
  assumes "\<forall>it \<in> set (enqueued xs). 0 \<le> itm_Size it"
  shows "filter (of_flow c k) (enqueued xs) =
    filter (of_flow c k) (fst (q_run mlq_New xs)) @ mlq_items (snd (q_run mlq_New xs)) c k"
  using q_run_fifo [OF mlq_wf_New assms, of c k] by (simp add: mlq_items_def mlq_New_def lv_items_def)

definition sample_item :: "nat \<Rightarrow> Item" where
  "sample_item i = \<lparr>itm_Bytes = [], itm_Dest = ''d'', itm_Size = 5000, itm_Class = L1Realtime,
     itm_Deadline = 0, itm_Src = ''s'', itm_Arrived = int i\<rparr>"

definition sample_flow :: "q_op list" where
  "sample_flow = [QEnq (sample_item 0), QEnq (sample_item 1), QPop]"

lemma sample_flow_run:
  "q_run mlq_New sample_flow = ([sample_item 0], mlq_New(L1Realtime :=
     \<lparr>lv_flows = [''d'' \<mapsto> \<lparr>fl_q = [sample_item 1], fl_deficit = 3192, fl_quantum = 8192\<rparr>],
      lv_order = [''d''], lv_idx = 0\<rparr>))"
  by (simp add: sample_flow_def sample_item_def Enqueue_def mlq_New_def tryPop_def level_pop_def
      visit_def Let_def fun_eq_iff)

theorem queue_fifo_per_flow_witness:
  "fst (q_run mlq_New sample_flow) @ mlq_items (snd (q_run mlq_New sample_flow)) L1Realtime ''d'' =
     [sample_item 0, sample_item 1]"
proof -
  have "filter (of_flow L1Realtime ''d'') (enqueued sample_flow) =
    filter (of_flow L1Realtime ''d'') (fst (q_run mlq_New sample_flow)) @
    mlq_items (snd (q_run mlq_New sample_flow)) L1Realtime ''d''"
    by (rule queue_fifo_per_flow) (simp add: sample_flow_def sample_item_def)
  then show ?thesis by (simp add: sample_flow_run of_flow_def sample_item_def) (simp add: sample_flow_def sample_item_def of_flow_def)
qed

text \<open>
  C12: \<open>tryPop\<close> in any reachable state: it finds nothing exactly when no flow of any class is
  eligible (its first item fits the deficit it would have after a refill), and what it returns
  never overtakes an eligible flow of a higher class.
\<close>

theorem queue_strict_priority:
  assumes "\<forall>it \<in> set (enqueued xs). 0 \<le> itm_Size it" "q = snd (q_run mlq_New xs)"
  shows "(fst (tryPop q) = None \<longleftrightarrow> (\<forall>c k. \<not> eligible (q c) k)) \<and>
    (\<forall>it c k. fst (tryPop q) = Some it \<longrightarrow> class_rank c < class_rank (itm_Class it) \<longrightarrow> \<not> eligible (q c) k)"
proof -
  have "mlq_wf q" using q_run_fifo [OF mlq_wf_New assms(1)] assms(2) by simp
  from tryPop_pops(2,3) [OF this] show ?thesis by blast
qed

theorem queue_strict_priority_witness:
  "fst (tryPop (snd (q_run mlq_New sample_flow))) = None"
proof -
  have "\<forall>c k. \<not> eligible (snd (q_run mlq_New sample_flow) c) k"
    by (simp add: sample_flow_run eligible_def mlq_New_def sample_item_def)
  then show ?thesis
    using queue_strict_priority [of sample_flow "snd (q_run mlq_New sample_flow)"]
    by (simp add: sample_flow_run) (simp add: sample_flow_def sample_item_def)
qed

text \<open>
  C13: deficit round robin loses whole flows: once a flow's deficit is positive but smaller than
  its first item, no later sequence of operations returns any item of that flow, because only a
  deficit of zero or less is refilled. Two messages of 5000 bytes to one destination are enough.
\<close>

theorem drr_starves_flow:
  assumes "\<forall>it \<in> set (enqueued xs). 0 \<le> itm_Size it" "stuck (snd (q_run mlq_New xs) c) k"
    and "\<forall>it \<in> set (enqueued ys). 0 \<le> itm_Size it"
  shows "filter (of_flow c k) (fst (q_run (snd (q_run mlq_New xs)) ys)) = []"
proof (rule q_run_stuck)
  show "mlq_wf (snd (q_run mlq_New xs))" using q_run_fifo [OF mlq_wf_New assms(1)] by simp
qed (rule assms)+

theorem drr_starves_flow_witness:
  "filter (of_flow L1Realtime ''d'') (fst (q_run (snd (q_run mlq_New sample_flow)) [QPop, QPop, QPop])) = []"
proof (rule drr_starves_flow)
  show "\<forall>it \<in> set (enqueued sample_flow). 0 \<le> itm_Size it"
    by (simp add: sample_flow_def sample_item_def)
  show "stuck (snd (q_run mlq_New sample_flow) L1Realtime) ''d''"
    by (simp add: sample_flow_run stuck_def sample_item_def)
qed simp

text \<open>
  No item larger than the quantum of its class (2, 8 or 64 KiB) is ever returned, so such an
  item blocks its flow for good.
\<close>

theorem oversized_item_never_sent:
  assumes "\<forall>it \<in> set (enqueued xs). 0 \<le> itm_Size it" "it \<in> set (fst (q_run mlq_New xs))"
  shows "itm_Size it \<le> chooseQuantum (itm_Class it)"
  using q_run_sizes [OF mlq_wf_New assms(1)] assms(2) by blast

theorem oversized_item_never_sent_witness:
  "itm_Size (sample_item 0) \<le> chooseQuantum (itm_Class (sample_item 0))"
  by (rule oversized_item_never_sent [of sample_flow])
    (simp_all add: sample_flow_run, simp add: sample_flow_def sample_item_def)

text \<open>
  C14: \<open>Dequeue\<close> can miss a wake-up and \<open>stop\<close>: a state is reachable in which \<open>stop\<close> is open, the
  consumer waits and a queued item could be returned, and from which it waits for ever: as long as
  nothing else is enqueued no sequence of steps ends the wait, those after \<open>stop\<close> is closed
  included, and closing it is such a step.
\<close>

theorem dequeue_lost_wakeup:
  "\<exists>w. worker_step\<^sup>*\<^sup>* worker_start w \<and> \<not> ws_stopped w \<and> fst (tryPop (ws_q w)) \<noteq> None \<and>
     (\<exists>w'. worker_quiet w w' \<and> ws_stopped w') \<and>
     {w'. worker_quiet\<^sup>*\<^sup>* w w'} \<subseteq> {w'. ws_pc w' = Waiting}"
proof -
  let ?it = "sample_item 0"
  let ?a = "worker_start\<lparr>ws_pc := FoundNothing\<rparr>"
  let ?b = "?a\<lparr>ws_q := Enqueue mlq_New ?it, ws_owed := 1\<rparr>"
  let ?c = "?b\<lparr>ws_owed := 0\<rparr>"
  let ?d = "?c\<lparr>ws_pc := Locked, ws_done := False, ws_look := True, ws_stale := 0\<rparr>"
  let ?e = "?d\<lparr>ws_pc := Waiting\<rparr>"
  let ?w = "?e\<lparr>ws_look := False\<rparr>"
  have "tryPop mlq_New = (None, mlq_New)"
    by (simp add: tryPop_def mlq_New_def level_pop_def fun_eq_iff)
  then have 1: "worker_step worker_start ?a"
    using w_nothing [of worker_start mlq_New] by (simp add: worker_start_def)
  have 2: "worker_step ?a ?b" using w_push [of ?a ?it] by (simp add: worker_start_def)
  have 3: "worker_step ?b ?c" using w_notify [of ?b] by (simp add: broadcast_def)
  have 4: "worker_step ?c ?d" using w_lock [of ?c] by (simp add: worker_start_def)
  have 5: "worker_step ?d ?e" using w_wait [of ?d] by simp
  have 6: "worker_step ?e ?w" using w_look [of ?e] by (simp add: worker_start_def)
  have reach: "worker_step\<^sup>*\<^sup>* worker_start ?w"
    using 1 2 3 4 5 6 by (meson rtranclp.rtrancl_into_rtrancl rtranclp.rtrancl_refl)
  have item: "fst (tryPop (ws_q ?w)) \<noteq> None"
    by (simp add: sample_item_def Enqueue_def mlq_New_def tryPop_def level_pop_def visit_def Let_def)
  have stop: "worker_quiet ?w (?w\<lparr>ws_stopped := True\<rparr>)" unfolding worker_quiet_def by (intro conjI w_stop) simp
  have "deaf ?w" by (simp add: deaf_def worker_start_def)
  then have "{w'. worker_quiet\<^sup>*\<^sup>* ?w w'} \<subseteq> {w'. ws_pc w' = Waiting}"
    using deaf_for_good by (auto simp: deaf_def)
  then show ?thesis using reach item stop
    by (intro exI [of _ ?w] conjI exI [of _ "?w\<lparr>ws_stopped := True\<rparr>"]) (simp_all add: worker_start_def)
qed

text \<open>
  C15: the token bucket conforms to its rate: over any sequence of requests up to a time \<open>T\<close>, at
  most the capacity plus the tokens accumulated since the start is granted, as long as the
  products stay below \<open>2 ^ 63\<close>.
\<close>

theorem bucket_conforms:
  assumes "0 < rate" "0 < cap" "cap < 2 ^ 62" "rate * (T - t0) < 2 ^ 63" "t0 \<le> T"
    and "sorted (map snd xs)" "\<forall>x \<in> set xs. t0 \<le> snd x \<and> snd x \<le> T \<and> 0 \<le> fst x"
  shows "fst (allow_run (NewTokenBucket rate cap t0) xs) * nanosPerSecond
    \<le> cap * nanosPerSecond + rate * (T - t0)"
proof -
  let ?b = "NewTokenBucket rate cap t0"
  have b: "tb_tokens ?b = cap" "tb_capacity ?b = cap" "tb_rate ?b = rate" "tb_last ?b = Some t0"
    using assms(2) by (simp_all add: NewTokenBucket_def)
  have "(fst (allow_run ?b xs) + tb_tokens (snd (allow_run ?b xs))) * nanosPerSecond
      \<le> tb_tokens ?b * nanosPerSecond + tb_rate ?b * (T - t0) \<and> 0 \<le> tb_tokens (snd (allow_run ?b xs))"
    by (rule allow_run_bound) (use assms b in auto)
  then show ?thesis using b mult_nonneg_nonneg [of "tb_tokens (snd (allow_run ?b xs))" nanosPerSecond]
    by (simp add: algebra_simps nanosPerSecond_def)
qed

theorem bucket_conforms_witness:
  "fst (allow_run (NewTokenBucket 1000 5 0) [(3, 10), (4, 2000000)]) * nanosPerSecond
    \<le> 5 * nanosPerSecond + 1000 * 2000000"
  using bucket_conforms [of 1000 5 2000000 0 "[(3, 10), (4, 2000000)]"] by simp

text \<open>
  The wait \<open>Allow\<close> announces is long enough: a refused request for no more than the capacity
  is granted when it is repeated one nanosecond after the announced wait.
\<close>

theorem bucket_wait_suffices:
  assumes "Allow b n now = Some ((False, w), b')" "tb_ok b now" "0 \<le> n" "n \<le> tb_capacity b"
    and "n * nanosPerSecond < 2 ^ 63" "tb_ok b' (now + w + 1)"
  shows "\<exists>b''. Allow b' n (now + w + 1) = Some ((True, 0), b'')"
proof -
  let ?N = nanosPerSecond
  obtain l where l: "tb_last b = Some l" "l \<le> now" using assms(2) by (auto simp: tb_ok_def)
  note e = refill_effect [OF assms(2) l(1)]
  have b': "b' = refill b now" "tb_tokens b' < n"
    using assms(1) by (auto simp: Allow_def Let_def split: if_splits)
  have rate: "0 < tb_rate b'" "tb_rate b' = tb_rate b" using assms(6) e(2) b'(1) by (auto simp: tb_ok_def)
  have tok: "0 \<le> tb_tokens b'" using assms(6) by (simp add: tb_ok_def)
  let ?need = "n - tb_tokens b'"
  have need: "0 < ?need" "?need * ?N < 2 ^ 63" "?need < 2 ^ 63"
  proof -
    show n0: "0 < ?need" using b'(2) by simp
    have "?need * ?N \<le> n * ?N" using tok by (intro mult_right_mono) (auto simp: nanosPerSecond_def)
    then show "?need * ?N < 2 ^ 63" using assms(5) by simp
    then show "?need < 2 ^ 63" using n0 by (simp add: nanosPerSecond_def)
  qed
  have small: "?need * ?N div tb_rate b' \<le> ?need * ?N"
    using rate need zdiv_mono2 [of "?need * ?N" 1 "tb_rate b'"] by (simp add: nanosPerSecond_def)
  have "0 \<le> ?need * ?N div tb_rate b'"
    using rate need by (simp add: pos_imp_zdiv_nonneg_iff nanosPerSecond_def)
  then have i: "i64 (?need * ?N div tb_rate b') = ?need * ?N div tb_rate b'"
    using small need(2) by (intro i64_id) auto
  have "i64 ?need = ?need" "i64 (?need * ?N) = ?need * ?N"
    using need by (auto intro!: i64_id simp: nanosPerSecond_def)
  then have "w = i64 (go_div (?need * ?N) (tb_rate b'))"
    using assms(1) b' rate by (auto simp: Allow_def Let_def split: if_splits)
  then have w: "w = ?need * ?N div tb_rate b'"
    using rate need i by (simp add: go_div_nonneg nanosPerSecond_def)
  obtain l' where l': "tb_last b' = Some l'" "l' \<le> now"
    using e(3) b'(1) l by auto
  have "?need * ?N = tb_rate b' * w + ?need * ?N mod tb_rate b'" unfolding w by simp
  moreover have "?need * ?N mod tb_rate b' < tb_rate b'" using rate(1) by simp
  ultimately have "?need * ?N < tb_rate b' * (w + 1)" unfolding distrib_left by linarith
  also have "\<dots> \<le> tb_rate b' * (now + w + 1 - l')" using l' rate by (intro mult_left_mono) auto
  finally have x: "?need * ?N < tb_rate b' * (now + w + 1 - l')" .
  note f = refill_effect(3) [OF assms(6) l'(1)]
  have "?need \<le> tb_rate b' * (now + w + 1 - l') div ?N"
    using x by (simp add: nanosPerSecond_def)
  moreover have "\<not> tb_rate b' * (now + w + 1 - l') < ?N"
    using x need(1) by (simp add: nanosPerSecond_def)
  moreover have "n \<le> tb_capacity b'" using assms(4) e(1) b'(1) by simp
  ultimately have "n \<le> tb_tokens (refill b' (now + w + 1))" using f by auto
  then show ?thesis by (simp add: Allow_def Let_def)
qed

theorem bucket_wait_suffices_witness:
  "\<exists>b''. Allow ((NewTokenBucket 1000 5 0)\<lparr>tb_tokens := 1\<rparr>) 4 (0 + 3000000 + 1) = Some ((True, 0), b'')"
  by (rule bucket_wait_suffices [of "(NewTokenBucket 1000 5 0)\<lparr>tb_tokens := 1\<rparr>" 4 0])
    (simp_all add: Allow_def NewTokenBucket_def refill_def Let_def nanosPerSecond_def i64_id go_div_nonneg tb_ok_def)

text \<open>
  A bucket of the pipeline (1 MB/s) that was drained and then left idle for between 2 h 33 min
  and 5 h 7 min has not been refilled: the product of rate and elapsed nanoseconds wraps to a
  negative number, so every request is refused and the bucket does not change.
\<close>

theorem bucket_idle_overflow:
  assumes "9223372036855 \<le> dt" "dt \<le> 18446744073709" "1 \<le> n" "n \<le> 9000000000"
  shows "let b = (NewTokenBucket 1000000 2000000 t)\<lparr>tb_tokens := 0\<rparr>
    in Allow b n (t + dt) = Some ((False, n * 1000), b)"
proof -
  have "i64 (1000000 * dt) = 1000000 * dt - 2 ^ 64" using assms by (intro i64_wrap) simp_all
  then have "\<not> 0 < go_div (i64 (1000000 * dt)) nanosPerSecond"
    using assms(2) by (simp add: go_div_def nanosPerSecond_def sgn_if)
  then have r: "refill ((NewTokenBucket 1000000 2000000 t)\<lparr>tb_tokens := 0\<rparr>) (t + dt) =
      (NewTokenBucket 1000000 2000000 t)\<lparr>tb_tokens := 0\<rparr>"
    by (simp add: refill_def NewTokenBucket_def Let_def)
  have "go_div (n * nanosPerSecond) 1000000 = n * 1000"
    using assms by (simp add: go_div_nonneg nanosPerSecond_def)
  moreover have "i64 (n * nanosPerSecond) = n * nanosPerSecond" "i64 n = n" "i64 (n * 1000) = n * 1000"
    using assms by (auto intro!: i64_id simp: nanosPerSecond_def)
  ultimately show ?thesis using assms(3) by (simp add: Allow_def r Let_def) (simp add: NewTokenBucket_def)
qed

theorem bucket_idle_overflow_witness:
  "let b = (NewTokenBucket 1000000 2000000 7)\<lparr>tb_tokens := 0\<rparr>
    in Allow b 100 (7 + 10000000000000) = Some ((False, 100 * 1000), b)"
  by (rule bucket_idle_overflow) simp_all

end
