(* ===== verification/Router.thy ===== *)
theory Router
  imports Peers "HOL-Library.While_Combinator"
begin

text \<open>
  The router of \<open>pkg/router/router.go\<close>: the graph of known adjacencies, link costs, shortest
  paths by Dijkstra's algorithm on \<open>container/heap\<close>, and the choice of the next hop. Costs
  (\<open>float64\<close> in the code) are rational numbers, without rounding. \<open>qual\<close> is the quality a
  session reports, \<open>ids\<close> the order in which the peer index is listed, \<open>nbs\<close> the order in which
  the neighbours of a node are ranged over, \<open>clk\<close> the readings of the clock. The lemmas show that
  the search ends, and that it returns a path of least cost; the properties also show which
  next hop the router can choose, and what it does on the stores a node can reach.
\<close>

section \<open>Link costs and the graph\<close>

type_synonym graph = "string \<Rightarrow> string \<Rightarrow> rat option"

fun linkBaseCost :: "Kind \<Rightarrow> rat" where
  "linkBaseCost KindQUICDirect = 1"
| "linkBaseCost KindTCPDirect = 2"
| "linkBaseCost KindQUICHolePunch = 3"
| "linkBaseCost KindQUICRelay = 4"
| "linkBaseCost KindTCPRelay = 4"
| "linkBaseCost KindUDP = 5"
| "linkBaseCost KindWinPipe = 1 / 2"
| "linkBaseCost KindMem = 1 / 2"
| "linkBaseCost KindUnknown = 10"

definition edgeWeight :: "Manager \<Rightarrow> (sid \<Rightarrow> Quality) \<Rightarrow> PeerID \<Rightarrow> PeerID \<Rightarrow> PeerID \<Rightarrow> rat" where
  "edgeWeight mgr qual local from to =
     (case (if from = local then GetSession mgr to else None) of
        Some s \<Rightarrow>
          let q = qual s;
              base = linkBaseCost (si_kind (mgr_sess mgr s));
              rtt = of_int (qu_RTT q) / of_int 1000000;
              loss = qu_LossRatio q
          in base + rtt / 10 + loss * 50
      | None \<Rightarrow> 100)"

definition add_edges :: "graph \<Rightarrow> string \<Rightarrow> (string \<Rightarrow> rat) \<Rightarrow> string list \<Rightarrow> graph" where
  "add_edges g from w tos = foldl (\<lambda>g to. g(from := (g from)(to \<mapsto> w to))) g tos"

text \<open>A missing row of \<open>adj\<close> is a row without entries.\<close>

fun build_loop ::
  "peers_json \<Rightarrow> Manager \<Rightarrow> (sid \<Rightarrow> Quality) \<Rightarrow> PeerID \<Rightarrow> PeerStore \<Rightarrow> graph \<Rightarrow> PeerID list \<Rightarrow> clock \<Rightarrow>
   graph \<times> PeerStore" where
  "build_loop J mgr qual local ps g [] clk = (g, ps)"
| "build_loop J mgr qual local ps g (from # ids) clk =
     (case peers_Get J ps from clk of
        (None, ps) \<Rightarrow> build_loop J mgr qual local ps g ids (\<lambda>n. clk (n + 2))
      | (Some pm, ps) \<Rightarrow>
          build_loop J mgr qual local ps
            (add_edges g from (edgeWeight mgr qual local from) (pm_ConnectedDirectIDs pm)) ids (\<lambda>n. clk (n + 2)))"

definition buildGraph ::
  "peers_json \<Rightarrow> PeerStore \<Rightarrow> Manager \<Rightarrow> (sid \<Rightarrow> Quality) \<Rightarrow> PeerID \<Rightarrow> PeerID list \<Rightarrow> clock \<Rightarrow> graph \<times> PeerStore" where
  "buildGraph J ps mgr qual local ids clk = build_loop J mgr qual local ps (\<lambda>u v. None) ids clk"

section \<open>Dijkstra's algorithm\<close>

record nodeItem =
  ni_id :: string
  ni_prio :: rat

text \<open>The map \<open>visited\<close> is the list of its keys in the order they are set.\<close>

record dijkstra =
  dj_dist :: "string \<Rightarrow> rat option"
  dj_prev :: "string \<Rightarrow> string option"
  dj_pq :: "nodeItem list"
  dj_visited :: "string list"
  dj_found :: bool

definition dj_start :: "string \<Rightarrow> dijkstra" where
  "dj_start start = \<lparr>dj_dist = [start \<mapsto> 0], dj_prev = Map.empty,
     dj_pq = heap_push ni_prio [] \<lparr>ni_id = start, ni_prio = 0\<rparr>, dj_visited = [], dj_found = False\<rparr>"

definition map_at :: "('a \<Rightarrow> 'b option) \<Rightarrow> 'b \<Rightarrow> 'a \<Rightarrow> 'b" where
  "map_at m z k = (case m k of None \<Rightarrow> z | Some x \<Rightarrow> x)"

definition relax :: "graph \<Rightarrow> string \<Rightarrow> dijkstra \<Rightarrow> string \<Rightarrow> dijkstra" where
  "relax g cur s nb =
     (case g cur nb of
        None \<Rightarrow> s
      | Some w \<Rightarrow>
          let nd = map_at (dj_dist s) 0 cur + w in
          if (case dj_dist s nb of None \<Rightarrow> True | Some old \<Rightarrow> nd < old)
          then s\<lparr>dj_dist := (dj_dist s)(nb \<mapsto> nd), dj_prev := (dj_prev s)(nb \<mapsto> cur),
                 dj_pq := heap_push ni_prio (dj_pq s) \<lparr>ni_id = nb, ni_prio = nd\<rparr>\<rparr>
          else s)"

definition dj_turn :: "graph \<Rightarrow> (string \<Rightarrow> string list) \<Rightarrow> string \<Rightarrow> dijkstra \<Rightarrow> dijkstra" where
  "dj_turn g nbs goal s =
     (case heap_pop ni_prio (dj_pq s) of
        None \<Rightarrow> s
      | Some (cur, q) \<Rightarrow>
          let s = s\<lparr>dj_pq := q\<rparr> in
          if ni_id cur \<in> set (dj_visited s) then s
          else
            let s = s\<lparr>dj_visited := dj_visited s @ [ni_id cur]\<rparr> in
            if ni_id cur = goal then s\<lparr>dj_found := True\<rparr>
            else foldl (relax g (ni_id cur)) s (nbs (ni_id cur)))"

definition dj_going :: "dijkstra \<Rightarrow> bool" where
  "dj_going s \<longleftrightarrow> dj_pq s \<noteq> [] \<and> \<not> dj_found s"

text \<open>The walk back along \<open>prev\<close>; \<open>None\<close> if it does not end.\<close>

partial_function (option) rebuild :: "(string \<Rightarrow> string option) \<Rightarrow> string \<Rightarrow> string \<Rightarrow> string list option" where
  "rebuild prev start node =
     (if node = [] then Some []
      else if node = start then Some [node]
      else Option.bind (rebuild prev start (map_at prev [] node)) (\<lambda>r. Some (node # r)))"

definition search ::
  "graph \<Rightarrow> (string \<Rightarrow> string list) \<Rightarrow> string \<Rightarrow> string \<Rightarrow> string list option" where
  "search g nbs start goal =
     (case while_option dj_going (dj_turn g nbs goal) (dj_start start) of
        None \<Rightarrow> None
      | Some s \<Rightarrow>
          if dj_dist s goal = None then Some [] else map_option rev (rebuild (dj_prev s) start goal))"

definition findPathDijkstra ::
  "peers_json \<Rightarrow> PeerStore \<Rightarrow> Manager \<Rightarrow> (sid \<Rightarrow> Quality) \<Rightarrow> PeerID \<Rightarrow> PeerID list \<Rightarrow>
   (graph \<Rightarrow> string \<Rightarrow> string list) \<Rightarrow> clock \<Rightarrow> PeerID \<Rightarrow> PeerID \<Rightarrow> PeerID list option \<times> PeerStore" where
  "findPathDijkstra J ps mgr qual local ids nbs clk src dst =
     (case buildGraph J ps mgr qual local ids clk of (g, ps) \<Rightarrow> (search g (nbs g) src dst, ps))"

section \<open>Choice of the next hop\<close>

definition hasDirectAdjacency :: "peers_json \<Rightarrow> PeerStore \<Rightarrow> PeerID \<Rightarrow> PeerID \<Rightarrow> clock \<Rightarrow> bool \<times> PeerStore" where
  "hasDirectAdjacency J ps local nh clk =
     (case peers_Get J ps local clk of
        (None, ps) \<Rightarrow> (False, ps)
      | (Some pm, ps) \<Rightarrow> (nh \<in> set (pm_ConnectedDirectIDs pm), ps))"

text \<open>\<open>None\<close> if the search does not end.\<close>

definition NextHopForPeer ::
  "peers_json \<Rightarrow> PeerStore \<Rightarrow> Manager \<Rightarrow> (sid \<Rightarrow> Quality) \<Rightarrow> PeerID \<Rightarrow> PeerID list \<Rightarrow>
   (graph \<Rightarrow> string \<Rightarrow> string list) \<Rightarrow> clock \<Rightarrow> PeerID \<Rightarrow>
   (PeerID \<times> PeerID list \<times> bool) option \<times> PeerStore" where
  "NextHopForPeer J ps mgr qual local ids nbs clk target =
     (let fallback = (\<lambda>ps clk.
            case findPathDijkstra J ps mgr qual local ids nbs clk local target of
              (None, ps) \<Rightarrow> (None, ps)
            | (Some path, ps) \<Rightarrow>
                (Some (if length path \<ge> 2 then (path ! 1, path, True) else ([], [], False)), ps))
      in case BestRouteCandidate J ps (''peer:'' @ target) clk of
           (None, ps) \<Rightarrow> fallback ps (\<lambda>n. clk (n + 3))
         | (Some cand, ps) \<Rightarrow>
             (case hasDirectAdjacency J ps local (rc_NextHop cand) (\<lambda>n. clk (n + 3)) of
                (True, ps) \<Rightarrow> (Some (rc_NextHop cand, rc_Path cand, True), ps)
              | (False, ps) \<Rightarrow> fallback ps (\<lambda>n. clk (n + 5))))"

datatype 'e route_error = ErrNoRoute | OpenFailed 'e | SendFailed 'e

text \<open>
  \<open>open_err\<close> and \<open>send_err\<close> are the errors, if any, of \<open>OpenStream\<close> on a session and of \<open>SendBytes\<close>
  on its control stream. The result names the session the bytes were given to.
\<close>

definition SendBytesToPeer ::
  "peers_json \<Rightarrow> PeerStore \<Rightarrow> Manager \<Rightarrow> (sid \<Rightarrow> Quality) \<Rightarrow> PeerID \<Rightarrow> PeerID list \<Rightarrow>
   (graph \<Rightarrow> string \<Rightarrow> string list) \<Rightarrow> clock \<Rightarrow> (sid \<Rightarrow> 'e option) \<Rightarrow> (sid \<Rightarrow> byte list \<Rightarrow> 'e option) \<Rightarrow>
   PeerID \<Rightarrow> byte list \<Rightarrow> ('e route_error option \<times> sid option) option \<times> PeerStore" where
  "SendBytesToPeer J ps mgr qual local ids nbs clk open_err send_err target b =
     (case NextHopForPeer J ps mgr qual local ids nbs clk target of
        (None, ps) \<Rightarrow> (None, ps)
      | (Some (nh, path, ok), ps) \<Rightarrow>
          (Some (if \<not> ok then (Some ErrNoRoute, None)
                 else case GetSession mgr nh of
                     None \<Rightarrow> (Some ErrNoRoute, None)
                   | Some sess \<Rightarrow>
                       (case open_err sess of
                          Some e \<Rightarrow> (Some (OpenFailed e), None)
                        | None \<Rightarrow> (map_option SendFailed (send_err sess b), Some sess))), ps))"

section \<open>Walks\<close>

inductive walk :: "graph \<Rightarrow> string \<Rightarrow> string \<Rightarrow> rat \<Rightarrow> bool" for g src where
  walk_nil: "walk g src src 0"
| walk_snoc: "walk g src u c \<Longrightarrow> g u v = Some w \<Longrightarrow> walk g src v (c + w)"

fun path_cost :: "graph \<Rightarrow> string list \<Rightarrow> rat option" where
  "path_cost g [] = None"
| "path_cost g [u] = Some 0"
| "path_cost g (u # v # p) =
     (case (g u v, path_cost g (v # p)) of (Some w, Some c) \<Rightarrow> Some (w + c) | _ \<Rightarrow> None)"

lemma path_cost_snoc:
  "path_cost g p = Some c \<Longrightarrow> g (last p) v = Some w \<Longrightarrow> path_cost g (p @ [v]) = Some (c + w)"
proof (induction g p arbitrary: c rule: path_cost.induct)
  case (3 g u x p)
  then show ?case by (auto split: option.splits)
qed simp_all

section \<open>One node's neighbours\<close>

definition improves :: "graph \<Rightarrow> dijkstra \<Rightarrow> string \<Rightarrow> string \<Rightarrow> bool" where
  "improves g s u v \<longleftrightarrow> (\<exists>w. g u v = Some w \<and>
     (case dj_dist s v of None \<Rightarrow> True | Some old \<Rightarrow> map_at (dj_dist s) 0 u + w < old))"

definition nonneg :: "graph \<Rightarrow> bool" where
  "nonneg g \<longleftrightarrow> (\<forall>u v w. g u v = Some w \<longrightarrow> 0 \<le> w)"

lemma nonnegD: "nonneg g \<Longrightarrow> g u v = Some w \<Longrightarrow> 0 \<le> w"
  by (auto simp: nonneg_def)

definition through :: "graph \<Rightarrow> dijkstra \<Rightarrow> string \<Rightarrow> string \<Rightarrow> rat" where
  "through g s u v = map_at (dj_dist s) 0 u + the (g u v)"

lemma relax_eq:
  "relax g u s v =
     (if improves g s u v
      then s\<lparr>dj_dist := (dj_dist s)(v \<mapsto> through g s u v), dj_prev := (dj_prev s)(v \<mapsto> u),
             dj_pq := heap_push ni_prio (dj_pq s) \<lparr>ni_id = v, ni_prio = through g s u v\<rparr>\<rparr>
      else s)"
  by (auto simp: relax_def improves_def through_def Let_def split: option.split)

lemma improves_not_self: "nonneg g \<Longrightarrow> dj_dist s u \<noteq> None \<Longrightarrow> \<not> improves g s u u"
  using nonnegD [of g u u] by (fastforce simp: improves_def map_at_def)

text \<open>Relaxing one neighbour does not change what the others do.\<close>

lemma relax_others:
  assumes "nonneg g" "dj_dist s u \<noteq> None"
  shows "dj_dist (relax g u s v) u = dj_dist s u"
    and "x \<noteq> v \<Longrightarrow> improves g (relax g u s v) u x = improves g s u x"
    and "through g (relax g u s v) u x = through g s u x"
proof -
  have ne: "\<not> (improves g s u v \<and> v = u)" using improves_not_self assms by blast
  then show "dj_dist (relax g u s v) u = dj_dist s u" by (auto simp: relax_eq)
  then have m: "map_at (dj_dist (relax g u s v)) 0 u = map_at (dj_dist s) 0 u" by (simp add: map_at_def)
  then show "through g (relax g u s v) u x = through g s u x" by (simp add: through_def)
  have dx: "x \<noteq> v \<Longrightarrow> dj_dist (relax g u s v) x = dj_dist s x" by (simp add: relax_eq)
  show "x \<noteq> v \<Longrightarrow> improves g (relax g u s v) u x = improves g s u x"
    using m dx by (simp add: improves_def cong: option.case_cong)
qed

lemma relax_all:
  assumes "nonneg g" "dj_dist s u \<noteq> None" "distinct ns"
  shows "dj_dist (foldl (relax g u) s ns) =
      (\<lambda>v. if v \<in> set ns \<and> improves g s u v then Some (through g s u v) else dj_dist s v) \<and>
    dj_prev (foldl (relax g u) s ns) = (\<lambda>v. if v \<in> set ns \<and> improves g s u v then Some u else dj_prev s v) \<and>
    set (dj_pq (foldl (relax g u) s ns)) = set (dj_pq s) \<union>
      (\<lambda>v. \<lparr>ni_id = v, ni_prio = through g s u v\<rparr>) ` {v \<in> set ns. improves g s u v} \<and>
    dj_visited (foldl (relax g u) s ns) = dj_visited s \<and> dj_found (foldl (relax g u) s ns) = dj_found s \<and>
    (is_heap ni_prio (dj_pq s) \<longrightarrow> is_heap ni_prio (dj_pq (foldl (relax g u) s ns))) \<and>
    length (dj_pq (foldl (relax g u) s ns)) \<le> length (dj_pq s) + length ns"
  using assms(2,3)
proof (induction ns arbitrary: s)
  case Nil
  then show ?case by simp
next
  case (Cons v ns)
  let ?t = "relax g u s v"
  note others = relax_others [OF assms(1) Cons.prems(1), where v = v]
  have t: "dj_dist ?t u \<noteq> None" using others(1) Cons.prems(1) by simp
  have d: "v \<notin> set ns" "distinct ns" using Cons.prems(2) by auto
  have pq: "set (dj_pq ?t) = set (dj_pq s) \<union> (if improves g s u v then {\<lparr>ni_id = v, ni_prio = through g s u v\<rparr>} else {})"
    using go_heap.push_set [of ni_prio "dj_pq s"] by (simp add: relax_eq)
  have heap: "is_heap ni_prio (dj_pq s) \<longrightarrow> is_heap ni_prio (dj_pq ?t)"
    by (simp add: relax_eq go_heap.inv_push)
  have len: "length (dj_pq ?t) \<le> Suc (length (dj_pq s))"
    using arg_cong [OF go_heap.elems_push [of ni_prio "dj_pq s" "\<lparr>ni_id = v, ni_prio = through g s u v\<rparr>"], of size]
    by (simp add: relax_eq)
  note IH = Cons.IH [OF t d(2)]
  have imp: "x \<in> set ns \<and> improves g ?t u x \<longleftrightarrow> x \<in> set ns \<and> improves g s u x" for x
  proof (cases "x = v")
    case False
    show ?thesis by (simp only: others(2) [OF False])
  qed (use d(1) in simp)
  have dist: "dj_dist ?t = (\<lambda>x. if x = v \<and> improves g s u v then Some (through g s u v) else dj_dist s x)"
    and prev: "dj_prev ?t = (\<lambda>x. if x = v \<and> improves g s u v then Some u else dj_prev s x)"
    and rest: "dj_visited ?t = dj_visited s" "dj_found ?t = dj_found s"
    unfolding relax_eq by (auto simp: fun_eq_iff)
  show ?case
  proof (intro conjI)
    show "dj_dist (foldl (relax g u) s (v # ns)) =
      (\<lambda>x. if x \<in> set (v # ns) \<and> improves g s u x then Some (through g s u x) else dj_dist s x)"
      using IH d(1) by (auto simp: fun_eq_iff imp others(3) dist)
    show "dj_prev (foldl (relax g u) s (v # ns)) =
      (\<lambda>x. if x \<in> set (v # ns) \<and> improves g s u x then Some u else dj_prev s x)"
      using IH d(1) by (auto simp: fun_eq_iff imp prev)
    show "set (dj_pq (foldl (relax g u) s (v # ns))) = set (dj_pq s) \<union>
      (\<lambda>x. \<lparr>ni_id = x, ni_prio = through g s u x\<rparr>) ` {x \<in> set (v # ns). improves g s u x}"
      using IH by (auto simp: imp others(3) pq)
  qed (use IH heap len rest in auto)
qed

section \<open>The invariant of the search\<close>

text \<open>
  Every tentative distance comes from a node visited earlier; visited nodes other than the goal
  have been relaxed; every unvisited node with a distance waits in the queue with it, and
  nothing in the queue is nearer than a visited node.
\<close>

definition from_prev :: "graph \<Rightarrow> string \<Rightarrow> dijkstra \<Rightarrow> string \<Rightarrow> rat \<Rightarrow> bool" where
  "from_prev g goal s v d \<longleftrightarrow> (\<exists>u c w. dj_prev s v = Some u \<and> u \<in> set (takeWhile (\<lambda>x. x \<noteq> v) (dj_visited s)) \<and>
     u \<noteq> goal \<and> dj_dist s u = Some c \<and> g u v = Some w \<and> d = c + w)"

definition relaxed :: "graph \<Rightarrow> dijkstra \<Rightarrow> string \<Rightarrow> bool" where
  "relaxed g s u \<longleftrightarrow> (\<forall>v w. g u v = Some w \<longrightarrow> (\<exists>d. dj_dist s v = Some d \<and> d \<le> map_at (dj_dist s) 0 u + w))"

definition dj_inv :: "graph \<Rightarrow> string \<Rightarrow> string \<Rightarrow> dijkstra \<Rightarrow> bool" where
  "dj_inv g src goal s \<longleftrightarrow>
     is_heap ni_prio (dj_pq s) \<and> distinct (dj_visited s) \<and> dj_dist s src = Some 0 \<and>
     (\<forall>v d. dj_dist s v = Some d \<longrightarrow> 0 \<le> d) \<and>
     (\<forall>v d. dj_dist s v = Some d \<longrightarrow> v \<noteq> src \<longrightarrow> from_prev g goal s v d) \<and>
     (\<forall>u\<in>set (dj_visited s). dj_dist s u \<noteq> None \<and> (u \<noteq> goal \<longrightarrow> relaxed g s u)) \<and>
     (\<forall>v d. dj_dist s v = Some d \<longrightarrow> v \<notin> set (dj_visited s) \<longrightarrow> \<lparr>ni_id = v, ni_prio = d\<rparr> \<in> set (dj_pq s)) \<and>
     (\<forall>i\<in>set (dj_pq s). \<exists>d. dj_dist s (ni_id i) = Some d \<and> d \<le> ni_prio i) \<and>
     (\<forall>i\<in>set (dj_pq s). \<forall>u\<in>set (dj_visited s). map_at (dj_dist s) 0 u \<le> ni_prio i) \<and>
     (dj_found s \<longleftrightarrow> goal \<in> set (dj_visited s))"

lemma dj_invD:
  assumes "dj_inv g src goal s"
  shows "is_heap ni_prio (dj_pq s)" "distinct (dj_visited s)" "dj_dist s src = Some 0"
    "dj_dist s v = Some d \<Longrightarrow> 0 \<le> d"
    "dj_dist s v = Some d \<Longrightarrow> v \<noteq> src \<Longrightarrow> from_prev g goal s v d"
    "u \<in> set (dj_visited s) \<Longrightarrow> dj_dist s u \<noteq> None"
    "u \<in> set (dj_visited s) \<Longrightarrow> u \<noteq> goal \<Longrightarrow> relaxed g s u"
    "dj_dist s v = Some d \<Longrightarrow> v \<notin> set (dj_visited s) \<Longrightarrow> \<lparr>ni_id = v, ni_prio = d\<rparr> \<in> set (dj_pq s)"
    "i \<in> set (dj_pq s) \<Longrightarrow> \<exists>d. dj_dist s (ni_id i) = Some d \<and> d \<le> ni_prio i"
    "i \<in> set (dj_pq s) \<Longrightarrow> u \<in> set (dj_visited s) \<Longrightarrow> map_at (dj_dist s) 0 u \<le> ni_prio i"
    "dj_found s \<longleftrightarrow> goal \<in> set (dj_visited s)"
  using assms unfolding dj_inv_def by blast+

lemma takeWhile_append_set: "x \<in> set (takeWhile P xs) \<Longrightarrow> x \<in> set (takeWhile P (xs @ ys))"
  by (induction xs) (auto split: if_splits)

lemma inv_start: "dj_inv g src goal (dj_start src)"
proof -
  have q: "heap_push ni_prio [] i = [i]" for i by (simp add: heap_push_def heap_up.simps [of _ _ 0])
  show ?thesis by (simp add: dj_inv_def dj_start_def q is_heap_def)
qed

text \<open>What the node taken from the queue is.\<close>

lemma popped:
  assumes "dj_inv g src goal s" "heap_pop ni_prio (dj_pq s) = Some (cur, q)"
  shows "is_heap ni_prio q" "set (dj_pq s) = insert cur (set q)"
    "i \<in> set q \<Longrightarrow> ni_prio cur \<le> ni_prio i"
    "ni_id cur \<notin> set (dj_visited s) \<Longrightarrow> dj_dist s (ni_id cur) = Some (ni_prio cur)"
proof -
  show h: "is_heap ni_prio q" by (rule go_heap.inv_pop [OF dj_invD(1) [OF assms(1)] assms(2)])
  show s: "set (dj_pq s) = insert cur (set q)"
    using go_heap.pop_set [OF assms(2)] by simp
  have le: "ni_prio cur \<le> ni_prio i" if "i \<in> set (dj_pq s)" for i
    using go_heap.pop_least [OF dj_invD(1) [OF assms(1)] assms(2)] that by simp
  then show "i \<in> set q \<Longrightarrow> ni_prio cur \<le> ni_prio i" using s by blast
  assume n: "ni_id cur \<notin> set (dj_visited s)"
  obtain d where d: "dj_dist s (ni_id cur) = Some d" "d \<le> ni_prio cur"
    using dj_invD(9) [OF assms(1), of cur] s by blast
  then have "\<lparr>ni_id = ni_id cur, ni_prio = d\<rparr> \<in> set (dj_pq s)" using dj_invD(8) [OF assms(1)] n by blast
  then have "ni_prio cur \<le> d" using le by fastforce
  then show "dj_dist s (ni_id cur) = Some (ni_prio cur)" using d by simp
qed

lemma inv_turn_visited:
  assumes "dj_inv g src goal s" "heap_pop ni_prio (dj_pq s) = Some (cur, q)" "ni_id cur \<in> set (dj_visited s)"
  shows "dj_inv g src goal (s\<lparr>dj_pq := q\<rparr>)"
proof -
  note P = popped [OF assms(1,2)] and D = dj_invD [OF assms(1)]
  have "\<lparr>ni_id = v, ni_prio = d\<rparr> \<in> set q" if "dj_dist s v = Some d" "v \<notin> set (dj_visited s)" for v d
    using D(8) [OF that] P(2) that(2) assms(3) by auto
  moreover have "from_prev g goal (s\<lparr>dj_pq := q\<rparr>) v d = from_prev g goal s v d" for v d
    by (simp add: from_prev_def)
  moreover have "relaxed g (s\<lparr>dj_pq := q\<rparr>) u = relaxed g s u" for u by (simp add: relaxed_def)
  ultimately show ?thesis using D P unfolding dj_inv_def by simp
qed

lemma inv_turn_goal:
  assumes "dj_inv g src goal s" "heap_pop ni_prio (dj_pq s) = Some (cur, q)"
    and "ni_id cur \<notin> set (dj_visited s)" "ni_id cur = goal"
  shows "dj_inv g src goal (s\<lparr>dj_pq := q, dj_visited := dj_visited s @ [goal], dj_found := True\<rparr>)"
proof -
  let ?t = "s\<lparr>dj_pq := q, dj_visited := dj_visited s @ [goal], dj_found := True\<rparr>"
  note P = popped [OF assms(1,2)] and D = dj_invD [OF assms(1)]
  have "\<lparr>ni_id = v, ni_prio = d\<rparr> \<in> set q" if "dj_dist s v = Some d" "v \<notin> set (dj_visited s @ [goal])" for v d
    using D(8) [of v d] P(2) that assms(4) by auto
  moreover have "from_prev g goal ?t v d" if "from_prev g goal s v d" for v d
    using that takeWhile_append_set [of _ "\<lambda>x. x \<noteq> v" "dj_visited s" "[goal]"] by (auto simp: from_prev_def)
  moreover have "relaxed g ?t u = relaxed g s u" for u by (simp add: relaxed_def)
  moreover have "map_at (dj_dist s) 0 u \<le> ni_prio i" if "i \<in> set q" "u \<in> set (dj_visited s @ [goal])" for i u
    using D(10) [of i u] P(2,3) that P(4) [OF assms(3)] assms(4) by (auto simp: map_at_def)
  ultimately show ?thesis
    using D(2-7,9) P(1,2,4) assms(3,4) unfolding dj_inv_def by auto
qed

lemma inv_turn_relax:
  assumes inv: "dj_inv g src goal s" and pop: "heap_pop ni_prio (dj_pq s) = Some (cur, q)"
    and new: "ni_id cur \<notin> set (dj_visited s)" and "ni_id cur \<noteq> goal"
    and g: "nonneg g" and nbs: "enumerates ns (dom (g (ni_id cur)))"
  shows "dj_inv g src goal (foldl (relax g (ni_id cur)) (s\<lparr>dj_pq := q, dj_visited := dj_visited s @ [ni_id cur]\<rparr>) ns)"
proof -
  define c p where "c = ni_id cur" and "p = ni_prio cur"
  define s1 where "s1 = s\<lparr>dj_pq := q, dj_visited := dj_visited s @ [c]\<rparr>"
  define t where "t = foldl (relax g c) s1 ns"
  note P = popped [OF inv pop, folded c_def p_def] and D = dj_invD [OF inv]
  have dc: "dj_dist s c = Some p" using P(4) new by (simp add: c_def)
  have vis: "dj_dist s u = Some (map_at (dj_dist s) 0 u)" "map_at (dj_dist s) 0 u \<le> p"
    if "u \<in> set (dj_visited s @ [c])" for u
    using D(6) [of u] D(10) [of cur u] P(2) that dc by (auto simp: map_at_def p_def)
  have thr: "through g s1 c v = p + w" if "g c v = Some w" for v w
    using that dc by (simp add: through_def s1_def map_at_def)
  have imp: "improves g s1 c v \<longleftrightarrow> (\<exists>w. g c v = Some w \<and> (\<forall>d. dj_dist s v = Some d \<longrightarrow> p + w < d))" for v
    using dc by (auto simp: improves_def s1_def map_at_def split: option.split)
  have old: "\<not> improves g s1 c u" if "u \<in> set (dj_visited s @ [c])" for u
    using vis [OF that] nonnegD [OF g, of c u] by (fastforce simp: imp)
  have ns: "v \<in> set ns \<longleftrightarrow> g c v \<noteq> None" for v using enumerates_set [OF nbs] by (auto simp: c_def)
  have nsi: "v \<in> set ns \<and> improves g s1 c v \<longleftrightarrow> improves g s1 c v" for v using ns by (auto simp: imp)
  have s1: "dj_dist s1 = dj_dist s" "dj_prev s1 = dj_prev s" "dj_pq s1 = q" "dj_visited s1 = dj_visited s @ [c]"
    "dj_found s1 = dj_found s" by (simp_all add: s1_def)
  have "dj_dist s1 c \<noteq> None" using dc by (simp add: s1)
  note R = relax_all [OF g this enumerates_distinct [OF nbs], folded t_def, unfolded nsi s1]
  have dist: "dj_dist t v = (if improves g s1 c v then Some (through g s1 c v) else dj_dist s v)"
    and prev: "dj_prev t v = (if improves g s1 c v then Some c else dj_prev s v)"
    and pq: "set (dj_pq t) = set q \<union> (\<lambda>v. \<lparr>ni_id = v, ni_prio = through g s1 c v\<rparr>) ` {v. improves g s1 c v}"
    and tv: "dj_visited t = dj_visited s @ [c]" and tf: "dj_found t = dj_found s" and th: "is_heap ni_prio (dj_pq t)"
    for v
    using R P(1) by simp_all
  have tvis: "dj_dist t u = dj_dist s u" "map_at (dj_dist t) 0 u = map_at (dj_dist s) 0 u"
    if "u \<in> set (dj_visited s @ [c])" for u
    using old [OF that] by (simp_all add: dist map_at_def)
  have down: "\<exists>d'. dj_dist t v = Some d' \<and> d' \<le> d" if "dj_dist s v = Some d" for v d
    using that thr by (fastforce simp: dist imp)
  have fp: "from_prev g goal t v d" if v: "dj_dist t v = Some d" "v \<noteq> src" for v d
  proof (cases "improves g s1 c v")
    case True
    then obtain w where w: "g c v = Some w" by (auto simp: imp)
    have "v \<notin> set (dj_visited s @ [c])" using old True by blast
    then have tw: "takeWhile (\<lambda>x. x \<noteq> v) (dj_visited t) = dj_visited t" by (auto simp: tv takeWhile_eq_all_conv)
    have "dj_prev t v = Some c" "d = p + w" "dj_dist t c = Some p"
      using True v(1) thr [OF w] tvis [of c] dc by (simp_all add: prev dist)
    then show ?thesis unfolding from_prev_def tw using w assms(4) by (simp add: tv c_def)
  next
    case False
    then have "from_prev g goal s v d" using D(5) v by (simp add: dist)
    then obtain u e w where u: "dj_prev s v = Some u" "u \<in> set (takeWhile (\<lambda>x. x \<noteq> v) (dj_visited s))" "u \<noteq> goal"
        "dj_dist s u = Some e" "g u v = Some w" "d = e + w" unfolding from_prev_def by blast
    have "dj_dist t u = Some e" using tvis(1) [of u] u(2,4) set_takeWhileD [OF u(2)] by simp
    then show ?thesis
      using u False takeWhile_append_set [OF u(2), of "[c]"] by (auto simp: from_prev_def prev tv)
  qed
  have rl: "relaxed g t u" if u: "u \<in> set (dj_visited t)" "u \<noteq> goal" for u
  proof (cases "u = c")
    case True
    have "\<exists>d. dj_dist t v = Some d \<and> d \<le> p + w" if w: "g c v = Some w" for v w
    proof (cases "improves g s1 c v")
      case True
      then show ?thesis using thr [OF w] by (simp add: dist)
    next
      case False
      then show ?thesis using w by (fastforce simp: imp dist)
    qed
    then show ?thesis using True tvis(2) [of c] dc by (simp add: relaxed_def map_at_def)
  next
    case False
    then have m: "u \<in> set (dj_visited s)" using u by (simp add: tv)
    then have "relaxed g s u" using D(7) u by blast
    then show ?thesis using down tvis(2) [of u] m unfolding relaxed_def by (fastforce intro: order_trans)
  qed
  have wait: "\<lparr>ni_id = v, ni_prio = d\<rparr> \<in> set (dj_pq t)" if v: "dj_dist t v = Some d" "v \<notin> set (dj_visited t)" for v d
  proof (cases "improves g s1 c v")
    case True
    then show ?thesis using v by (auto simp: pq dist)
  next
    case False
    then have "\<lparr>ni_id = v, ni_prio = d\<rparr> \<in> set (dj_pq s)" using D(8) [of v d] v by (simp add: dist tv)
    then show ?thesis using v(2) P(2) by (auto simp: pq tv c_def)
  qed
  have items: "\<exists>d. dj_dist t (ni_id i) = Some d \<and> d \<le> ni_prio i" if i: "i \<in> set (dj_pq t)" for i
    using i
  proof (simp only: pq Un_iff, elim disjE)
    assume "i \<in> set q"
    then obtain d where "dj_dist s (ni_id i) = Some d" "d \<le> ni_prio i" using D(9) [of i] P(2) by blast
    then show ?thesis using down [of "ni_id i" d] by (fastforce intro: order_trans)
  qed (auto simp: dist)
  have far: "map_at (dj_dist t) 0 u \<le> ni_prio i" if i: "i \<in> set (dj_pq t)" "u \<in> set (dj_visited t)" for i u
  proof -
    have "p \<le> ni_prio i"
      using i(1) P(3) nonnegD [OF g, of c] thr by (auto simp: pq imp)
    then show ?thesis using vis(2) [of u] tvis(2) [of u] i(2) by (simp add: tv)
  qed
  have pos: "0 \<le> d" if "dj_dist t v = Some d" for v d
    using that D(4) [of v d] D(4) [OF dc] thr nonnegD [OF g, of c v] by (auto simp: dist imp split: if_splits)
  have src: "dj_dist t src = Some 0"
    using D(3) D(4) [OF dc] nonnegD [OF g, of c src] by (fastforce simp: dist imp)
  have "dj_inv g src goal t"
    unfolding dj_inv_def
  proof (intro conjI allI ballI impI)
    show "dj_dist t u \<noteq> None" if "u \<in> set (dj_visited t)" for u using tvis(1) [of u] vis(1) [of u] that by (simp add: tv)
    show "distinct (dj_visited t)" using D(2) new by (simp add: tv c_def)
    show "dj_found t = (goal \<in> set (dj_visited t))" using D(11) assms(4) by (auto simp: tv tf c_def)
  qed (use th src pos fp rl wait items far in blast)+
  then show ?thesis by (simp add: t_def s1_def c_def)
qed

section \<open>The search ends\<close>

definition search_ok :: "graph \<Rightarrow> (string \<Rightarrow> string list) \<Rightarrow> bool" where
  "search_ok g nbs \<longleftrightarrow> finite {(u, v). g u v \<noteq> None} \<and> nonneg g \<and> (\<forall>u. enumerates (nbs u) (dom (g u)))"

lemma turn_inv:
  assumes "search_ok g nbs" "dj_inv g src goal s"
  shows "dj_inv g src goal (dj_turn g nbs goal s)"
  using assms inv_turn_visited [OF assms(2)] inv_turn_goal [OF assms(2)] inv_turn_relax [OF assms(2)]
  by (auto simp: dj_turn_def search_ok_def Let_def split: option.split)

definition work :: "graph \<Rightarrow> string \<Rightarrow> dijkstra \<Rightarrow> nat" where
  "work g src s = length (dj_pq s) +
     (\<Sum>u\<in>insert src {v. \<exists>u. g u v \<noteq> None} - set (dj_visited s). card (dom (g u)))"

lemma finite_nodes: "search_ok g nbs \<Longrightarrow> finite (insert src {v. \<exists>u. g u v \<noteq> None})"
proof -
  assume "search_ok g nbs"
  then have "finite (snd ` {(u, v). g u v \<noteq> None})" by (simp add: search_ok_def)
  moreover have "{v. \<exists>u. g u v \<noteq> None} = snd ` {(u, v). g u v \<noteq> None}" by force
  ultimately show ?thesis by simp
qed

lemma turn_works:
  assumes ok: "search_ok g nbs" and inv: "dj_inv g src goal s" and "dj_going s"
  shows "work g src (dj_turn g nbs goal s) < work g src s"
proof -
  let ?N = "insert src {v. \<exists>u. g u v \<noteq> None}"
  let ?sum = "\<lambda>vs. \<Sum>u\<in>?N - set vs. card (dom (g u))"
  obtain cur q where pop: "heap_pop ni_prio (dj_pq s) = Some (cur, q)"
    using assms(3) heap_pop_None [of ni_prio "dj_pq s"] by (cases "heap_pop ni_prio (dj_pq s)") (auto simp: dj_going_def)
  define c where "c = ni_id cur"
  have len: "length (dj_pq s) = Suc (length q)" using go_heap.pop_size [OF pop] by simp
  have fin: "finite ?N" by (rule finite_nodes [OF ok])
  show ?thesis
  proof (cases "c \<in> set (dj_visited s)")
    case True
    then show ?thesis using pop len by (simp add: dj_turn_def work_def c_def)
  next
    case False
    obtain d where d: "dj_dist s c = Some d"
      using dj_invD(9) [OF inv, of cur] go_heap.pop_set [OF pop] by (auto simp: c_def)
    have "c \<in> ?N" using dj_invD(5) [OF inv d] by (fastforce simp: from_prev_def)
    then have split: "?N - set (dj_visited s) = insert c (?N - set (dj_visited s @ [c]))" using False by auto
    have "finite (?N - set (dj_visited s @ [c]))" "c \<notin> ?N - set (dj_visited s @ [c])" using fin by auto
    then have sum: "?sum (dj_visited s) = card (dom (g c)) + ?sum (dj_visited s @ [c])"
      unfolding split by (rule sum.insert)
    show ?thesis
    proof (cases "c = goal")
      case True
      have "work g src (dj_turn g nbs goal s) = length q + ?sum (dj_visited s @ [c])"
        using pop False True by (simp add: dj_turn_def work_def c_def)
      then show ?thesis using len sum unfolding work_def by linarith
    next
      case ng: False
      define s1 where "s1 = s\<lparr>dj_pq := q, dj_visited := dj_visited s @ [c]\<rparr>"
      define t where "t = foldl (relax g c) s1 (nbs c)"
      have "dj_dist s1 c \<noteq> None" using d by (simp add: s1_def)
      moreover have e: "enumerates (nbs c) (dom (g c))" using ok by (simp add: search_ok_def)
      ultimately have R: "dj_visited t = dj_visited s1 \<and> length (dj_pq t) \<le> length (dj_pq s1) + length (nbs c)"
        unfolding t_def using relax_all [of g s1 c "nbs c"] ok enumerates_distinct [OF e] by (simp add: search_ok_def)
      have "length (nbs c) = card (dom (g c))"
        using e distinct_card [of "nbs c"] by (simp add: enumerates_def)
      moreover have "dj_turn g nbs goal s = t"
        using pop False ng by (simp add: dj_turn_def c_def t_def s1_def)
      ultimately have "work g src (dj_turn g nbs goal s) \<le> length q + card (dom (g c)) + ?sum (dj_visited s @ [c])"
        using R by (simp add: work_def s1_def)
      then show ?thesis using len sum unfolding work_def by linarith
    qed
  qed
qed

lemma search_ends:
  assumes "search_ok g nbs"
  obtains s where "while_option dj_going (dj_turn g nbs goal) (dj_start src) = Some s"
    "dj_inv g src goal s" "\<not> dj_going s"
proof -
  obtain s where s: "while_option dj_going (dj_turn g nbs goal) (dj_start src) = Some s"
    using measure_while_option_Some [of "dj_inv g src goal" dj_going "dj_turn g nbs goal" "work g src" "dj_start src"]
      turn_inv [OF assms] turn_works [OF assms] inv_start by blast
  have "dj_inv g src goal s"
    by (rule while_option_rule [where P = "dj_inv g src goal", OF _ s inv_start]) (rule turn_inv [OF assms])
  then show ?thesis by (rule that [OF s _ while_option_stop [OF s]])
qed

section \<open>The search returns a shortest path\<close>

definition connects :: "graph \<Rightarrow> string \<Rightarrow> string \<Rightarrow> string list \<Rightarrow> rat \<Rightarrow> bool" where
  "connects g src dst p c \<longleftrightarrow> path_cost g p = Some c \<and> hd p = src \<and> last p = dst"

lemma walk_prepend: "walk g v x c \<Longrightarrow> g u v = Some w \<Longrightarrow> walk g u x (w + c)"
proof (induction rule: walk.induct)
  case walk_nil
  then show ?case using walk_snoc [OF walk.walk_nil [of g u]] by fastforce
next
  case (walk_snoc y d z e)
  then show ?case using walk.walk_snoc [of g u y "w + d" z e] by (simp add: add.assoc)
qed

lemma connects_walk: "connects g src dst p c \<Longrightarrow> walk g src dst c"
proof (induction g p arbitrary: src c rule: path_cost.induct)
  case (3 g u v p)
  have pc: "path_cost g (u # v # p) = Some c" using 3(2) by (simp only: connects_def)
  have ends: "src = u" "last (v # p) = dst" using 3(2) by (simp_all add: connects_def)
  obtain w where w: "g u v = Some w" using pc by (cases "g u v") simp_all
  obtain e where e: "path_cost g (v # p) = Some e" using pc w by (cases "path_cost g (v # p)") simp_all
  have c: "c = w + e" "src = u" using pc w e ends by simp_all
  have "connects g v dst (v # p) e" using e ends by (simp add: connects_def)
  then have "walk g v dst e" by (rule 3(1))
  from walk_prepend [OF this w] show ?case by (simp add: c)
next
  case (2 g u)
  then have "c = 0" "src = u" "dst = u" by (auto simp: connects_def)
  then show ?case by (simp add: walk.walk_nil)
next
  case (1 g)
  then show ?case by (simp add: connects_def)
qed

lemma walk_near:
  assumes inv: "dj_inv g src goal s" and g: "nonneg g" and w: "walk g src v c"
    and B: "\<forall>i\<in>set (dj_pq s). B \<le> ni_prio i" "\<forall>d. dj_dist s goal = Some d \<longrightarrow> B \<le> d"
  shows "v \<in> set (dj_visited s) \<and> v \<noteq> goal \<and> map_at (dj_dist s) 0 v \<le> c \<or> B \<le> c"
  using w
proof induction
  case walk_nil
  then show ?case
    using dj_invD(3,8) [OF inv] B by (cases "src = goal"; cases "src \<in> set (dj_visited s)") (fastforce simp: map_at_def)+
next
  case (walk_snoc u c v w)
  show ?case
  proof (cases "B \<le> c")
    case True
    then show ?thesis using nonnegD [OF g walk_snoc(2)] by linarith
  next
    case False
    then have u: "u \<in> set (dj_visited s)" "u \<noteq> goal" "map_at (dj_dist s) 0 u \<le> c" using walk_snoc(3) by auto
    then obtain d where d: "dj_dist s v = Some d" "d \<le> c + w"
      using dj_invD(7) [OF inv u(1,2)] walk_snoc(2) unfolding relaxed_def by fastforce
    then show ?thesis
      using dj_invD(8) [OF inv d(1)] B by (cases "v = goal"; cases "v \<in> set (dj_visited s)") (fastforce simp: map_at_def)+
  qed
qed

lemma earlier_shorter:
  "u \<in> set (takeWhile (\<lambda>x. x \<noteq> v) xs) \<Longrightarrow>
   length (takeWhile (\<lambda>x. x \<noteq> u) xs) < length (takeWhile (\<lambda>x. x \<noteq> v) xs)"
  by (induction xs) (auto split: if_splits)

lemma rebuild_path:
  assumes inv: "dj_inv g src goal s" and "src \<noteq> []" "\<forall>u. g u [] = None" "dj_dist s v = Some d"
  shows "\<exists>p. rebuild (dj_prev s) src v = Some (rev p) \<and> p \<noteq> [] \<and> connects g src v p d"
  using assms(4)
proof (induction "length (takeWhile (\<lambda>x. x \<noteq> v) (dj_visited s))" arbitrary: v d rule: less_induct)
  case less
  show ?case
  proof (cases "v = src")
    case True
    then have "rebuild (dj_prev s) src v = Some (rev [src])" using assms(2) by (simp add: rebuild.simps)
    moreover have "connects g src v [src] d"
      using True less.prems dj_invD(3) [OF inv] by (simp add: connects_def)
    ultimately show ?thesis by blast
  next
    case False
    obtain u c w where u: "dj_prev s v = Some u" "u \<in> set (takeWhile (\<lambda>x. x \<noteq> v) (dj_visited s))"
        "dj_dist s u = Some c" "g u v = Some w" "d = c + w"
      using dj_invD(5) [OF inv less.prems False] by (auto simp: from_prev_def)
    obtain p where p: "rebuild (dj_prev s) src u = Some (rev p)" "p \<noteq> []" "connects g src u p c"
      using less.hyps [OF earlier_shorter [OF u(2)] u(3)] by blast
    have "v \<noteq> []" using u(4) assms(3) by auto
    then have "rebuild (dj_prev s) src v = Some (rev (p @ [v]))"
      using False p(1) u(1) by (subst rebuild.simps) (simp add: map_at_def)
    moreover have "connects g src v (p @ [v]) d"
      using path_cost_snoc [of g p c v w] p(2,3) u(4,5) by (simp add: connects_def)
    ultimately show ?thesis by blast
  qed
qed

lemma search_shortest:
  assumes ok: "search_ok g nbs" and names: "src \<noteq> []" "\<forall>u. g u [] = None"
  shows "\<exists>p. search g nbs src dst = Some p \<and>
    (if \<exists>q c. connects g src dst q c
     then p \<noteq> [] \<and> (\<exists>c. connects g src dst p c \<and> (\<forall>q e. connects g src dst q e \<longrightarrow> c \<le> e)) else p = [])"
proof -
  obtain s where s: "while_option dj_going (dj_turn g nbs dst) (dj_start src) = Some s"
      and inv: "dj_inv g src dst s" and stop: "\<not> dj_going s"
    by (rule search_ends [OF ok])
  have g: "nonneg g" using ok by (simp add: search_ok_def)
  show ?thesis
  proof (cases "dj_dist s dst")
    case (Some d)
    obtain p where p: "rebuild (dj_prev s) src dst = Some (rev p)" "p \<noteq> []" "connects g src dst p d"
      using rebuild_path [OF inv names Some] by blast
    have "dj_found s" using stop Some dj_invD(8,11) [OF inv] by (force simp: dj_going_def)
    then have far: "\<forall>i\<in>set (dj_pq s). d \<le> ni_prio i"
      using dj_invD(10,11) [OF inv] Some by (fastforce simp: map_at_def)
    have "d \<le> e" if "connects g src dst q e" for q e
      using walk_near [OF inv g connects_walk [OF that] far] Some by simp
    then show ?thesis using s Some p by (auto simp: search_def)
  next
    case None
    then have "dst \<notin> set (dj_visited s)" using dj_invD(6) [OF inv] by blast
    then have pq: "dj_pq s = []" using stop dj_invD(11) [OF inv] by (auto simp: dj_going_def)
    have "\<not> connects g src dst q e" for q e
      using walk_near [OF inv g connects_walk, of dst q e "e + 1"] None pq \<open>dst \<notin> _\<close> by auto
    then show ?thesis using s None by (simp add: search_def)
  qed
qed

section \<open>The graph of a store\<close>

lemma add_edges_at:
  "add_edges g from w tos u v = (if u = from \<and> v \<in> set tos then Some (w v) else g u v)"
  unfolding add_edges_def by (induction tos arbitrary: g) auto

text \<open>With the clock standing still, reading one document leaves what the others read alone.\<close>

lemma Get_Get:
  assumes "kv_plain (pst_kv ps)"
  shows "kv_plain (pst_kv (snd (peers_Get J ps u (\<lambda>n. now)))) \<and>
    fst (peers_Get J (snd (peers_Get J ps u (\<lambda>n. now))) v (\<lambda>n. now)) = fst (peers_Get J ps v (\<lambda>n. now))"
proof -
  let ?kv = "snd (Get (pst_kv ps) (keyPeer u) now now)"
  have snd: "snd (peers_Get J t k (\<lambda>n. now)) = t\<lparr>pst_kv := snd (Get (pst_kv t) (keyPeer k) now now)\<rparr>" for t k
    by (auto simp: peers_Get_def split: prod.split option.split)
  have fst: "fst (peers_Get J t k (\<lambda>n. now)) =
      (case fst (Get (pst_kv t) (keyPeer k) now now) of None \<Rightarrow> None
       | Some b \<Rightarrow> (case js_Unmarshal (pj_meta J) b of (pm, ok) \<Rightarrow> if ok then Some pm else None))" for t k
    by (auto simp: peers_Get_def split: prod.split option.split)
  have p: "kv_plain ?kv" using assms by (rule memkv.get_inv)
  have "live (kv_map ?kv) k now = live (kv_map (pst_kv ps)) k now" for k
    using purge_idem_live [of "kv_map (pst_kv ps)" "keyPeer u" now k]
    by (simp add: memkv.get_ents [OF assms])
  then have "fst (Get ?kv k now now) = fst (Get (pst_kv ps) k now now)" for k
    by (simp add: memkv.get_val [OF p] memkv.get_val [OF assms])
  then show ?thesis using p by (simp add: snd fst)
qed

lemma build_loop_edges:
  assumes "kv_plain (pst_kv ps)"
  shows "fst (build_loop J mgr qual local ps g ids (\<lambda>n. now)) u v =
    (case (if u \<in> set ids then fst (peers_Get J ps u (\<lambda>n. now)) else None) of
       Some pm \<Rightarrow> if v \<in> set (pm_ConnectedDirectIDs pm) then Some (edgeWeight mgr qual local u v) else g u v
     | None \<Rightarrow> g u v)"
  using assms
proof (induction ids arbitrary: ps g)
  case (Cons i ids)
  let ?ps = "snd (peers_Get J ps i (\<lambda>n. now))"
  have G: "kv_plain (pst_kv ?ps)" "fst (peers_Get J ?ps k (\<lambda>n. now)) = fst (peers_Get J ps k (\<lambda>n. now))" for k
    using Get_Get [OF Cons.prems] by auto
  show ?case
    using Cons.IH [OF G(1)] G(2)
    by (cases "peers_Get J ps i (\<lambda>n. now)"; cases "fst (peers_Get J ps i (\<lambda>n. now))")
      (auto simp: add_edges_at split: option.splits)
qed simp

text \<open>Neighbour \<open>v\<close> in the live document of \<open>u\<close>.\<close>

definition adjacent :: "peers_json \<Rightarrow> PeerStore \<Rightarrow> int \<Rightarrow> PeerID \<Rightarrow> PeerID \<Rightarrow> bool" where
  "adjacent J ps now u v \<longleftrightarrow>
     (case fst (peers_Get J ps u (\<lambda>n. now)) of None \<Rightarrow> False | Some pm \<Rightarrow> v \<in> set (pm_ConnectedDirectIDs pm))"

lemma buildGraph_edges:
  assumes "kv_plain (pst_kv ps)"
  shows "fst (buildGraph J ps mgr qual local ids (\<lambda>n. now)) u v =
    (if u \<in> set ids \<and> adjacent J ps now u v then Some (edgeWeight mgr qual local u v) else None)"
  using build_loop_edges [OF assms, of J mgr qual local "\<lambda>u v. None" ids now u v]
  by (auto simp: buildGraph_def adjacent_def split: option.splits)

lemma buildGraph_finite:
  assumes "kv_plain (pst_kv ps)"
  shows "finite {(u, v). fst (buildGraph J ps mgr qual local ids (\<lambda>n. now)) u v \<noteq> None}"
proof (rule finite_subset)
  show "finite (Sigma (set ids) (\<lambda>u. case fst (peers_Get J ps u (\<lambda>n. now)) of None \<Rightarrow> {} | Some pm \<Rightarrow> set (pm_ConnectedDirectIDs pm)))"
    by (intro finite_SigmaI) (auto split: option.split)
qed (auto simp: buildGraph_edges [OF assms] adjacent_def split: option.splits if_splits)

text \<open>\<open>nbs\<close> lists the keys of a finite row, each once.\<close>

definition range_order :: "(graph \<Rightarrow> string \<Rightarrow> string list) \<Rightarrow> bool" where
  "range_order nbs \<longleftrightarrow> (\<forall>g u. finite (dom (g u)) \<longrightarrow> enumerates (nbs g u) (dom (g u)))"

lemma range_orderD: "range_order nbs \<Longrightarrow> finite (dom (g u)) \<Longrightarrow> enumerates (nbs g u) (dom (g u))"
  unfolding range_order_def by blast

definition fair_quality :: "(sid \<Rightarrow> Quality) \<Rightarrow> bool" where
  "fair_quality qual \<longleftrightarrow> (\<forall>s. 0 \<le> qu_RTT (qual s) \<and> 0 \<le> qu_LossRatio (qual s))"

lemma edgeWeight_pos: "fair_quality qual \<Longrightarrow> 0 < edgeWeight mgr qual local u v"
proof -
  assume q: "fair_quality qual"
  have "0 < linkBaseCost k" for k by (cases k) simp_all
  then show ?thesis
    using q by (auto simp: edgeWeight_def fair_quality_def Let_def split: option.split intro!: add_pos_nonneg)
qed

lemma finite_row: "finite {(u, v). g u v \<noteq> None} \<Longrightarrow> finite (dom (g u))"
  by (rule finite_subset [of _ "snd ` {(u, v). g u v \<noteq> None}"]) force+

lemma buildGraph_ok:
  assumes "kv_plain (pst_kv ps)" "fair_quality qual" "range_order nbs"
  shows "search_ok (fst (buildGraph J ps mgr qual local ids (\<lambda>n. now)))
    (nbs (fst (buildGraph J ps mgr qual local ids (\<lambda>n. now))))"
  unfolding search_ok_def
proof (intro conjI allI)
  show "nonneg (fst (buildGraph J ps mgr qual local ids (\<lambda>n. now)))"
    using less_imp_le [OF edgeWeight_pos [OF assms(2)]]
    by (auto simp: nonneg_def buildGraph_edges [OF assms(1)] split: if_splits)
qed (rule buildGraph_finite [OF assms(1)], rule range_orderD [OF assms(3) finite_row [OF buildGraph_finite [OF assms(1)]]])

section \<open>A node without adjacencies\<close>

lemma search_no_row:
  assumes "nbs src = []"
  shows "\<exists>p. search g nbs src dst = Some p \<and> length p < 2"
proof -
  let ?i = "\<lparr>ni_id = src, ni_prio = 0\<rparr>"
  let ?t = "dj_turn g nbs dst (dj_start src)"
  have q: "dj_pq (dj_start src) = [?i]" by (simp add: dj_start_def heap_push_def heap_up.simps [of _ _ 0])
  obtain x h where x: "heap_pop ni_prio [?i] = Some (x, h)"
    using heap_pop_None [of ni_prio "[?i]"] by (cases "heap_pop ni_prio [?i]") auto
  then have xh: "x = ?i" "h = []" using go_heap.elems_pop [OF x] by (auto simp: add_eq_conv_ex)
  have t: "dj_dist ?t = [src \<mapsto> 0] \<and> dj_prev ?t = Map.empty \<and> \<not> dj_going ?t"
    using x assms by (auto simp: dj_turn_def q xh dj_going_def Let_def) (simp_all add: dj_start_def)
  have "while_option dj_going (dj_turn g nbs dst) (dj_start src) = Some ?t"
    using t by (subst while_option_unfold) (simp add: dj_going_def [of "dj_start src"] q while_option_unfold [of _ _ ?t], simp add: dj_start_def)
  then show ?thesis using t by (auto simp: search_def rebuild.simps)
qed

lemma Get_absent_kept:
  assumes "kv_plain (pst_kv ps)" "kv_map (pst_kv ps) k = None"
  shows "kv_plain (pst_kv (snd (peers_Get J ps u clk))) \<and> kv_map (pst_kv (snd (peers_Get J ps u clk))) k = None"
  using memkv.get_inv [OF assms(1)] memkv.absent_kept(1) [OF assms]
  by (auto simp: peers_Get_def split: prod.split option.split) (metis snd_conv)+

lemma build_loop_no_row:
  assumes "kv_plain (pst_kv ps)" "kv_map (pst_kv ps) (keyPeer u) = None"
  shows "fst (build_loop J mgr qual local ps g ids clk) u = g u"
  using assms
proof (induction ids arbitrary: ps g clk)
  case (Cons i ids)
  note K = Get_absent_kept [OF Cons.prems, of J i clk]
  show ?case
  proof (cases "fst (peers_Get J ps i clk)")
    case None
    then show ?thesis using Cons.IH K by (cases "peers_Get J ps i clk") auto
  next
    case (Some pm)
    then have "i \<noteq> u" using absent_reads(4) [OF Cons.prems(1), of u J clk] Cons.prems(2) by auto
    then have "add_edges g i w tos u = g u" for w tos by (auto simp: fun_eq_iff add_edges_at)
    then show ?thesis using Cons.IH K Some by (cases "peers_Get J ps i clk") auto
  qed
qed simp

lemma findPath_no_row:
  assumes "kv_plain (pst_kv ps)" "kv_map (pst_kv ps) (keyPeer local) = None" "range_order nbs"
  shows "\<exists>p ps'. findPathDijkstra J ps mgr qual local ids nbs clk local target = (Some p, ps') \<and> length p < 2"
proof -
  obtain g ps' where b: "buildGraph J ps mgr qual local ids clk = (g, ps')" by (cases "buildGraph J ps mgr qual local ids clk")
  have "g local = Map.empty" using build_loop_no_row [OF assms(1,2), of J mgr qual local "\<lambda>u v. None" ids clk] b by (simp add: buildGraph_def)
  moreover from this have "enumerates (nbs g local) (dom (g local))" by (intro range_orderD [OF assms(3)]) simp
  ultimately have "nbs g local = []" by (simp add: enumerates_def)
  with search_no_row [of "nbs g" local g target] show ?thesis by (auto simp: findPathDijkstra_def b)
qed

section \<open>Properties\<close>

text \<open>
  C17: on a finite graph without negative weights and without nameless nodes, the search returns,
  and what it returns is a path from the source to the destination of least total cost, or the
  empty list exactly when no path exists, in whatever order neighbours are ranged over.
\<close>

theorem dijkstra_shortest:
  assumes "finite {(u, v). g u v \<noteq> None}" "nonneg g" "\<forall>u. enumerates (nbs u) (dom (g u))"
    and "src \<noteq> []" "\<forall>u. g u [] = None"
  shows "\<exists>p. search g nbs src dst = Some p \<and>
    (if \<exists>q c. connects g src dst q c
     then \<exists>c. connects g src dst p c \<and> (\<forall>q e. connects g src dst q e \<longrightarrow> c \<le> e) else p = [])"
proof -
  have "search_ok g nbs" using assms(1-3) by (simp add: search_ok_def)
  from search_shortest [OF this assms(4,5), of dst] show ?thesis by (auto split: if_splits)
qed

text \<open>
  C18: when no candidate is stored for the target, the router answers with the first hop of a
  cheapest path over the adjacencies in the live documents of the indexed peers, and says that
  there is none exactly when no such path exists. The first hop is listed as a neighbour in the
  local peer's own document. The clock stands still during the call, link qualities are not
  negative, and no document lists a nameless neighbour.
\<close>

theorem next_hop_shortest:
  assumes "kv_plain (pst_kv ps)" "fair_quality qual" "range_order nbs"
    and "kv_map (pst_kv ps) (keyRouteCands (''peer:'' @ target)) = None"
    and "local \<noteq> []" "target \<noteq> local" "\<forall>u\<in>set ids. \<not> adjacent J ps now u []"
    and "g = fst (buildGraph J ps mgr qual local ids (\<lambda>n. now))"
  shows "\<exists>nh path ok. fst (NextHopForPeer J ps mgr qual local ids nbs (\<lambda>n. now) target) = Some (nh, path, ok) \<and>
    (ok \<longleftrightarrow> (\<exists>q c. connects g local target q c)) \<and>
    (ok \<longrightarrow> adjacent J ps now local nh \<and> path ! 1 = nh \<and>
      (\<exists>c. connects g local target path c \<and> (\<forall>q e. connects g local target q e \<longrightarrow> c \<le> e)))"
proof -
  obtain ps' where B: "BestRouteCandidate J ps (''peer:'' @ target) (\<lambda>n. now) = (None, ps')"
    using absent_reads(3) [OF assms(1,4)] by (metis prod.collapse)
  have ps': "ps' = ps\<lparr>pst_kv := snd (Get (pst_kv ps) (keyRouteCands (''peer:'' @ target)) now now)\<rparr>"
    using B by (auto simp: BestRouteCandidate_def GetRouteCandidates_def Let_def split: prod.splits option.splits list.splits)
  have p': "kv_plain (pst_kv ps')" "kv_map (pst_kv ps') = kv_map (pst_kv ps)"
    using assms(4) by (simp_all add: ps' memkv.get_inv [OF assms(1)] memkv.get_ents [OF assms(1)])
  have "fst (peers_Get J ps' u (\<lambda>n. now)) = fst (peers_Get J ps u (\<lambda>n. now))" for u
  proof -
    have "fst (Get (pst_kv ps') (keyPeer u) now now) = fst (Get (pst_kv ps) (keyPeer u) now now)"
      by (simp add: memkv.get_val [OF p'(1)] memkv.get_val [OF assms(1)] p'(2))
    then show ?thesis by (auto simp: peers_Get_def split: prod.splits option.splits)
  qed
  then have adj: "adjacent J ps' now = adjacent J ps now" by (simp add: fun_eq_iff adjacent_def)
  have g': "fst (buildGraph J ps' mgr qual local ids (\<lambda>n. now)) = g"
    using p'(1) assms(1) by (simp add: fun_eq_iff buildGraph_edges adj assms(8))
  have "search_ok g (nbs g)" unfolding assms(8) by (rule buildGraph_ok [OF assms(1-3)])
  moreover have "\<forall>u. g u [] = None" using assms(7) by (simp add: assms(8) buildGraph_edges [OF assms(1)])
  ultimately obtain p where p: "search g (nbs g) local target = Some p"
      "if \<exists>q c. connects g local target q c
       then p \<noteq> [] \<and> (\<exists>c. connects g local target p c \<and> (\<forall>q e. connects g local target q e \<longrightarrow> c \<le> e)) else p = []"
    using search_shortest [of g "nbs g" local target] assms(5) by blast
  have N: "fst (NextHopForPeer J ps mgr qual local ids nbs (\<lambda>n. now) target) =
      Some (if length p \<ge> 2 then (p ! 1, p, True) else ([], [], False))"
  proof -
    obtain t where t: "buildGraph J ps' mgr qual local ids (\<lambda>n. now) = (g, t)" using g' by (metis prod.collapse)
    show ?thesis unfolding NextHopForPeer_def Let_def B by (simp add: findPathDijkstra_def t p(1))
  qed
  show ?thesis
  proof (cases "\<exists>q c. connects g local target q c")
    case True
    then obtain c where c: "p \<noteq> []" "connects g local target p c" using p(2) by auto
    then obtain v r where r: "p = local # v # r"
      using assms(6) by (cases p; cases "tl p") (auto simp: connects_def)
    then have "g local v \<noteq> None" using c(2) by (auto simp: connects_def split: option.splits)
    then have "adjacent J ps now local v" using assms(1) by (auto simp: assms(8) buildGraph_edges split: if_splits)
    then show ?thesis using N p(2) True r by auto
  qed (use N p(2) in auto)
qed

lemma no_route_sent:
  assumes "opt_Shards opts < 2 ^ 63" "opt_MaxBytes opts = 0" "opt_ExpireJitter opts = 0"
    and "s = peers_run J (peers_NewStore (New opts)) ops" "local \<notin> upserted ops"
    and "range_order nbs"
  shows "fst (SendBytesToPeer J s mgr qual local ids nbs clk open_err send_err target b) = Some (Some ErrNoRoute, None)"
proof -
  have o: "peers_only (upserted ops) s" using only_run [OF only_NewStore [OF assms(1-3)]] assms(4) by simp
  then have pl: "kv_plain (pst_kv s)" by (simp add: peers_only_def)
  obtain ps' where B: "BestRouteCandidate J s (''peer:'' @ target) clk = (None, ps')"
    using absent_reads(3) [OF pl only_absent(2) [OF o]] by (metis prod.collapse)
  have "ps' = s\<lparr>pst_kv := snd (Get (pst_kv s) (keyRouteCands (''peer:'' @ target)) (clk 1) (clk 2))\<rparr>"
    using B by (auto simp: BestRouteCandidate_def GetRouteCandidates_def Let_def split: prod.splits option.splits list.splits)
  then have "kv_plain (pst_kv ps')" "kv_map (pst_kv ps') (keyPeer local) = None"
    using only_absent(3) [OF o assms(5)] pl by (simp_all add: memkv.get_inv memkv.absent_kept(1))
  from findPath_no_row [OF this assms(6), of J mgr qual ids "\<lambda>n. clk (n + 3)" target] obtain p ps'' where
    "findPathDijkstra J ps' mgr qual local ids nbs (\<lambda>n. clk (n + 3)) local target = (Some p, ps'')" "length p < 2"
    by blast
  then have "NextHopForPeer J s mgr qual local ids nbs clk target = (Some ([], [], False), ps'')"
    unfolding NextHopForPeer_def Let_def B by simp
  then show ?thesis by (simp add: SendBytesToPeer_def)
qed

text \<open>
  A node that never upserts a document for its own id (no component does, unless a peer
  presents that id) never routes anything: in every store it can reach, whatever peers it knows
  and sessions it has, \<open>SendBytesToPeer\<close> returns \<open>ErrNoRoute\<close> and gives the bytes to no session.
\<close>

theorem router_never_routes:
  assumes "opt_Shards opts < 2 ^ 63" "opt_MaxBytes opts = 0" "opt_ExpireJitter opts = 0"
    and "s = peers_run J (peers_NewStore (New opts)) ops" "local \<notin> upserted ops"
    and "range_order nbs"
  shows "fst (SendBytesToPeer J s mgr qual local ids nbs clk open_err send_err target b) = Some (Some ErrNoRoute, None)"
  by (rule no_route_sent [OF assms])

section \<open>The properties at work\<close>

definition three_nodes :: graph where
  "three_nodes u v = (if u = ''a'' \<and> v = ''b'' then Some 10 else if u = ''a'' \<and> v = ''c'' then Some 1
     else if u = ''c'' \<and> v = ''b'' then Some 2 else None)"

definition three_nbs :: "string \<Rightarrow> string list" where
  "three_nbs u = (if u = ''a'' then [''b'', ''c''] else if u = ''c'' then [''b''] else [])"

lemma three_ok:
  "finite {(u, v). three_nodes u v \<noteq> None}" "nonneg three_nodes" "\<forall>u. enumerates (three_nbs u) (dom (three_nodes u))"
proof -
  have "{(u, v). three_nodes u v \<noteq> None} \<subseteq> {''a'', ''c''} \<times> {''b'', ''c''}"
    by (auto simp: three_nodes_def split: if_splits)
  then show "finite {(u, v). three_nodes u v \<noteq> None}" by (rule finite_subset) simp
  show "nonneg three_nodes" by (auto simp: nonneg_def three_nodes_def split: if_splits)
  show "\<forall>u. enumerates (three_nbs u) (dom (three_nodes u))"
    by (auto simp: enumerates_def three_nbs_def three_nodes_def dom_def)
qed

lemma dijkstra_shortest_witness:
  "\<exists>p c. search three_nodes three_nbs ''a'' ''b'' = Some p \<and> connects three_nodes ''a'' ''b'' p c \<and> c \<le> 3"
proof -
  have "connects three_nodes ''a'' ''b'' [''a'', ''c'', ''b''] 3" by (simp add: connects_def three_nodes_def)
  then show ?thesis
    using dijkstra_shortest [OF three_ok, of "''a''" "''b''"] by (auto simp: three_nodes_def split: if_splits)
qed

definition local_meta :: PeerMeta where
  "local_meta = zero_meta\<lparr>pm_ID := ''me'', pm_ConnectedDirectIDs := [''b'']\<rparr>"

definition local_json :: peers_json where
  "local_json = some_json\<lparr>pj_meta := pair_json local_meta local_meta\<rparr>"

definition local_store :: PeerStore where
  "local_store = Upsert local_json node_store local_meta (\<lambda>n. 1)"

definition calm :: "sid \<Rightarrow> Quality" where
  "calm s = \<lparr>qu_RTT = 2000000, qu_LossRatio = 0, qu_Jitter = 0, qu_EstablishedAt = 0, qu_LastSeen = None, qu_Score = 1\<rparr>"

definition no_sessions :: Manager where
  "no_sessions = NewManager (\<lambda>s. \<lparr>si_peer = \<lparr>pi_ID = [], pi_Addr = [], pi_Reachable = False\<rparr>, si_kind = KindMem,
     si_RTT = 0, si_EstablishedAt = 0, si_mutable = True, si_closed = False\<rparr>)"

definition sorted_order :: "graph \<Rightarrow> string \<Rightarrow> string list" where
  "sorted_order g u = sorted_list_of_set (dom (g u))"

lemma sorted_order_ok: "range_order sorted_order"
  by (simp add: range_order_def enumerates_def sorted_order_def)

lemma local_doc: "holds_doc (pj_meta local_json) local_store (keyPeer ''me'') local_meta (i64 (1 + defaultPeerTTL))"
  using holds_Upsert [OF node_store_plain, of local_json local_meta "\<lambda>n. 1"]
  by (simp add: local_store_def local_json_def pair_json_keeps) (simp add: local_meta_def)

lemma next_hop_shortest_witness:
  "\<exists>path. fst (NextHopForPeer local_json local_store no_sessions calm ''me'' [''me''] sorted_order (\<lambda>n. 5) ''b'') =
     Some (''b'', path, True)"
proof -
  let ?g = "fst (buildGraph local_json local_store no_sessions calm ''me'' [''me''] (\<lambda>n. 5))"
  have pl: "kv_plain (pst_kv local_store)" using local_doc by (simp add: holds_doc_def)
  have "fst (peers_Get local_json local_store ''me'' (\<lambda>n. 5)) = Some local_meta"
    using holds_peers_Get [OF local_doc, of "\<lambda>n. 5"] by (simp add: defaultPeerTTL_def i64_id)
  then have adj: "adjacent local_json local_store 5 ''me'' v \<longleftrightarrow> v = ''b''" for v
    by (simp add: adjacent_def local_meta_def)
  have no: "kv_map (pst_kv local_store) (keyRouteCands (''peer:'' @ ''b'')) = None"
    using only_absent(2) [OF only_exec [OF only_NewStore [of node_opts], of "PUpsert local_meta (\<lambda>n. 1)" local_json]]
    by (simp add: local_store_def node_store_def) (simp add: node_opts_def)
  have w: "edgeWeight no_sessions calm ''me'' ''me'' ''b'' = 100"
    by (simp add: edgeWeight_def no_sessions_def NewManager_def GetSession_def)
  have c: "connects ?g ''me'' ''b'' [''me'', ''b''] 100"
    by (simp add: connects_def buildGraph_edges [OF pl] adj w)
  have fq: "fair_quality calm" by (simp add: fair_quality_def calm_def)
  let ?N = "fst (NextHopForPeer local_json local_store no_sessions calm ''me'' [''me''] sorted_order (\<lambda>n. 5) ''b'')"
  have R: "\<exists>nh path ok. ?N = Some (nh, path, ok) \<and> (ok \<longleftrightarrow> (\<exists>q c. connects ?g ''me'' ''b'' q c)) \<and>
    (ok \<longrightarrow> adjacent local_json local_store 5 ''me'' nh \<and> path ! 1 = nh \<and>
      (\<exists>c. connects ?g ''me'' ''b'' path c \<and> (\<forall>q e. connects ?g ''me'' ''b'' q e \<longrightarrow> c \<le> e)))"
    by (rule next_hop_shortest [OF pl fq sorted_order_ok no _ _ _ refl]) (simp_all add: adj)
  from R obtain nh path ok where r: "?N = Some (nh, path, ok)" "ok \<longleftrightarrow> (\<exists>q c. connects ?g ''me'' ''b'' q c)"
      "ok \<longrightarrow> adjacent local_json local_store 5 ''me'' nh" by (elim exE conjE) (rule that, assumption+, blast)
  have ok unfolding r(2) using c by (intro exI)
  moreover from this have "nh = ''b''" using r(3) by (simp only: adj)
  ultimately show ?thesis using r(1) by (simp only: option.inject prod.inject) simp
qed

lemma router_never_routes_witness:
  "fst (SendBytesToPeer some_json (peers_run some_json (peers_NewStore (New node_opts)) [PUpsert some_peer (\<lambda>n. 1)])
     no_sessions calm ''local'' [''ed25519:b''] sorted_order (\<lambda>n. 2) (\<lambda>s. None :: unit option) (\<lambda>s b. None) ''ed25519:b'' [1]) =
   Some (Some ErrNoRoute, None)"
  using router_never_routes [of node_opts _ some_json "[PUpsert some_peer (\<lambda>n. 1)]" "''local''" sorted_order
      no_sessions calm "[''ed25519:b'']" "\<lambda>n. 2" "\<lambda>s. None :: unit option" "\<lambda>s b. None" "''ed25519:b''" "[1]"]
  by (simp add: node_opts_def upserted_def some_peer_def sorted_order_ok)

end
