(* ===== verification/Pipeline.thy ===== *)
theory Pipeline
  imports Messages Priocq Router
begin

text \<open>
  The forwarding pipeline of \<open>pkg/pipeline/pipeline.go\<close> and the small forwarder a session uses
  without it (\<open>pkg/core/peering/forward.go\<close>): classification of an envelope, the queue, the
  per-destination shaper, and the workers. \<open>worker_item\<close> is the body of the worker loop after
  \<open>Dequeue\<close>; the relation \<open>pipe_step\<close> interleaves producers and the two workers. What the router
  answers to a send is the parameter \<open>link\<close>. The lemmas account for every item.
\<close>

section \<open>Classification\<close>

definition inline_len :: "Output \<Rightarrow> nat" where
  "inline_len u = (case ou_Payload u of Some (PInline x) \<Rightarrow> length x | _ \<Rightarrow> 0)"

definition payloadLen :: "PbEnvelope \<Rightarrow> nat" where
  "payloadLen e =
     (case pe_Body e of
        Some (BRaw b) \<Rightarrow> length b
      | Some (BInvoke i) \<Rightarrow> length (in_InlineArgs i) * 64
      | Some (BChunk c) \<Rightarrow> length (pc_Data c)
      | Some (BResult r) \<Rightarrow> foldl (\<lambda>n u. n + inline_len u) 0 (rs_Outputs r)
      | Some (BTinyResult t) \<Rightarrow> (case tn_Payload t of Some (PInline x) \<Rightarrow> length x | _ \<Rightarrow> 16)
      | _ \<Rightarrow> 0)"

definition by_size :: "PbEnvelope \<Rightarrow> Class" where
  "by_size e = (if payloadLen e > 64 * 1024 then L2Bulk else L1Realtime)"

definition classify :: "PbEnvelope \<Rightarrow> Class" where
  "classify e =
     (case pe_Body e of
        Some (BControl c) \<Rightarrow> L0Control
      | Some (BRaw b) \<Rightarrow> L2Bulk
      | Some (BChunk c) \<Rightarrow> L2Bulk
      | Some (BResult r) \<Rightarrow> by_size e
      | Some (BTinyResult t) \<Rightarrow> by_size e
      | Some (BInvoke i) \<Rightarrow> by_size e
      | _ \<Rightarrow>
          let t = ph_Type (GetHeader e) in
          if t = MT_CONTROL then L0Control
          else if t = MT_TASK \<or> t = MT_RESULT \<or> t = MT_DAG_FRAGMENT then by_size e
          else L1Realtime)"

definition classifyLocal :: "PbEnvelope \<Rightarrow> Class" where
  "classifyLocal e =
     (case pe_Body e of
        Some (BControl c) \<Rightarrow> L0Control
      | Some (BChunk c) \<Rightarrow> L2Bulk
      | Some (BResult r) \<Rightarrow> L1Realtime
      | Some (BTinyResult t) \<Rightarrow> L1Realtime
      | Some (BRaw b) \<Rightarrow> L2Bulk
      | _ \<Rightarrow> L1Realtime)"

section \<open>The pipeline\<close>

record Pipeline =
  pl_q :: MultiLevelQueue
  pl_shaper :: "string \<Rightarrow> TokenBucket option"
  pl_ps :: "PeerStore option"
  pl_stopped :: bool

definition pl_New :: "PeerStore option \<Rightarrow> Pipeline" where
  "pl_New ps = \<lparr>pl_q = mlq_New, pl_shaper = Map.empty, pl_ps = ps, pl_stopped = False\<rparr>"

text \<open>Closing twice panics.\<close>

definition pl_Close :: "Pipeline \<Rightarrow> Pipeline option" where
  "pl_Close p = (if pl_stopped p then None else Some (p\<lparr>pl_stopped := True\<rparr>))"

definition forward_item :: "Class \<Rightarrow> PeerID \<Rightarrow> PbEnvelope \<Rightarrow> byte list \<Rightarrow> int \<Rightarrow> Item" where
  "forward_item cls src env raw now =
     (let it = \<lparr>itm_Bytes = raw, itm_Dest = GetId (ph_Dest (GetHeader env)), itm_Size = int (length raw),
                itm_Class = cls, itm_Deadline = 0, itm_Src = src, itm_Arrived = now\<rparr>;
          dl = ph_CreatedUnixMs (GetHeader env)
      in if dl \<noteq> 0 then it\<lparr>itm_Deadline := dl\<rparr> else it)"

text \<open>The item an envelope becomes; envelopes without header or destination are dropped.\<close>

definition admitted :: "(PbEnvelope \<Rightarrow> Class) \<Rightarrow> PeerID \<Rightarrow> PbEnvelope \<Rightarrow> byte list \<Rightarrow> int \<Rightarrow> Item list" where
  "admitted cl src env raw now =
     (if pe_Header env = None \<or> GetId (ph_Dest (GetHeader env)) = [] then []
      else [forward_item (cl env) src env raw now])"

definition EnqueueProto :: "Pipeline \<Rightarrow> PeerID \<Rightarrow> PbEnvelope \<Rightarrow> byte list \<Rightarrow> int \<Rightarrow> Pipeline" where
  "EnqueueProto p src env raw now = p\<lparr>pl_q := foldl Enqueue (pl_q p) (admitted classify src env raw now)\<rparr>"

text \<open>
  The bucket of the destination is made on first use. The result of \<open>Allow\<close> only decides whether
  the worker sleeps before it sends (\<open>None\<close>: the panic of a zero rate, which these buckets do not
  have). \<open>err\<close> says that the send failed.
\<close>

definition shape :: "Pipeline \<Rightarrow> Item \<Rightarrow> int \<Rightarrow> int \<Rightarrow> (int \<times> Pipeline) option" where
  "shape p it now now2 =
     (let tb = (case pl_shaper p (itm_Dest it) of None \<Rightarrow> NewTokenBucket 1000000 2000000 now | Some tb \<Rightarrow> tb) in
      case Allow tb (itm_Size it) now2 of
        None \<Rightarrow> None
      | Some ((ok, wait), tb) \<Rightarrow>
          Some (if ok then 0 else wait, p\<lparr>pl_shaper := (pl_shaper p)(itm_Dest it \<mapsto> tb)\<rparr>))"

definition worker_item ::
  "peers_json \<Rightarrow> Pipeline \<Rightarrow> Item \<Rightarrow> bool \<Rightarrow> int \<Rightarrow> int \<Rightarrow> clock \<Rightarrow> (int \<times> Pipeline) option" where
  "worker_item J p it err now now2 clk =
     (case shape p it now now2 of
        None \<Rightarrow> None
      | Some (wait, p) \<Rightarrow>
          if err then Some (wait, p\<lparr>pl_q := Enqueue (pl_q p) it\<rparr>)
          else Some (wait, p\<lparr>pl_ps := map_option (\<lambda>ps.
                 RecordExchange J ps (itm_Dest it) 0 (of_int (itm_Size it)) 0 1 clk) (pl_ps p)\<rparr>))"

section \<open>The forwarder of a session without pipeline\<close>

record localFwd =
  lf_q :: MultiLevelQueue
  lf_ps :: "PeerStore option"
  lf_stopped :: bool

definition local_EnqueueProto :: "localFwd \<Rightarrow> PeerID \<Rightarrow> PbEnvelope \<Rightarrow> byte list \<Rightarrow> int \<Rightarrow> localFwd" where
  "local_EnqueueProto f src env raw now =
     f\<lparr>lf_q := foldl Enqueue (lf_q f) (admitted classifyLocal src env raw now)\<rparr>"

definition local_worker_item :: "peers_json \<Rightarrow> localFwd \<Rightarrow> Item \<Rightarrow> bool \<Rightarrow> clock \<Rightarrow> localFwd" where
  "local_worker_item J f it err clk =
     (if err then f\<lparr>lf_q := Enqueue (lf_q f) it\<rparr>
      else f\<lparr>lf_ps := map_option (\<lambda>ps.
        RecordExchange J ps (itm_Dest it) 0 (of_int (itm_Size it)) 0 1 clk) (lf_ps f)\<rparr>)"

datatype protoForwarder = PipeFwd Pipeline | LocalFwd localFwd

definition newForwarder :: "PeerStore option \<Rightarrow> Pipeline option \<Rightarrow> protoForwarder" where
  "newForwarder ps pl =
     (case pl of Some p \<Rightarrow> PipeFwd p | None \<Rightarrow> LocalFwd \<lparr>lf_q = mlq_New, lf_ps = ps, lf_stopped = False\<rparr>)"

fun fwd_Enqueue :: "protoForwarder \<Rightarrow> PeerID \<Rightarrow> PbEnvelope \<Rightarrow> byte list \<Rightarrow> int \<Rightarrow> protoForwarder" where
  "fwd_Enqueue (PipeFwd p) src env raw now = PipeFwd (EnqueueProto p src env raw now)"
| "fwd_Enqueue (LocalFwd f) src env raw now = LocalFwd (local_EnqueueProto f src env raw now)"

text \<open>The shared pipeline outlives the session; a queue of its own is stopped with it.\<close>

fun fwd_Close :: "protoForwarder \<Rightarrow> protoForwarder" where
  "fwd_Close (PipeFwd p) = PipeFwd p"
| "fwd_Close (LocalFwd f) = LocalFwd (f\<lparr>lf_stopped := True\<rparr>)"

section \<open>Producers and workers\<close>

text \<open>
  \<open>py_hand i\<close> is the item worker \<open>i\<close> has taken and not yet dealt with; \<open>py_in\<close> and \<open>py_sent\<close> record
  the items admitted and the items sent, in order.
\<close>

record pipe_sys =
  py_pipe :: Pipeline
  py_hand :: "nat \<Rightarrow> Item option"
  py_in :: "Item list"
  py_sent :: "Item list"

inductive pipe_step :: "peers_json \<Rightarrow> (PeerID \<Rightarrow> byte list \<Rightarrow> bool \<Rightarrow> bool) \<Rightarrow> pipe_sys \<Rightarrow> pipe_sys \<Rightarrow> bool"
  for J link where
  y_enqueue: "pipe_step J link y (y\<lparr>py_pipe := EnqueueProto (py_pipe y) src env raw now,
    py_in := py_in y @ admitted classify src env raw now\<rparr>)"
| y_take: "i < 2 \<Longrightarrow> py_hand y i = None \<Longrightarrow> tryPop (pl_q (py_pipe y)) = (Some it, q) \<Longrightarrow>
    pipe_step J link y (y\<lparr>py_pipe := (py_pipe y)\<lparr>pl_q := q\<rparr>, py_hand := (py_hand y)(i \<mapsto> it)\<rparr>)"
| y_idle: "i < 2 \<Longrightarrow> py_hand y i = None \<Longrightarrow> tryPop (pl_q (py_pipe y)) = (None, q) \<Longrightarrow>
    pipe_step J link y (y\<lparr>py_pipe := (py_pipe y)\<lparr>pl_q := q\<rparr>\<rparr>)"
| y_sent: "py_hand y i = Some it \<Longrightarrow> link (itm_Dest it) (itm_Bytes it) True \<Longrightarrow>
    worker_item J (py_pipe y) it False now now2 clk = Some (wait, p) \<Longrightarrow>
    pipe_step J link y (y\<lparr>py_pipe := p, py_hand := (py_hand y)(i := None), py_sent := py_sent y @ [it]\<rparr>)"
| y_failed: "py_hand y i = Some it \<Longrightarrow> link (itm_Dest it) (itm_Bytes it) False \<Longrightarrow>
    worker_item J (py_pipe y) it True now now2 clk = Some (wait, p) \<Longrightarrow>
    pipe_step J link y (y\<lparr>py_pipe := p, py_hand := (py_hand y)(i := None)\<rparr>)"

definition pipe_start :: "PeerStore option \<Rightarrow> pipe_sys" where
  "pipe_start ps = \<lparr>py_pipe = pl_New ps, py_hand = (\<lambda>i. None), py_in = [], py_sent = []\<rparr>"

inductive_cases pipe_stepE: "pipe_step J link y z"

section \<open>Accounting\<close>

text \<open>Copies of an item in the queue, in the hands of the workers.\<close>

definition queued :: "MultiLevelQueue \<Rightarrow> Item \<Rightarrow> nat" where
  "queued q it = count_list (mlq_items q (itm_Class it) (itm_Dest it)) it"

definition held :: "(nat \<Rightarrow> Item option) \<Rightarrow> Item \<Rightarrow> nat" where
  "held h it = (if h 0 = Some it then 1 else 0) + (if h 1 = Some it then 1 else 0)"

definition pipe_ok :: "pipe_sys \<Rightarrow> bool" where
  "pipe_ok y \<longleftrightarrow> mlq_wf (pl_q (py_pipe y)) \<and> (\<forall>i it. py_hand y i = Some it \<longrightarrow> i < 2 \<and> 0 \<le> itm_Size it) \<and>
     (\<forall>it. count_list (py_in y) it = queued (pl_q (py_pipe y)) it + held (py_hand y) it + count_list (py_sent y) it)"

lemma admitted_size: "it \<in> set (admitted cl src env raw now) \<Longrightarrow> 0 \<le> itm_Size it"
  by (auto simp: admitted_def forward_item_def Let_def split: if_splits)

lemma count_single: "count_list [x] y = (if x = y then 1 else 0)" for y :: 'a
  unfolding count_list.simps by simp

lemma queued_Enqueue: "queued (Enqueue q x) it = queued q it + (if x = it then 1 else 0)"
proof (cases "x = it")
  case True
  show ?thesis unfolding True by (simp add: queued_def Enqueue_items)
next
  case False
  show ?thesis
    unfolding queued_def Enqueue_items if_not_P [OF False]
    by (cases "itm_Class x = itm_Class it \<and> itm_Dest x = itm_Dest it") (simp_all only: if_True if_False count_list_append count_single if_not_P [OF False] append_Nil2 add_0_right simp_thms)
qed

lemma queued_admitted:
  "queued (foldl Enqueue q (admitted cl src env raw now)) it = queued q it + count_list (admitted cl src env raw now) it"
  by (simp add: admitted_def queued_Enqueue)

lemma wf_admitted:
  "mlq_wf q \<Longrightarrow> mlq_wf (foldl Enqueue q (admitted cl src env raw now))"
  using admitted_size [of _ cl src env raw now] by (auto simp: admitted_def intro: Enqueue_wf)

lemma queued_pop:
  assumes "mlq_wf q" "tryPop q = (r, q')"
  shows "queued q it = (if r = Some it then 1 else 0) + queued q' it" "mlq_wf q'"
    "r = Some x \<Longrightarrow> 0 \<le> itm_Size x"
proof -
  note items = tryPop_items [OF assms(1), unfolded assms(2) fst_conv snd_conv]
  show "queued q it = (if r = Some it then 1 else 0) + queued q' it"
  proof (cases r)
    case None
    then show ?thesis using items [of "itm_Class it" "itm_Dest it"] by (simp add: queued_def)
  next
    case (Some x)
    show ?thesis
    proof (cases "x = it")
      case True
      then show ?thesis using items [of "itm_Class it" "itm_Dest it"] Some by (simp add: queued_def)
    next
      case False
      show ?thesis
        unfolding queued_def items [of "itm_Class it" "itm_Dest it"] Some option.case option.inject if_not_P [OF False]
        by (cases "itm_Class x = itm_Class it \<and> itm_Dest x = itm_Dest it") (simp_all only: if_True if_False count_list_append count_single if_not_P [OF False] append_Nil add_0 simp_thms)
    qed
  qed
  show "mlq_wf q'" using tryPop_pops(4) [OF assms(1)] assms(2) by simp
  show "0 \<le> itm_Size x" if "r = Some x"
  proof -
    have "x \<in> set (mlq_items q (itm_Class x) (itm_Dest x))" using items [of "itm_Class x" "itm_Dest x"] that by simp
    then obtain f where f: "lv_flows (q (itm_Class x)) (itm_Dest x) = Some f" "x \<in> set (fl_q f)"
      by (cases "lv_flows (q (itm_Class x)) (itm_Dest x)") (simp_all add: mlq_items_def lv_items_def)
    have "level_wf (itm_Class x) (q (itm_Class x))" using assms(1) unfolding mlq_wf_def by (rule spec)
    from level_wf_flow [OF this f(1)] have "\<forall>it \<in> set (fl_q f). itm_Dest it = itm_Dest x \<and> itm_Class it = itm_Class x \<and> 0 \<le> itm_Size it"
      unfolding flow_wf_def by (elim conjE)
    from bspec [OF this f(2)] show ?thesis by (elim conjE)
  qed
qed

lemma worker_item_q:
  assumes "worker_item J p it err now now2 clk = Some (wait, p')"
  shows "pl_q p' = (if err then Enqueue (pl_q p) it else pl_q p)"
  using assms by (auto simp: worker_item_def shape_def Let_def split: option.splits if_splits)

lemma two: "i < 2 \<Longrightarrow> i = 0 \<or> i = (1 :: nat)"
  by auto

lemma pipe_ok_step: "pipe_step J link y z \<Longrightarrow> pipe_ok y \<Longrightarrow> pipe_ok z"
proof (induction rule: pipe_step.induct)
  case (y_enqueue y src env raw now)
  then show ?case by (auto simp: pipe_ok_def EnqueueProto_def queued_admitted wf_admitted)
next
  case (y_take i y it q)
  have wf: "mlq_wf (pl_q (py_pipe y))" using y_take(4) by (simp add: pipe_ok_def)
  have "held ((py_hand y)(i \<mapsto> it)) x = held (py_hand y) x + (if x = it then 1 else 0)" for x
    using two [OF y_take(1)] y_take(2) by (auto simp: held_def)
  then show ?case
    using y_take(1,4) queued_pop [OF wf y_take(3)] by (auto simp: pipe_ok_def split: if_splits)
next
  case (y_idle i y q)
  have wf: "mlq_wf (pl_q (py_pipe y))" using y_idle(4) by (simp add: pipe_ok_def)
  then show ?case using y_idle(4) queued_pop [OF wf y_idle(3)] by (auto simp: pipe_ok_def)
next
  case (y_sent y i it now now2 clk wait p)
  have "i < 2" using y_sent(1,4) by (auto simp: pipe_ok_def)
  then have "held (py_hand y) x = held ((py_hand y)(i := None)) x + (if x = it then 1 else 0)" for x
    using two [of i] y_sent(1) by (auto simp: held_def)
  then show ?case using y_sent(4) worker_item_q [OF y_sent(3)] by (auto simp: pipe_ok_def split: if_splits)
next
  case (y_failed y i it now now2 clk wait p)
  have i: "i < 2" "0 \<le> itm_Size it" using y_failed(1,4) by (auto simp: pipe_ok_def)
  then have "held (py_hand y) x = held ((py_hand y)(i := None)) x + (if x = it then 1 else 0)" for x
    using two [of i] y_failed(1) by (auto simp: held_def)
  then show ?case
    using y_failed(4) i worker_item_q [OF y_failed(3)]
    by (auto simp: pipe_ok_def queued_Enqueue Enqueue_wf split: if_splits)
qed

lemma pipe_ok_start: "pipe_ok (pipe_start ps)"
  by (simp add: pipe_ok_def pipe_start_def pl_New_def mlq_wf_New queued_def held_def mlq_items_def mlq_New_def lv_items_def)

lemma pipe_ok_reach: "(pipe_step J link)\<^sup>*\<^sup>* (pipe_start ps) y \<Longrightarrow> pipe_ok y"
  by (induction rule: rtranclp_induct) (auto simp: pipe_ok_start pipe_ok_step)

lemma sent_linked:
  assumes "(pipe_step J link)\<^sup>*\<^sup>* (pipe_start ps) y" "it \<in> set (py_sent y)"
  shows "link (itm_Dest it) (itm_Bytes it) True"
  using assms by (induction rule: rtranclp_induct) (auto simp: pipe_start_def elim!: pipe_stepE)


section \<open>Properties\<close>

text \<open>
  C24: the pipeline loses and duplicates nothing: in every state the producers and the two workers
  can reach, each item admitted is queued, in the hands of a worker, or was given to the router
  without error, exactly as often as it was admitted. An item whose send failed is queued again.
\<close>

theorem pipeline_accounting:
  assumes "(pipe_step J link)\<^sup>*\<^sup>* (pipe_start ps) y"
  shows "count_list (py_in y) it = queued (pl_q (py_pipe y)) it + held (py_hand y) it + count_list (py_sent y) it"
  using pipe_ok_reach [OF assms] by (simp add: pipe_ok_def)

text \<open>
  A failed send puts the item behind everything queued for the same class and destination
  since, so a retry changes the order of a flow.
\<close>

theorem retry_goes_last:
  assumes "worker_item J p it True now now2 clk = Some (wait, p')"
  shows "mlq_items (pl_q p') (itm_Class it) (itm_Dest it) = mlq_items (pl_q p) (itm_Class it) (itm_Dest it) @ [it]"
  using worker_item_q [OF assms] by (simp add: Enqueue_items)

text \<open>The default bucket at its creation and after the requests of the next property.\<close>

lemma Allow_fresh:
  "Allow (NewTokenBucket 1000000 2000000 t) 2000000 t =
   Some ((True, 0), \<lparr>tb_capacity = 2000000, tb_tokens = 0, tb_rate = 1000000, tb_last = Some t\<rparr>)"
  by (simp add: NewTokenBucket_def Allow_def refill_def Let_def i64_def)

lemma Allow_empty:
  "Allow \<lparr>tb_capacity = 2000000, tb_tokens = 0, tb_rate = 1000000, tb_last = Some t\<rparr> 2000000 t =
   Some ((False, 2000000000), \<lparr>tb_capacity = 2000000, tb_tokens = 0, tb_rate = 1000000, tb_last = Some t\<rparr>)"
  by (simp add: Allow_def refill_def Let_def nanosPerSecond_def go_div_def i64_def)

lemma Allow_later:
  "Allow \<lparr>tb_capacity = 2000000, tb_tokens = 0, tb_rate = 1000000, tb_last = Some t\<rparr> 2000000 (t + 2000000000) =
   Some ((True, 0), \<lparr>tb_capacity = 2000000, tb_tokens = 0, tb_rate = 1000000, tb_last = Some (t + 2000000000)\<rparr>)"
  by (simp add: Allow_def refill_def Let_def nanosPerSecond_def go_div_def i64_def)

text \<open>What three items of 2,000,000 bytes to one destination wait, the third after two seconds.\<close>

definition three_waits :: "peers_json \<Rightarrow> Pipeline \<Rightarrow> Item \<Rightarrow> Item \<Rightarrow> Item \<Rightarrow> int \<Rightarrow> clock \<Rightarrow> int list option" where
  "three_waits J p a b c t clk =
     (case worker_item J p a False t t clk of None \<Rightarrow> None
      | Some (w1, p) \<Rightarrow>
          (case worker_item J p b False t t clk of None \<Rightarrow> None
           | Some (w2, p) \<Rightarrow>
               (case worker_item J p c False (t + 2000000000) (t + 2000000000) clk of None \<Rightarrow> None
                | Some (w3, p) \<Rightarrow> Some [w1, w2, w3])))"

text \<open>
  The shaper does not keep the rate of its buckets. The bucket of a destination has a capacity
  of 2,000,000 bytes and a rate of 1,000,000 bytes per second, but an item that waits is sent
  without paying: of three items of 2,000,000 bytes the first waits 0 s, the second 2 s, and the
  third, taken after these two seconds, waits 0 s again, so that 6,000,000 bytes leave in two
  seconds where the bucket allows 4,000,000.
\<close>

theorem shaper_exceeds_rate:
  assumes "pl_shaper p d = None" "itm_Dest a = d" "itm_Dest b = d" "itm_Dest c = d"
    and "itm_Size a = 2000000" "itm_Size b = 2000000" "itm_Size c = 2000000"
  shows "three_waits J p a b c t clk = Some [0, 2 * nanosPerSecond, 0]"
  using assms by (simp add: three_waits_def worker_item_def shape_def Allow_fresh Allow_empty Allow_later nanosPerSecond_def)

text \<open>
  C25: the two forwarders classify an envelope alike, except that the pipeline sends results, tiny
  results and invocations above 64 KiB as bulk and lets the message type decide where the body does
  not.
\<close>

theorem classifiers_differ:
  "classify e \<noteq> classifyLocal e \<longleftrightarrow>
     (case pe_Body e of
        Some (BResult r) \<Rightarrow> payloadLen e > 64 * 1024
      | Some (BTinyResult t) \<Rightarrow> payloadLen e > 64 * 1024
      | Some (BInvoke i) \<Rightarrow> payloadLen e > 64 * 1024
      | Some (BControl c) \<Rightarrow> False
      | Some (BRaw b) \<Rightarrow> False
      | Some (BChunk c) \<Rightarrow> False
      | _ \<Rightarrow> ph_Type (GetHeader e) = MT_CONTROL)"
proof (cases "pe_Body e")
  case None
  then show ?thesis by (simp add: classify_def classifyLocal_def by_size_def payloadLen_def Let_def)
next
  case (Some b)
  then show ?thesis
    by (cases b) (simp_all add: classify_def classifyLocal_def by_size_def payloadLen_def Let_def)
qed

section \<open>The pipeline over the router\<close>

text \<open>
  What the router of node \<open>local\<close> can answer to a send: the store is any the components can produce
  that never upsert a document for \<open>local\<close>; sessions, qualities and failures are arbitrary.
\<close>

definition route_link :: "peers_json \<Rightarrow> Options \<Rightarrow> PeerID \<Rightarrow> PeerID \<Rightarrow> byte list \<Rightarrow> bool \<Rightarrow> bool" where
  "route_link J opts local dest b ok \<longleftrightarrow>
     (\<exists>ops mgr qual ids nbs clk oe se err (sess :: sid option). local \<notin> upserted ops \<and> range_order nbs \<and>
        fst (SendBytesToPeer J (peers_run J (peers_NewStore (New opts)) ops) mgr qual local ids nbs clk
               (oe :: sid \<Rightarrow> string option) se dest b) = Some (err, sess) \<and> (ok \<longleftrightarrow> err = None))"

lemma sent_links:
  assumes "(pipe_step J link)\<^sup>*\<^sup>* (pipe_start ps) y" "\<And>d b. \<not> link d b True"
  shows "py_sent y = []"
  using sent_linked [OF assms(1)] assms(2) by (cases "py_sent y") auto

lemma route_link_fails:
  assumes "opt_Shards opts < 2 ^ 63" "opt_MaxBytes opts = 0" "opt_ExpireJitter opts = 0"
  shows "\<not> route_link J opts local d b True"
  unfolding route_link_def by (auto simp: no_route_sent [OF assms refl])

text \<open>
  The pipeline over the router of a node that never upserts a document for its own id delivers
  nothing: whatever is enqueued and however the workers run, nothing is sent, and every item ever
  admitted is still queued or in the hands of a worker.
\<close>

theorem node_never_forwards:
  assumes "opt_Shards opts < 2 ^ 63" "opt_MaxBytes opts = 0" "opt_ExpireJitter opts = 0"
    and "(pipe_step J (route_link J opts local))\<^sup>*\<^sup>* (pipe_start ps) y"
  shows "py_sent y = [] \<and> (\<forall>it. count_list (py_in y) it = queued (pl_q (py_pipe y)) it + held (py_hand y) it)"
proof -
  have "py_sent y = []" using sent_links [OF assms(4)] route_link_fails [OF assms(1-3)] by blast
  then show ?thesis using pipe_ok_reach [OF assms(4)] by (simp add: pipe_ok_def)
qed

section \<open>The properties at work\<close>

definition task_env :: PbEnvelope where
  "task_env = \<lparr>pe_Header = Some (zero_pb_header\<lparr>ph_Type := MT_TASK, ph_Dest := Some \<lparr>nr_Id = ''b'', nr_Geohash = []\<rparr>\<rparr>),
     pe_rest = [], pe_Body = None\<rparr>"

definition task_item :: Item where
  "task_item = \<lparr>itm_Bytes = [7, 7], itm_Dest = ''b'', itm_Size = 2, itm_Class = L1Realtime, itm_Deadline = 0,
     itm_Src = ''a'', itm_Arrived = 5\<rparr>"

lemma task_admitted: "admitted classify ''a'' task_env [7, 7] 5 = [task_item]"
  by (simp add: admitted_def task_env_def task_item_def forward_item_def GetHeader_def GetId_def classify_def by_size_def
      payloadLen_def zero_pb_header_def MT_TASK_def MT_CONTROL_def Let_def)

text \<open>One item enqueued in a fresh pipeline.\<close>

definition one_queued :: pipe_sys where
  "one_queued = (pipe_start None)\<lparr>py_pipe := EnqueueProto (pl_New None) ''a'' task_env [7, 7] 5, py_in := [task_item]\<rparr>"

lemma one_queued_reached: "(pipe_step J link)\<^sup>*\<^sup>* (pipe_start None) one_queued"
proof -
  have "pipe_step J link (pipe_start None) one_queued"
    using y_enqueue [of J link "pipe_start None" "''a''" task_env "[7, 7]" 5]
    by (simp add: one_queued_def pipe_start_def task_admitted)
  then show ?thesis by (rule r_into_rtranclp)
qed

lemma pipeline_accounting_witness:
  "count_list (py_in one_queued) task_item =
     queued (pl_q (py_pipe one_queued)) task_item + held (py_hand one_queued) task_item + count_list (py_sent one_queued) task_item"
  by (rule pipeline_accounting [OF one_queued_reached [of some_json "\<lambda>d b ok. ok"]])

lemma node_never_forwards_witness:
  "py_sent one_queued = [] \<and> (\<forall>it. count_list (py_in one_queued) it =
     queued (pl_q (py_pipe one_queued)) it + held (py_hand one_queued) it)"
  by (rule node_never_forwards [of node_opts some_json "''local''" None])
    (simp_all add: node_opts_def one_queued_reached)

lemma retry_goes_last_witness:
  "mlq_items (pl_q (snd (the (worker_item some_json (pl_New None) task_item True 5 5 (\<lambda>n. 5))))) L1Realtime ''b'' =
   mlq_items (pl_q (pl_New None)) L1Realtime ''b'' @ [task_item]"
proof -
  have "\<exists>w p'. worker_item some_json (pl_New None) task_item True 5 5 (\<lambda>n. 5) = Some (w, p')"
    by (simp add: worker_item_def shape_def pl_New_def Allow_def NewTokenBucket_def refill_def Let_def task_item_def)
  then obtain w p' where e: "worker_item some_json (pl_New None) task_item True 5 5 (\<lambda>n. 5) = Some (w, p')" by blast
  from retry_goes_last [OF this] show ?thesis unfolding e by (simp add: task_item_def)
qed

lemma shaper_exceeds_rate_witness:
  "three_waits some_json (pl_New None) (task_item\<lparr>itm_Size := 2000000\<rparr>) (task_item\<lparr>itm_Size := 2000000\<rparr>)
     (task_item\<lparr>itm_Size := 2000000\<rparr>) 5 (\<lambda>n. 5) = Some [0, 2 * nanosPerSecond, 0]"
  by (rule shaper_exceeds_rate [of _ "''b''"]) (simp_all add: pl_New_def task_item_def)

end
