(* ===== verification/Registry.thy ===== *)
theory Registry
  imports Messages "HOL-Library.AList"
begin

text \<open>
  The worker registry of \<open>pkg/registry/store.go\<close>: one JSON document per worker in the shared
  key-value store, without expiry, and an index of worker ids. A map built and then ranged over
  is an association list; the code sorts the values by their keys, which are distinct, so the
  order of the range does not matter. The elements of a repeated field are never nil.
  Lemmas: the documents refine a map from worker ids to records (\<open>reg_spec\<close>), and what a page
  of the listing holds.
\<close>

section \<open>State\<close>

record workerDoc =
  wd_WorkerID :: string
  wd_Self :: "NodeRef option"
  wd_Endpoints :: "NetworkEndpoint list"
  wd_Features :: "opaque option"
  wd_Labels :: "string \<Rightarrow> string option"
  wd_CapacityTotal :: "opaque option"
  wd_CapacityFree :: "opaque option"
  wd_Tasks :: "TaskDescriptor list"
  wd_UpdatedUnixMs :: int

definition zero_doc :: workerDoc where
  "zero_doc = \<lparr>wd_WorkerID = [], wd_Self = None, wd_Endpoints = [], wd_Features = None,
     wd_Labels = Map.empty, wd_CapacityTotal = None, wd_CapacityFree = None, wd_Tasks = [], wd_UpdatedUnixMs = 0\<rparr>"

record RegStore =
  rg_kv :: Store
  rg_workers :: "string set"

definition reg_NewStore :: "Store \<Rightarrow> RegStore" where
  "reg_NewStore kv = \<lparr>rg_kv = kv, rg_workers = {}\<rparr>"

section \<open>Tasks and labels\<close>

definition taskKeyOf :: "TaskDescriptor \<Rightarrow> string" where
  "taskKeyOf t =
     (let sid = TrimSpace (td_StableId t) in
      if sid \<noteq> [] then ''sid:'' @ sid else TrimSpace (td_Name t) @ ''@'' @ TrimSpace (td_Version t))"

definition taskKeyStr :: "TaskKey \<Rightarrow> string" where
  "taskKeyStr k =
     (let sid = TrimSpace (tk_StableId k) in
      if sid \<noteq> [] then ''sid:'' @ sid else TrimSpace (tk_Name k) @ ''@'' @ TrimSpace (tk_Version k))"

type_synonym task_map = "(string \<times> TaskDescriptor) list"

definition put_tasks :: "task_map \<Rightarrow> TaskDescriptor list \<Rightarrow> task_map" where
  "put_tasks m ts = foldl (\<lambda>m t. AList.update (taskKeyOf t) t m) m ts"

definition sort_tasks :: "task_map \<Rightarrow> TaskDescriptor list" where
  "sort_tasks m = sort_key taskKeyOf (map snd m)"

definition dedupTasks :: "TaskDescriptor list \<Rightarrow> TaskDescriptor list" where
  "dedupTasks ts = (if ts = [] then [] else sort_tasks (put_tasks [] ts))"

definition labelsMatch :: "(string \<Rightarrow> string option) \<Rightarrow> pb_map \<Rightarrow> bool" where
  "labelsMatch have need \<longleftrightarrow> need = [] \<or> (\<forall>(k, v)\<in>set need. have k = Some v)"

fun hasTask :: "TaskDescriptor list \<Rightarrow> string \<Rightarrow> string \<Rightarrow> bool" where
  "hasTask [] name version = False"
| "hasTask (t # ts) name version =
     (if td_Name t \<noteq> name then hasTask ts name version
      else if version = [] \<or> td_Version t = version then True else hasTask ts name version)"

section \<open>Operations\<close>

definition register_doc :: "TaskRegister \<Rightarrow> int \<Rightarrow> workerDoc" where
  "register_doc req now =
     zero_doc\<lparr>wd_WorkerID := TrimSpace (tr_WorkerId req), wd_Self := tr_Self req, wd_Endpoints := tr_Endpoints req,
       wd_Features := tr_Features req, wd_Labels := map_of (tr_Labels req),
       wd_Tasks := dedupTasks (tr_Tasks req), wd_UpdatedUnixMs := now\<rparr>"

definition Register ::
  "workerDoc json \<Rightarrow> RegStore \<Rightarrow> TaskRegister \<Rightarrow> clock \<Rightarrow> (bool \<times> string \<times> string list) \<times> RegStore" where
  "Register J s req clk =
     (let wid = TrimSpace (tr_WorkerId req) in
      if wid = [] then ((False, ''missing worker_id'', []), s)
      else
        let now = unixMilli (clk 0);
            b = js_Marshal J (register_doc req now);
            s = s\<lparr>rg_kv := snd (Set (rg_kv s) (reg_key wid) b 0 (clk 1))\<rparr>;
            s = s\<lparr>rg_workers := insert wid (rg_workers s)\<rparr>
        in ((True, [], []), s))"

definition update_tasks :: "TaskUpdate \<Rightarrow> TaskDescriptor list \<Rightarrow> TaskDescriptor list" where
  "update_tasks req ts =
     (let byKey = put_tasks (put_tasks [] ts) (tu_AddOrUpdate req);
          byKey = foldl (\<lambda>m k. AList.delete (taskKeyStr k) m) byKey (tu_Remove req)
      in sort_tasks byKey)"

definition update_doc :: "TaskUpdate \<Rightarrow> int \<Rightarrow> workerDoc \<Rightarrow> workerDoc" where
  "update_doc req now doc =
     (let doc = doc\<lparr>wd_WorkerID := TrimSpace (tu_WorkerId req)\<rparr>;
          doc = (if tu_Endpoints req \<noteq> [] then doc\<lparr>wd_Endpoints := tu_Endpoints req\<rparr> else doc);
          labels = wd_Labels doc ++ map_of (tu_LabelsSet req);
          labels = foldl (\<lambda>m k. m(k := None)) labels (tu_LabelsDel req);
          doc = doc\<lparr>wd_Labels := labels\<rparr>;
          doc = (if tu_AddOrUpdate req \<noteq> [] \<or> tu_Remove req \<noteq> []
                 then doc\<lparr>wd_Tasks := update_tasks req (wd_Tasks doc)\<rparr> else doc)
      in doc\<lparr>wd_UpdatedUnixMs := now\<rparr>)"

definition reg_Update :: "workerDoc json \<Rightarrow> RegStore \<Rightarrow> TaskUpdate \<Rightarrow> clock \<Rightarrow> RegStore" where
  "reg_Update J s req clk =
     (let wid = TrimSpace (tu_WorkerId req) in
      if wid = [] then s
      else
        let s = s\<lparr>rg_kv := snd (Update (rg_kv s) (reg_key wid)
                    (edit J (update_doc req (unixMilli (clk 1)))) (clk 0))\<rparr>
        in s\<lparr>rg_workers := insert wid (rg_workers s)\<rparr>)"

definition drop_tasks :: "TaskDeregister \<Rightarrow> int \<Rightarrow> workerDoc \<Rightarrow> workerDoc" where
  "drop_tasks req now doc =
     (let want = taskKeyStr ` set (tx_Tasks req) in
      doc\<lparr>wd_Tasks := filter (\<lambda>t. taskKeyOf t \<notin> want) (wd_Tasks doc), wd_UpdatedUnixMs := now\<rparr>)"

definition Deregister :: "workerDoc json \<Rightarrow> RegStore \<Rightarrow> TaskDeregister \<Rightarrow> clock \<Rightarrow> RegStore" where
  "Deregister J s req clk =
     (let wid = TrimSpace (tx_WorkerId req) in
      if wid = [] then s
      else if tx_Tasks req = [] then
        s\<lparr>rg_kv := snd (Delete (rg_kv s) (reg_key wid)), rg_workers := rg_workers s - {wid}\<rparr>
      else
        s\<lparr>rg_kv := snd (Update (rg_kv s) (reg_key wid)
           (\<lambda>old. case js_Unmarshal J old of
              (doc, ok) \<Rightarrow> if \<not> ok then old else js_Marshal J (drop_tasks req (unixMilli (clk 1)) doc)) (clk 0))\<rparr>)"

section \<open>Listing\<close>

definition worker_record :: "bool \<Rightarrow> workerDoc \<Rightarrow> WorkerRecord" where
  "worker_record includeTasks doc =
     \<lparr>wr_WorkerId = wd_WorkerID doc, wr_Self = wd_Self doc, wr_Endpoints = wd_Endpoints doc,
      wr_Features = wd_Features doc, wr_Labels = wd_Labels doc, wr_CapacityTotal = wd_CapacityTotal doc,
      wr_CapacityFree = wd_CapacityFree doc, wr_Tasks = (if includeTasks then wd_Tasks doc else [])\<rparr>"

definition selected :: "TaskListWorkers \<Rightarrow> workerDoc \<Rightarrow> bool" where
  "selected req doc \<longleftrightarrow> labelsMatch (wd_Labels doc) (tl_LabelFilter req) \<and>
     (let fn = TrimSpace (tl_FunctionName req); ver = TrimSpace (tl_Version req) in
      \<not> (fn \<noteq> [] \<and> \<not> hasTask (wd_Tasks doc) fn ver))"

definition page_size :: "TaskListWorkers \<Rightarrow> nat" where
  "page_size req = (let n = unat (tl_PageSize req) in if n \<le> 0 then 100 else n)"

definition page_start :: "TaskListWorkers \<Rightarrow> int" where
  "page_start req =
     (let tok = TrimSpace (tl_PageToken req) in
      if tok \<noteq> [] then (case Atoi tok of Inr n \<Rightarrow> if n \<ge> 0 then n else 0 | Inl _ \<Rightarrow> 0) else 0)"

fun list_loop ::
  "workerDoc json \<Rightarrow> TaskListWorkers \<Rightarrow> Store \<Rightarrow> string list \<Rightarrow> nat \<Rightarrow> WorkerRecord list \<Rightarrow> clock \<Rightarrow>
   WorkerRecord list \<times> nat \<times> Store" where
  "list_loop J req kv [] matched out clk = (out, matched, kv)"
| "list_loop J req kv (i # ids) matched out clk =
     (if int matched < page_start req then list_loop J req kv ids (Suc matched) out clk
      else case Get kv (reg_key i) (clk 0) (clk 1) of
          (None, kv) \<Rightarrow> list_loop J req kv ids matched out (\<lambda>n. clk (n + 2))
        | (Some b, kv) \<Rightarrow>
            let doc = fst (js_Unmarshal J b) in
            if \<not> selected req doc then list_loop J req kv ids matched out (\<lambda>n. clk (n + 2))
            else
              let out = out @ [worker_record (tl_IncludeTasks req) doc]; matched = Suc matched in
              if length out \<ge> page_size req then (out, matched, kv)
              else list_loop J req kv ids matched out (\<lambda>n. clk (n + 2)))"

definition ListWorkers ::
  "workerDoc json \<Rightarrow> RegStore \<Rightarrow> TaskListWorkers \<Rightarrow> clock \<Rightarrow> TaskListWorkersReply \<times> RegStore" where
  "ListWorkers J s req clk =
     (let ids = sorted_list_of_set (rg_workers s) in
      case list_loop J req (rg_kv s) ids 0 [] clk of
        (out, matched, kv) \<Rightarrow>
          (\<lparr>lr_Workers = out, lr_NextPageToken = (if matched < length ids then Itoa (int matched) else [])\<rparr>,
           s\<lparr>rg_kv := kv\<rparr>))"

section \<open>Task lists\<close>

text \<open>What the last of several tasks with one key says about that key.\<close>

definition last_task :: "TaskDescriptor list \<Rightarrow> string \<Rightarrow> TaskDescriptor option" where
  "last_task ts = map_of (rev (map (\<lambda>t. (taskKeyOf t, t)) ts))"

definition keyed :: "task_map \<Rightarrow> bool" where
  "keyed m \<longleftrightarrow> distinct (map fst m) \<and> (\<forall>k t. map_of m k = Some t \<longrightarrow> taskKeyOf t = k)"

lemma keyed_update: "keyed m \<Longrightarrow> keyed (AList.update (taskKeyOf t) t m)"
  by (auto simp: keyed_def distinct_update update_conv')

lemma keyed_put: "keyed m \<Longrightarrow> keyed (put_tasks m ts) \<and> map_of (put_tasks m ts) = map_of m ++ last_task ts"
proof (induction ts arbitrary: m)
  case Nil
  then show ?case by (simp add: put_tasks_def last_task_def)
next
  case (Cons t ts)
  have "last_task (t # ts) = [taskKeyOf t \<mapsto> t] ++ last_task ts"
    by (simp add: last_task_def)
  moreover have "put_tasks m (t # ts) = put_tasks (AList.update (taskKeyOf t) t m) ts" by (simp add: put_tasks_def)
  ultimately show ?case
    using Cons.IH [OF keyed_update [OF Cons.prems, of t]] by (simp add: update_conv') (auto simp: map_add_def fun_eq_iff split: option.split)
qed

lemma keyed_deletes:
  "keyed m \<Longrightarrow> keyed (foldl (\<lambda>m k. AList.delete (f k) m) m ks) \<and>
   map_of (foldl (\<lambda>m k. AList.delete (f k) m) m ks) = (map_of m) |` (- (f ` set ks))"
proof (induction ks arbitrary: m)
  case (Cons k ks)
  have "keyed (AList.delete (f k) m)"
    using Cons.prems by (auto simp: keyed_def distinct_delete delete_conv' split: if_splits)
  from Cons.IH [OF this] show ?case
    by (auto simp: delete_conv' restrict_map_def fun_eq_iff)
qed (simp add: restrict_map_def)

lemma sort_tasks_keyed:
  assumes "keyed m"
  shows "sorted (map taskKeyOf (sort_tasks m))" "distinct (map taskKeyOf (sort_tasks m))"
    "t \<in> set (sort_tasks m) \<longleftrightarrow> map_of m (taskKeyOf t) = Some t"
proof -
  have k: "map (taskKeyOf \<circ> snd) m = map fst m"
    using assms by (auto simp: keyed_def intro: map_of_is_SomeI)
  show "sorted (map taskKeyOf (sort_tasks m))" by (simp add: sort_tasks_def)
  have "mset (map taskKeyOf (sort_tasks m)) = mset (map fst m)"
    by (simp add: sort_tasks_def k [symmetric] image_mset.compositionality)
  then show "distinct (map taskKeyOf (sort_tasks m))"
    using assms by (metis keyed_def mset_eq_imp_distinct_iff)
  show "t \<in> set (sort_tasks m) \<longleftrightarrow> map_of m (taskKeyOf t) = Some t"
  proof
    assume "t \<in> set (sort_tasks m)"
    then obtain x where "(x, t) \<in> set m" by (auto simp: sort_tasks_def)
    then have "map_of m x = Some t" using assms by (simp add: keyed_def)
    then show "map_of m (taskKeyOf t) = Some t" using assms by (auto simp: keyed_def)
  next
    assume "map_of m (taskKeyOf t) = Some t"
    then have "(taskKeyOf t, t) \<in> set m" by (rule map_of_SomeD)
    then show "t \<in> set (sort_tasks m)" by (force simp: sort_tasks_def)
  qed
qed

text \<open>Two enumerations of the values of one map sort to the same list.\<close>

lemma sort_any_order:
  assumes "mset ts = mset us" "distinct (map taskKeyOf ts)"
  shows "sort_key taskKeyOf ts = sort_key taskKeyOf us"
proof (rule map_sorted_distinct_set_unique)
  have "distinct (map taskKeyOf us)" using assms by (metis mset_eq_imp_distinct_iff mset_map)
  then show "distinct (map taskKeyOf (sort_key taskKeyOf us))" "distinct (map taskKeyOf (sort_key taskKeyOf ts))"
    using assms(2) by (metis mset_eq_imp_distinct_iff mset_map mset_sort)+
  show "inj_on taskKeyOf (set (sort_key taskKeyOf ts) \<union> set (sort_key taskKeyOf us))"
    using assms by (metis Un_absorb distinct_map mset_eq_setD set_sort)
  show "set (sort_key taskKeyOf ts) = set (sort_key taskKeyOf us)" using assms(1) mset_eq_setD by simp
qed simp_all

lemma keyed_update_tasks:
  "keyed (foldl (\<lambda>m k. AList.delete (taskKeyStr k) m) (put_tasks (put_tasks [] ts) (tu_AddOrUpdate req)) (tu_Remove req)) \<and>
   map_of (foldl (\<lambda>m k. AList.delete (taskKeyStr k) m) (put_tasks (put_tasks [] ts) (tu_AddOrUpdate req)) (tu_Remove req)) =
     (last_task ts ++ last_task (tu_AddOrUpdate req)) |` (- (taskKeyStr ` set (tu_Remove req)))"
proof -
  have e: "keyed []" by (simp add: keyed_def)
  note a = keyed_put [OF e, of ts]
  note b = keyed_put [OF conjunct1 [OF a], of "tu_AddOrUpdate req"]
  show ?thesis using keyed_deletes [OF conjunct1 [OF b], of taskKeyStr "tu_Remove req"] a b by simp
qed

section \<open>The registry as a map\<close>

datatype reg_op = RRegister TaskRegister clock | RUpdate TaskUpdate clock | RDeregister TaskDeregister clock

fun reg_exec :: "workerDoc json \<Rightarrow> RegStore \<Rightarrow> reg_op \<Rightarrow> RegStore" where
  "reg_exec J s (RRegister req clk) = snd (Register J s req clk)"
| "reg_exec J s (RUpdate req clk) = reg_Update J s req clk"
| "reg_exec J s (RDeregister req clk) = Deregister J s req clk"

text \<open>The records, and the ids the listing goes through.\<close>

type_synonym reg_abs = "(string \<Rightarrow> workerDoc option) \<times> string set"

fun reg_spec :: "reg_abs \<Rightarrow> reg_op \<Rightarrow> reg_abs" where
  "reg_spec (m, W) (RRegister req clk) =
     (let w = TrimSpace (tr_WorkerId req) in
      if w = [] then (m, W) else (m(w \<mapsto> register_doc req (unixMilli (clk 0))), insert w W))"
| "reg_spec (m, W) (RUpdate req clk) =
     (let w = TrimSpace (tu_WorkerId req) in
      if w = [] then (m, W)
      else (m(w := map_option (update_doc req (unixMilli (clk 1))) (m w)), insert w W))"
| "reg_spec (m, W) (RDeregister req clk) =
     (let w = TrimSpace (tx_WorkerId req) in
      if w = [] then (m, W)
      else if tx_Tasks req = [] then (m(w := None), W - {w})
      else (m(w := map_option (drop_tasks req (unixMilli (clk 1))) (m w)), W))"

definition reg_rel :: "workerDoc json \<Rightarrow> RegStore \<Rightarrow> reg_abs \<Rightarrow> bool" where
  "reg_rel J s a \<longleftrightarrow> kv_plain (rg_kv s) \<and> rg_workers s = snd a \<and>
     (\<forall>w. kv_map (rg_kv s) (reg_key w) =
        map_option (\<lambda>d. \<lparr>ent_val = js_Marshal J d, ent_expireAt = 0\<rparr>) (fst a w)) \<and>
     (\<forall>w d. fst a w = Some d \<longrightarrow> js_keeps J d)"

definition kept_docs :: "workerDoc json \<Rightarrow> reg_abs \<Rightarrow> bool" where
  "kept_docs J a \<longleftrightarrow> (\<forall>d\<in>ran (fst a). js_keeps J d)"

lemma kept_docsD: "kept_docs J a \<Longrightarrow> fst a w = Some d \<Longrightarrow> js_keeps J d"
  by (auto simp: kept_docs_def ran_def)

lemma reg_step:
  assumes "reg_rel J s a" "kept_docs J (reg_spec a x)"
  shows "reg_rel J (reg_exec J s x) (reg_spec a x)"
proof -
  obtain m W where a: "a = (m, W)" by (cases a)
  have p: "kv_plain (rg_kv s)" and W: "rg_workers s = W"
    and doc: "\<And>w. kv_map (rg_kv s) (reg_key w) = map_option (\<lambda>d. \<lparr>ent_val = js_Marshal J d, ent_expireAt = 0\<rparr>) (m w)"
    and J: "\<And>w d. m w = Some d \<Longrightarrow> js_Unmarshal J (js_Marshal J d) = (d, True)"
    using assms(1) by (auto simp: reg_rel_def a js_keeps_def)
  note K = kept_docsD [OF assms(2)]
  have key: "reg_key w = reg_key w' \<longleftrightarrow> w = w'" for w w' by (simp add: reg_key_def)
  note facts = p W doc key memkv.set_inv [OF p] memkv.upd_inv [OF p] memkv.del_inv [OF p]
    memkv.set_ents [OF p] memkv.upd_ents [OF p] memkv.del_ents [OF p]
  show ?thesis
  proof (cases x)
    case (RRegister req clk)
    then show ?thesis
      using K assms(1) by (auto simp: reg_rel_def a Register_def Let_def facts fun_upd_def)
  next
    case (RUpdate req clk)
    let ?w = "TrimSpace (tu_WorkerId req)"
    have "live (kv_map (rg_kv s)) (reg_key ?w) (clk 0) = kv_map (rg_kv s) (reg_key ?w)"
      by (auto simp: live_def expired_def doc split: option.split)
    then show ?thesis
      using RUpdate K assms(1) J
      by (auto simp: reg_rel_def a reg_Update_def Let_def facts fun_upd_def edit_def option.map_comp o_def
          intro!: map_option_cong)
  next
    case (RDeregister req clk)
    let ?w = "TrimSpace (tx_WorkerId req)"
    have "live (kv_map (rg_kv s)) (reg_key ?w) (clk 0) = kv_map (rg_kv s) (reg_key ?w)"
      by (auto simp: live_def expired_def doc split: option.split)
    then show ?thesis
      using RDeregister K assms(1) J
      by (auto simp: reg_rel_def a Deregister_def Let_def facts fun_upd_def option.map_comp o_def
          intro!: map_option_cong)
  qed
qed

fun reg_run :: "workerDoc json \<Rightarrow> RegStore \<Rightarrow> reg_op list \<Rightarrow> RegStore" where
  "reg_run J s [] = s"
| "reg_run J s (x # xs) = reg_run J (reg_exec J s x) xs"

fun reg_spec_run :: "reg_abs \<Rightarrow> reg_op list \<Rightarrow> reg_abs" where
  "reg_spec_run a [] = a"
| "reg_spec_run a (x # xs) = reg_spec_run (reg_spec a x) xs"

text \<open>The codec keeps every record the map goes through.\<close>

fun all_kept :: "workerDoc json \<Rightarrow> reg_abs \<Rightarrow> reg_op list \<Rightarrow> bool" where
  "all_kept J a [] = True"
| "all_kept J a (x # xs) = (kept_docs J (reg_spec a x) \<and> all_kept J (reg_spec a x) xs)"

lemma reg_run_rel: "reg_rel J s a \<Longrightarrow> all_kept J a xs \<Longrightarrow> reg_rel J (reg_run J s xs) (reg_spec_run a xs)"
  by (induction J s xs arbitrary: a rule: reg_run.induct) (simp_all add: reg_step)

definition node_reg :: RegStore where "node_reg = reg_NewStore (New node_opts)"

lemma reg_rel_New: "reg_rel J node_reg (Map.empty, {})"
  by (simp add: reg_rel_def node_reg_def reg_NewStore_def plain_New node_opts_def kv_map_New)

section \<open>The listing\<close>

text \<open>The loop over the map instead of the store.\<close>

fun list_spec :: "(string \<Rightarrow> workerDoc option) \<Rightarrow> TaskListWorkers \<Rightarrow> string list \<Rightarrow> nat \<Rightarrow> WorkerRecord list \<Rightarrow>
  WorkerRecord list \<times> nat" where
  "list_spec m req [] matched out = (out, matched)"
| "list_spec m req (i # ids) matched out =
     (if int matched < page_start req then list_spec m req ids (Suc matched) out
      else case m i of
          None \<Rightarrow> list_spec m req ids matched out
        | Some doc \<Rightarrow>
            if \<not> selected req doc then list_spec m req ids matched out
            else
              let out = out @ [worker_record (tl_IncludeTasks req) doc] in
              if length out \<ge> page_size req then (out, Suc matched) else list_spec m req ids (Suc matched) out)"

lemma reg_Get:
  assumes "reg_rel J s a"
  shows "fst (Get (rg_kv s) (reg_key w) now now2) = map_option (js_Marshal J) (fst a w)"
    and "reg_rel J (s\<lparr>rg_kv := snd (Get (rg_kv s) (reg_key w) now now2)\<rparr>) a"
proof -
  have p: "kv_plain (rg_kv s)"
    and doc: "kv_map (rg_kv s) (reg_key v) = map_option (\<lambda>d. \<lparr>ent_val = js_Marshal J d, ent_expireAt = 0\<rparr>) (fst a v)" for v
    using assms by (simp_all add: reg_rel_def)
  have l: "live (kv_map (rg_kv s)) (reg_key w) now = kv_map (rg_kv s) (reg_key w)"
    by (auto simp: live_def expired_def doc split: option.split)
  show "fst (Get (rg_kv s) (reg_key w) now now2) = map_option (js_Marshal J) (fst a w)"
    by (simp add: memkv.get_val [OF p] l doc option.map_comp o_def)
  have "kv_map (snd (Get (rg_kv s) (reg_key w) now now2)) = kv_map (rg_kv s)"
    by (simp add: memkv.get_ents [OF p] l)
  then show "reg_rel J (s\<lparr>rg_kv := snd (Get (rg_kv s) (reg_key w) now now2)\<rparr>) a"
    using assms by (simp add: reg_rel_def memkv.get_inv [OF p])
qed

lemma list_loop_spec:
  assumes "reg_rel J s a"
  shows "\<exists>kv. list_loop J req (rg_kv s) ids matched out clk =
      (fst (list_spec (fst a) req ids matched out), snd (list_spec (fst a) req ids matched out), kv) \<and>
    reg_rel J (s\<lparr>rg_kv := kv\<rparr>) a"
  using assms
proof (induction ids arbitrary: s matched out clk)
  case Nil
  then show ?case by (auto intro: exI [of _ "rg_kv s"])
next
  case (Cons i ids)
  obtain kv where G: "Get (rg_kv s) (reg_key i) (clk 0) (clk 1) = (map_option (js_Marshal J) (fst a i), kv)"
    using reg_Get(1) [OF Cons.prems, of i "clk 0" "clk 1"] by (metis prod.collapse)
  have r: "reg_rel J (s\<lparr>rg_kv := kv\<rparr>) a" using reg_Get(2) [OF Cons.prems, of i "clk 0" "clk 1"] unfolding G snd_conv .
  note IH = Cons.IH [OF r, simplified]
  show ?case
  proof (cases "int matched < page_start req")
    case True
    then show ?thesis using Cons.IH [OF Cons.prems] by simp
  next
    case early: False
    show ?thesis
    proof (cases "fst a i")
      case None
      then show ?thesis using early IH by (simp add: G [simplified])
    next
      case (Some d)
      then have "js_Unmarshal J (js_Marshal J d) = (d, True)"
        using Cons.prems by (auto simp: reg_rel_def js_keeps_def)
      then show ?thesis using early IH Some r by (auto simp: G [simplified] Let_def)
    qed
  qed
qed

lemma ListWorkers_spec:
  assumes "reg_rel J s (m, W)"
  shows "fst (ListWorkers J s req clk) =
      (case list_spec m req (sorted_list_of_set W) 0 [] of (out, matched) \<Rightarrow>
         \<lparr>lr_Workers = out,
          lr_NextPageToken = (if matched < length (sorted_list_of_set W) then Itoa (int matched) else [])\<rparr>) \<and>
    reg_rel J (snd (ListWorkers J s req clk)) (m, W)"
  using list_loop_spec [OF assms, of req "sorted_list_of_set W" 0 "[]" clk] assms
  by (auto simp: ListWorkers_def reg_rel_def Let_def split: prod.split)

lemma list_spec_skip:
  "int (matched + length xs) \<le> page_start req \<Longrightarrow>
   list_spec m req (xs @ ids) matched out = list_spec m req ids (matched + length xs) out"
  by (induction xs arbitrary: matched) simp_all

text \<open>The workers a listing may show: those with a record that the request selects.\<close>

definition picked :: "(string \<Rightarrow> workerDoc option) \<Rightarrow> TaskListWorkers \<Rightarrow> string \<Rightarrow> bool" where
  "picked m req i = (case m i of None \<Rightarrow> False | Some d \<Rightarrow> selected req d)"

lemma list_spec_picked:
  assumes "page_start req \<le> int matched" "length out < page_size req"
  shows "list_spec m req ids matched out =
    (out @ map (worker_record (tl_IncludeTasks req) \<circ> the \<circ> m) (take (page_size req - length out) (filter (picked m req) ids)),
     matched + min (page_size req - length out) (length (filter (picked m req) ids)))"
  using assms
proof (induction ids arbitrary: matched out)
  case (Cons i ids)
  show ?case
  proof (cases "picked m req i")
    case False
    then show ?thesis using Cons.IH [OF Cons.prems] Cons.prems(1)
      by (auto simp: picked_def split: option.splits)
  next
    case True
    then obtain d where d: "m i = Some d" "selected req d" by (auto simp: picked_def split: option.splits)
    let ?out = "out @ [worker_record (tl_IncludeTasks req) d]"
    obtain k where k: "page_size req - length out = Suc k" using Cons.prems(2) by (metis Suc_diff_Suc)
    show ?thesis
    proof (cases "page_size req \<le> length ?out")
      case full: True
      then have "k = 0" using k by simp
      then show ?thesis using d k True full Cons.prems(1) by (simp add: Let_def)
    next
      case room: False
      have "page_size req - length ?out = k" using k by simp
      then show ?thesis using d k True room Cons.prems(1) Cons.IH [of "Suc matched" ?out] by (simp add: Let_def)
    qed
  qed
qed simp

section \<open>Following page tokens\<close>

text \<open>A client that asks for page after page until it gets no token; \<open>None\<close> when \<open>fuel\<close> runs out.\<close>

fun follow_pages ::
  "workerDoc json \<Rightarrow> RegStore \<Rightarrow> TaskListWorkers \<Rightarrow> clock \<Rightarrow> nat \<Rightarrow> WorkerRecord list list option" where
  "follow_pages J s req clk 0 = None"
| "follow_pages J s req clk (Suc fuel) =
     (case ListWorkers J s req clk of
        (rep, s) \<Rightarrow>
          if lr_NextPageToken rep = [] then Some [lr_Workers rep]
          else map_option (Cons (lr_Workers rep))
                 (follow_pages J s (req\<lparr>tl_PageToken := lr_NextPageToken rep\<rparr>) clk fuel))"

lemma digit_char_printable: "d < 10 \<Longrightarrow> printable (digit_char d)"
  by (simp add: printable_def nat_of_digit_char)

lemma Itoa_token: "Itoa (int k) \<noteq> [] \<and> TrimSpace (Itoa (int k)) = Itoa (int k)"
proof -
  have n: "nat_str k \<noteq> []" by (rule nat_str_not_Nil)
  then have "printable (hd (nat_str k))" "printable (last (nat_str k))"
    using nat_str_digits [of "hd (nat_str k)" k] nat_str_digits [of "last (nat_str k)" k] digit_char_printable by auto
  then show ?thesis using n by (simp add: Itoa_def FormatInt_def TrimSpace_printable)
qed

lemma page_start_Itoa:
  assumes "k < 2 ^ 63"
  shows "page_start (req\<lparr>tl_PageToken := Itoa (int k)\<rparr>) = int k"
proof -
  have "Atoi (Itoa (int k)) = Inr (int k)" using assms by (intro Atoi_Itoa) simp_all
  then show ?thesis using Itoa_token [of k] by (simp add: page_start_def)
qed

lemma req_token [simp]:
  "selected (req\<lparr>tl_PageToken := t\<rparr>) = selected req" "page_size (req\<lparr>tl_PageToken := t\<rparr>) = page_size req"
  "tl_IncludeTasks (req\<lparr>tl_PageToken := t\<rparr>) = tl_IncludeTasks req"
  by (simp_all add: fun_eq_iff selected_def page_size_def)

lemma page_size_pos: "0 < page_size req"
  by (simp add: page_size_def Let_def)

text \<open>One page that starts after the first \<open>k\<close> ids.\<close>

abbreviation page_ids :: "(string \<Rightarrow> workerDoc option) \<Rightarrow> TaskListWorkers \<Rightarrow> string set \<Rightarrow> nat \<Rightarrow> string list" where
  "page_ids m req W k \<equiv> filter (picked m req) (drop k (sorted_list_of_set W))"

definition next_start :: "(string \<Rightarrow> workerDoc option) \<Rightarrow> TaskListWorkers \<Rightarrow> string set \<Rightarrow> nat \<Rightarrow> nat" where
  "next_start m req W k = k + min (page_size req) (length (page_ids m req W k))"

lemma page_of:
  assumes "reg_rel J s (m, W)" "page_start req = int k" "k \<le> card W"
  shows "fst (ListWorkers J s req clk) =
    \<lparr>lr_Workers = map (worker_record (tl_IncludeTasks req) \<circ> the \<circ> m) (take (page_size req) (page_ids m req W k)),
     lr_NextPageToken = (if next_start m req W k < card W then Itoa (int (next_start m req W k)) else [])\<rparr>"
proof -
  let ?ids = "sorted_list_of_set W"
  have len: "length ?ids = card W" by simp
  have k: "length (take k ?ids) = k" using assms(3) by (simp add: len)
  have "list_spec m req (take k ?ids @ drop k ?ids) 0 [] = list_spec m req (drop k ?ids) (0 + length (take k ?ids)) []"
    by (rule list_spec_skip) (simp add: assms(2) k)
  then have "list_spec m req ?ids 0 [] =
      (map (worker_record (tl_IncludeTasks req) \<circ> the \<circ> m) (take (page_size req) (page_ids m req W k)),
       next_start m req W k)"
    using list_spec_picked [of req k "[]" m "drop k ?ids"] assms(2,3) page_size_pos [of req] len
    by (simp add: next_start_def min_absorb2)
  then show ?thesis using ListWorkers_spec [OF assms(1), of req clk] len by simp
qed

lemma page_ids_length: "length (page_ids m req W k) \<le> card W - k"
  using length_filter_le [of "picked m req" "drop k (sorted_list_of_set W)"] by simp

text \<open>The last page holds all that is left; any other leaves no worker it passes over out.\<close>

lemma page_last: "k \<le> card W \<Longrightarrow> \<not> next_start m req W k < card W \<Longrightarrow>
   take (page_size req) (page_ids m req W k) = page_ids m req W k"
  using page_ids_length [of m req k W] by (simp add: next_start_def)

lemma take_filter_covers:
  assumes "n \<le> ps"
  shows "set (take ps (filter P xs)) \<union> set (filter P (drop n xs)) = set (filter P xs)"
proof -
  have "length (filter P (take n xs)) \<le> ps" using length_filter_le [of P "take n xs"] assms by simp
  then have "set (take ps (filter P (take n xs) @ filter P (drop n xs))) \<union> set (filter P (drop n xs)) =
      set (filter P (take n xs) @ filter P (drop n xs))"
    using set_take_subset [of "ps - length (filter P (take n xs))" "filter P (drop n xs)"] by (auto simp del: set_filter)
  then show ?thesis by (simp only: filter_append [symmetric] append_take_drop_id)
qed

lemma page_covers:
  "set (take (page_size req) (page_ids m req W k)) \<union> set (page_ids m req W (next_start m req W k)) = set (page_ids m req W k)"
  using take_filter_covers [of "min (page_size req) (length (page_ids m req W k))" "page_size req" "picked m req"
      "drop k (sorted_list_of_set W)"]
  by (simp only: next_start_def drop_drop add.commute min.cobounded1)

text \<open>Whether a page makes progress, and whether it is the last, depends on the greatest id.\<close>

lemma last_id: "finite W \<Longrightarrow> W \<noteq> {} \<Longrightarrow> last (sorted_list_of_set W) = Max W"
proof -
  assume W: "finite W" "W \<noteq> {}"
  let ?ids = "sorted_list_of_set W"
  obtain xs l where ids: "?ids = xs @ [l]" using W by (cases ?ids rule: rev_cases) simp_all
  have "sorted (xs @ [l])" "set (xs @ [l]) = W" using W(1) by (simp_all flip: ids)
  then show ?thesis using W(1) by (auto simp: ids sorted_append intro!: Max_eqI [symmetric])
qed

lemma next_start_last:
  assumes "finite W" "k < card W"
  shows "picked m req (Max W) \<Longrightarrow> k < next_start m req W k"
    and "\<not> picked m req (Max W) \<Longrightarrow> next_start m req W k < card W"
proof -
  let ?L = "drop k (sorted_list_of_set W)"
  have W: "W \<noteq> {}" "?L \<noteq> []" using assms by auto
  then have "last ?L = Max W" using last_id assms(1) by simp
  then have L: "?L = butlast ?L @ [Max W]" using W(2) append_butlast_last_id by metis
  have "Max W \<in> set ?L" by (subst L) simp
  then show "k < next_start m req W k" if "picked m req (Max W)"
    using that page_size_pos [of req] by (auto simp: next_start_def filter_empty_conv)
  assume no: "\<not> picked m req (Max W)"
  have "page_ids m req W k = filter (picked m req) (butlast ?L)" by (subst L) (simp add: no)
  then have "length (page_ids m req W k) \<le> length (butlast ?L)" by (simp only: length_filter_le)
  then show "next_start m req W k < card W" using assms(2) by (simp add: next_start_def)
qed

text \<open>One turn of following the tokens.\<close>

lemma follow_Suc:
  assumes "reg_rel J s (m, W)" "page_start req = int k" "k \<le> card W" "card W < 2 ^ 62"
  defines "k' \<equiv> next_start m req W k"
  obtains s' req' where "reg_rel J s' (m, W)" "page_start req' = int k'" "selected req' = selected req"
    "page_size req' = page_size req" "tl_IncludeTasks req' = tl_IncludeTasks req"
    "follow_pages J s req clk (Suc fuel) =
      (let page = map (worker_record (tl_IncludeTasks req) \<circ> the \<circ> m) (take (page_size req) (page_ids m req W k))
       in if k' < card W then map_option (Cons page) (follow_pages J s' req' clk fuel) else Some [page])"
proof -
  note P = page_of [OF assms(1-3), of clk]
  let ?s = "snd (ListWorkers J s req clk)" and ?req = "req\<lparr>tl_PageToken := Itoa (int k')\<rparr>"
  have "k' \<le> card W" using page_ids_length [of m req k W] assms(3) by (simp add: k'_def next_start_def)
  then have "page_start ?req = int k'" using assms(4) by (intro page_start_Itoa) simp
  then show ?thesis
    using that [of ?s ?req] ListWorkers_spec [OF assms(1), of req clk] P Itoa_token [of k']
    by (cases "ListWorkers J s req clk") (simp add: k'_def Let_def)
qed

lemma picked_cong: "selected r = selected req \<Longrightarrow> picked m r = picked m req"
  by (simp add: picked_def fun_eq_iff split: option.split)

text \<open>What the pages hold together.\<close>

lemma follow_covers:
  assumes "reg_rel J s (m, W)" "card W < 2 ^ 62" "page_start req = int k" "k \<le> card W"
    and "follow_pages J s req clk fuel = Some pages"
  shows "set (concat pages) = (worker_record (tl_IncludeTasks req) \<circ> the \<circ> m) ` set (page_ids m req W k) \<and>
    (\<forall>p\<in>set pages. length p \<le> page_size req)"
  using assms
proof (induction fuel arbitrary: s req k pages)
  case (Suc fuel)
  let ?rec = "worker_record (tl_IncludeTasks req) \<circ> the \<circ> m" and ?k = "next_start m req W k"
  let ?page = "map ?rec (take (page_size req) (page_ids m req W k))"
  obtain s' req' where r: "reg_rel J s' (m, W)" "page_start req' = int ?k" "selected req' = selected req"
      "page_size req' = page_size req" "tl_IncludeTasks req' = tl_IncludeTasks req"
    and f: "follow_pages J s req clk (Suc fuel) =
      (let page = ?page in if ?k < card W then map_option (Cons page) (follow_pages J s' req' clk fuel) else Some [page])"
    using follow_Suc [OF Suc.prems(1,3,4,2)] .
  show ?case
  proof (cases "?k < card W")
    case True
    then obtain ps where ps: "follow_pages J s' req' clk fuel = Some ps" "pages = ?page # ps"
      using f Suc.prems(5) by (auto simp: Let_def)
    have "set (concat ps) = ?rec ` set (page_ids m req W ?k) \<and> (\<forall>p\<in>set ps. length p \<le> page_size req)"
      using Suc.IH [OF r(1) Suc.prems(2) r(2) _ ps(1)] True r(3-5) picked_cong [OF r(3), of m] by simp
    then show ?thesis using page_covers [of req m k W, symmetric] ps(2) by (simp add: image_Un)
  next
    case False
    then have "pages = [?page]" using f Suc.prems(5) by (simp add: Let_def)
    then show ?thesis using page_last [OF Suc.prems(4) False] by simp
  qed
qed simp

lemma follow_ends:
  assumes "reg_rel J s (m, W)" "finite W" "picked m req (Max W)"
    and "card W < 2 ^ 62" "page_start req = int k" "k \<le> card W" "card W - k < fuel"
  shows "follow_pages J s req clk fuel \<noteq> None"
  using assms
proof (induction fuel arbitrary: s req k)
  case (Suc fuel)
  let ?k = "next_start m req W k"
  obtain s' req' where r: "reg_rel J s' (m, W)" "page_start req' = int ?k" "selected req' = selected req"
    and f: "follow_pages J s req clk (Suc fuel) =
      (let page = map (worker_record (tl_IncludeTasks req) \<circ> the \<circ> m) (take (page_size req) (page_ids m req W k))
       in if ?k < card W then map_option (Cons page) (follow_pages J s' req' clk fuel) else Some [page])"
    using follow_Suc [OF Suc.prems(1,5,6,4)] .
  have "follow_pages J s' req' clk fuel \<noteq> None" if "?k < card W"
  proof (rule Suc.IH [OF r(1) Suc.prems(2) _ Suc.prems(4) r(2)])
    show "picked m req' (Max W)" using Suc.prems(3) picked_cong [OF r(3), of m] by simp
    have "k < card W" using that by (simp add: next_start_def)
    then show "card W - ?k < fuel" using next_start_last(1) [OF Suc.prems(2) _ Suc.prems(3)] Suc.prems(7) that
      by fastforce
  qed (use that in simp)
  then show ?case using f by (simp add: Let_def)
qed simp

lemma follow_never:
  assumes "reg_rel J s (m, W)" "finite W" "\<not> picked m req (Max W)"
    and "card W < 2 ^ 62" "page_start req = int k" "k < card W"
  shows "follow_pages J s req clk fuel = None"
  using assms
proof (induction fuel arbitrary: s req k)
  case (Suc fuel)
  let ?k = "next_start m req W k"
  obtain s' req' where r: "reg_rel J s' (m, W)" "page_start req' = int ?k" "selected req' = selected req"
    and f: "follow_pages J s req clk (Suc fuel) =
      (let page = map (worker_record (tl_IncludeTasks req) \<circ> the \<circ> m) (take (page_size req) (page_ids m req W k))
       in if ?k < card W then map_option (Cons page) (follow_pages J s' req' clk fuel) else Some [page])"
    using follow_Suc [OF Suc.prems(1,5) less_imp_le [OF Suc.prems(6)] Suc.prems(4)] .
  have less: "?k < card W" using next_start_last(2) [OF Suc.prems(2,6,3)] .
  have "\<not> picked m req' (Max W)" using Suc.prems(3) picked_cong [OF r(3), of m] by simp
  from Suc.IH [OF r(1) Suc.prems(2) this Suc.prems(4) r(2) less] show ?case using f less by (simp add: Let_def)
qed simp

text \<open>When every worker is picked no page repeats what another has shown.\<close>

lemma follow_exact:
  assumes "reg_rel J s (m, W)" "finite W" "\<forall>i\<in>W. picked m req i"
    and "card W < 2 ^ 62" "page_start req = int k" "k \<le> card W"
    and "follow_pages J s req clk fuel = Some pages"
  shows "concat pages = map (worker_record (tl_IncludeTasks req) \<circ> the \<circ> m) (drop k (sorted_list_of_set W))"
  using assms
proof (induction fuel arbitrary: s req k pages)
  case (Suc fuel)
  let ?rec = "worker_record (tl_IncludeTasks req) \<circ> the \<circ> m" and ?k = "next_start m req W k"
  let ?ids = "drop k (sorted_list_of_set W)"
  have "set ?ids \<subseteq> W" using set_drop_subset [of k "sorted_list_of_set W"] Suc.prems(2) by simp
  then have all: "page_ids m req W k = ?ids" using Suc.prems(3) by (intro filter_True) blast
  have k: "?k = k + min (page_size req) (length ?ids)" by (simp only: next_start_def all)
  obtain s' req' where r: "reg_rel J s' (m, W)" "page_start req' = int ?k" "selected req' = selected req"
      "page_size req' = page_size req" "tl_IncludeTasks req' = tl_IncludeTasks req"
    and f: "follow_pages J s req clk (Suc fuel) =
      (let page = map ?rec (take (page_size req) (page_ids m req W k))
       in if ?k < card W then map_option (Cons page) (follow_pages J s' req' clk fuel) else Some [page])"
    using follow_Suc [OF Suc.prems(1,5,6,4)] .
  show ?case
  proof (cases "?k < card W")
    case True
    then obtain ps where ps: "follow_pages J s' req' clk fuel = Some ps" "pages = map ?rec (take (page_size req) ?ids) # ps"
      using f Suc.prems(7) by (auto simp: Let_def all)
    have "\<forall>i\<in>W. picked m req' i" using Suc.prems(3) picked_cong [OF r(3), of m] by simp
    from Suc.IH [OF r(1) Suc.prems(2) this Suc.prems(4) r(2) less_imp_le [OF True] ps(1)]
    have "concat ps = map ?rec (drop ?k (sorted_list_of_set W))" by (simp add: r(5))
    moreover have "drop ?k (sorted_list_of_set W) = drop (page_size req) ?ids"
      using True k by (auto simp: min_def add.commute split: if_splits)
    ultimately show ?thesis using ps(2) by (simp del: drop_drop flip: map_append)
  next
    case False
    then have "pages = [map ?rec (take (page_size req) ?ids)]" using f Suc.prems(7) by (simp add: Let_def all)
    then show ?thesis using page_last [OF Suc.prems(6) False] by (simp only: all) simp
  qed
qed simp

section \<open>Properties\<close>

text \<open>
  C19: after any sequence of registrations, updates and deregistrations on the store of a new
  node, the store holds under the key of every worker exactly the record that the specification
  on a map gives for the same sequence, the time of its last change included, no record where
  the map has none, and the index is the specification's; and the listing answers every request
  the way that map and index do. The JSON codec is relied upon for the records of the map.
\<close>

theorem registry_refines_map:
  assumes "all_kept J (Map.empty, {}) ops" "reg_spec_run (Map.empty, {}) ops = (m, W)"
    and "s = reg_run J node_reg ops"
  shows "kv_map (rg_kv s) (reg_key w) = map_option (\<lambda>d. \<lparr>ent_val = js_Marshal J d, ent_expireAt = 0\<rparr>) (m w) \<and>
    (m w \<noteq> None \<longrightarrow> js_Unmarshal J (js_Marshal J (the (m w))) = (the (m w), True)) \<and>
    rg_workers s = W \<and>
    fst (ListWorkers J s req clk) =
      (case list_spec m req (sorted_list_of_set W) 0 [] of (out, matched) \<Rightarrow>
         \<lparr>lr_Workers = out,
          lr_NextPageToken = (if matched < length (sorted_list_of_set W) then Itoa (int matched) else [])\<rparr>)"
proof -
  have rel: "reg_rel J s (m, W)" using reg_run_rel [OF reg_rel_New assms(1)] assms(2,3) by simp
  then show ?thesis using ListWorkers_spec [OF rel] by (auto simp: reg_rel_def js_keeps_def)
qed

text \<open>
  The tasks of a record after an update: one per key, sorted by key, each the last one given
  for its key by the record and then the update, without the keys the update removes.
\<close>

theorem update_tasks_by_key:
  "sorted (map taskKeyOf (update_tasks req ts)) \<and> distinct (map taskKeyOf (update_tasks req ts)) \<and>
   set (update_tasks req ts) =
     {t. (last_task ts ++ last_task (tu_AddOrUpdate req)) (taskKeyOf t) = Some t \<and>
         taskKeyOf t \<notin> taskKeyStr ` set (tu_Remove req)}"
proof -
  note k = keyed_update_tasks [of ts req]
  have "t \<in> set (update_tasks req ts) \<longleftrightarrow>
      (last_task ts ++ last_task (tu_AddOrUpdate req)) (taskKeyOf t) = Some t \<and>
      taskKeyOf t \<notin> taskKeyStr ` set (tu_Remove req)" for t
    unfolding update_tasks_def Let_def sort_tasks_keyed(3) [OF conjunct1 [OF k]] conjunct2 [OF k]
    by (simp add: restrict_map_def)
  then show ?thesis
    using sort_tasks_keyed(1,2) [OF conjunct1 [OF k]] by (simp add: update_tasks_def Let_def set_eq_iff)
qed

text \<open>
  C22: on a registry of fewer than \<open>2 ^ 62\<close> workers a client that lists without page token and follows
  the tokens until it gets none has been
  shown, on pages no longer than the page size, exactly the workers that have a record the request
  selects, some perhaps more than once. When every indexed worker has a record and is selected it
  does get there, and is shown each worker exactly once, in the order of the ids.
\<close>

theorem pages_complete:
  assumes "reg_rel J s (m, W)" "finite W" "card W < 2 ^ 62" "tl_PageToken req = []"
  shows "(follow_pages J s req clk fuel = Some pages \<longrightarrow>
      set (concat pages) = (worker_record (tl_IncludeTasks req) \<circ> the \<circ> m) ` {i\<in>W. picked m req i} \<and>
      (\<forall>p\<in>set pages. length p \<le> page_size req)) \<and>
    ((\<forall>i\<in>W. picked m req i) \<longrightarrow>
      (\<exists>pages. follow_pages J s req clk (Suc (card W)) = Some pages \<and>
        concat pages = map (worker_record (tl_IncludeTasks req) \<circ> the \<circ> m) (sorted_list_of_set W)))"
proof (intro conjI impI)
  have start: "page_start req = int 0" using assms(4) TrimSpace_Nil by (simp add: page_start_def)
  assume "follow_pages J s req clk fuel = Some pages"
  from follow_covers [OF assms(1,3) start _ this]
  show "set (concat pages) = (worker_record (tl_IncludeTasks req) \<circ> the \<circ> m) ` {i\<in>W. picked m req i}"
    "\<forall>p\<in>set pages. length p \<le> page_size req" using assms(2) by simp_all
next
  have start: "page_start req = int 0" using assms(4) TrimSpace_Nil by (simp add: page_start_def)
  assume all: "\<forall>i\<in>W. picked m req i"
  have "follow_pages J s req clk (Suc (card W)) \<noteq> None"
  proof (cases "W = {}")
    case True
    then show ?thesis using page_of [OF assms(1) start, of clk] by (cases "ListWorkers J s req clk") (simp add: next_start_def)
  next
    case False
    then show ?thesis using assms all by (intro follow_ends [OF assms(1,2) _ assms(3) start]) simp_all
  qed
  then obtain pages where "follow_pages J s req clk (Suc (card W)) = Some pages" by blast
  with follow_exact [OF assms(1,2) all assms(3) start _ this]
  show "\<exists>pages. follow_pages J s req clk (Suc (card W)) = Some pages \<and>
      concat pages = map (worker_record (tl_IncludeTasks req) \<circ> the \<circ> m) (sorted_list_of_set W)" by simp
qed

text \<open>
  C23: on such a registry following the tokens from a request without one ends exactly when the index is empty or its greatest id belongs to a
  worker that has a record the request selects; then as many requests as there are ids, and one,
  are enough. So one filter that drops the last worker, or one update for a worker without a
  registration whose id is the last, and every page carries a token for ever.
\<close>

theorem filtered_listing_never_ends:
  assumes "reg_rel J s (m, W)" "finite W" "card W < 2 ^ 62" "tl_PageToken req = []"
  shows "(\<exists>fuel. follow_pages J s req clk fuel \<noteq> None) = (W = {} \<or> picked m req (Max W)) \<and>
    (W = {} \<or> picked m req (Max W) \<longrightarrow> follow_pages J s req clk (Suc (card W)) \<noteq> None)"
proof -
  have start: "page_start req = int 0" using assms(4) TrimSpace_Nil by (simp add: page_start_def)
  consider "W = {}" | "W \<noteq> {}" "picked m req (Max W)" | "W \<noteq> {}" "\<not> picked m req (Max W)" by blast
  then show ?thesis
  proof cases
    case 1
    then have "follow_pages J s req clk (Suc (card W)) \<noteq> None"
      using page_of [OF assms(1) start, of clk] by (cases "ListWorkers J s req clk") (simp add: next_start_def)
    then show ?thesis using 1 by blast
  next
    case 2
    from follow_ends [OF assms(1,2) 2(2) assms(3) start, of "Suc (card W)" clk]
    have "follow_pages J s req clk (Suc (card W)) \<noteq> None" by simp
    then show ?thesis using 2 by blast
  next
    case 3
    then have "0 < card W" using assms(2) by (simp add: card_gt_0_iff)
    from follow_never [OF assms(1,2) 3(2) assms(3) start this, of clk] show ?thesis using 3 by simp
  qed
qed

section \<open>The properties at work\<close>

definition task_of :: "string \<Rightarrow> string \<Rightarrow> TaskDescriptor" where
  "task_of name version = \<lparr>td_Name = name, td_Version = version, td_StableId = [], td_HashAlg = [], td_Hash = [],
     td_StreamInput = False, td_StreamOutput = False, td_PriorityDefault = 0, td_MinReq = None,
     td_MaxConcurrency = 0, td_Contract = None, td_Auth = None, td_Meta = []\<rparr>"

definition registration :: "string \<Rightarrow> TaskRegister" where
  "registration w = \<lparr>tr_WorkerId = w, tr_Self = None, tr_Tasks = [task_of ''t'' ''1''], tr_Endpoints = [],
     tr_Features = None, tr_Labels = []\<rparr>"

definition any_worker :: TaskListWorkers where
  "any_worker = \<lparr>tl_LabelFilter = [], tl_FunctionName = [], tl_Version = [], tl_IncludeTasks = False,
     tl_PageSize = 1, tl_PageToken = []\<rparr>"

definition two_docs :: "workerDoc json" where
  "two_docs = pair_json (register_doc (registration ''a'') 0) (register_doc (registration ''b'') 0)"

definition two_ops :: "reg_op list" where
  "two_ops = [RRegister (registration ''a'') (\<lambda>n. 0), RRegister (registration ''b'') (\<lambda>n. 0)]"

lemma trim_ab: "TrimSpace ''a'' = ''a''" "TrimSpace ''b'' = ''b''"
  by (simp_all add: TrimSpace_printable printable_def)

definition two_records :: "string \<Rightarrow> workerDoc option" where
  "two_records = [''a'' \<mapsto> register_doc (registration ''a'') 0, ''b'' \<mapsto> register_doc (registration ''b'') 0]"

lemma two_ops_spec: "reg_spec_run (Map.empty, {}) two_ops = (two_records, {''b'', ''a''})"
  by (simp add: two_ops_def registration_def trim_ab Let_def unixMilli_def two_records_def)

lemma two_ops_kept: "all_kept two_docs (Map.empty, {}) two_ops"
  by (auto simp: two_ops_def registration_def trim_ab Let_def unixMilli_def kept_docs_def ran_def two_docs_def
      pair_json_keeps split: if_splits)

lemma two_ops_rel: "reg_rel two_docs (reg_run two_docs node_reg two_ops) (two_records, {''b'', ''a''})"
  using reg_run_rel [OF reg_rel_New two_ops_kept] by (simp add: two_ops_spec)

lemma ids_ab: "sorted_list_of_set {''b'', ''a''} = [''a'', ''b'']"
  by (simp add: sorted_list_of_set_insert_remove)

lemma picked_any: "picked two_records any_worker i \<longleftrightarrow> i = ''a'' \<or> i = ''b''"
  by (simp add: picked_def two_records_def selected_def any_worker_def labelsMatch_def TrimSpace_Nil)

text \<open>The sample again with one more update, for a worker \<open>c\<close> that is not registered.\<close>

definition phantom_op :: reg_op where
  "phantom_op = RUpdate \<lparr>tu_WorkerId = ''c'', tu_AddOrUpdate = [], tu_Remove = [], tu_Endpoints = [],
     tu_LabelsSet = [], tu_LabelsDel = []\<rparr> (\<lambda>n. 0)"

theorem registry_refines_map_witness:
  "kv_map (rg_kv (reg_run two_docs node_reg two_ops)) (reg_key ''a'') =
     Some \<lparr>ent_val = js_Marshal two_docs (register_doc (registration ''a'') 0), ent_expireAt = 0\<rparr> \<and>
   rg_workers (reg_run two_docs node_reg two_ops) = {''b'', ''a''}"
  using registry_refines_map [OF two_ops_kept two_ops_spec refl, of "''a''" any_worker "\<lambda>n. 0"]
  by (simp add: two_records_def)

theorem pages_complete_witness:
  "\<exists>pages. follow_pages two_docs (reg_run two_docs node_reg two_ops) any_worker (\<lambda>n. 0) 3 = Some pages \<and>
     length (concat pages) = 2"
proof -
  have "\<exists>pages. follow_pages two_docs (reg_run two_docs node_reg two_ops) any_worker (\<lambda>n. 0) (Suc (card {''b'', ''a''})) = Some pages \<and>
    concat pages = map (worker_record (tl_IncludeTasks any_worker) \<circ> the \<circ> two_records) (sorted_list_of_set {''b'', ''a''})"
    by (rule conjunct2 [OF pages_complete [OF two_ops_rel], rule_format])
      (auto simp: picked_any, auto simp: any_worker_def)
  then show ?thesis by (auto simp: ids_ab numeral_3_eq_3 simp del: follow_pages.simps)
qed

theorem filtered_listing_never_ends_witness:
  "follow_pages two_docs (reg_run two_docs node_reg (two_ops @ [phantom_op])) any_worker (\<lambda>n. 0) 1000 = None \<and>
   follow_pages two_docs (reg_run two_docs node_reg two_ops) any_worker (\<lambda>n. 0) 3 \<noteq> None"
proof -
  have trim: "TrimSpace ''c'' = ''c''" by (simp add: TrimSpace_printable printable_def)
  have spec: "reg_spec_run (Map.empty, {}) (two_ops @ [phantom_op]) = (two_records, {''c'', ''b'', ''a''})"
    by (simp add: two_ops_def phantom_op_def registration_def trim_ab trim Let_def unixMilli_def two_records_def
        fun_upd_idem)
  have "all_kept two_docs (Map.empty, {}) (two_ops @ [phantom_op])"
    by (auto simp: two_ops_def phantom_op_def registration_def trim_ab trim Let_def unixMilli_def kept_docs_def ran_def
        two_docs_def pair_json_keeps split: if_splits)
  then have rel: "reg_rel two_docs (reg_run two_docs node_reg (two_ops @ [phantom_op])) (two_records, {''c'', ''b'', ''a''})"
    using reg_run_rel [OF reg_rel_New] spec by metis
  have max: "Max {''c'', ''b'', ''a''} = ''c''" "Max {''b'', ''a''} = ''b''" by simp_all
  have tok: "tl_PageToken any_worker = []" by (simp add: any_worker_def)
  show ?thesis
    using filtered_listing_never_ends [OF rel _ _ tok, of "\<lambda>n. 0"]
      filtered_listing_never_ends [OF two_ops_rel _ _ tok, of "\<lambda>n. 0"]
    by (simp add: max picked_any numeral_3_eq_3 del: follow_pages.simps)
qed

end
