(* ===== verification/Handshake.thy ===== *)
theory Handshake
  imports Transport
begin

text \<open>
  Peer authentication: the signed transcript (\<open>pkg/crypto/sign\<close>), the Hello message of
  \<open>pkg/handshake/hello.go\<close>, the transcript \<open>pkg/core/netstack/hello.go\<close> builds on its own, and
  the node identity of \<open>pkg/identity/identity.go\<close>. The signature scheme of \<open>crypto/ed25519\<close>
  enters through \<open>ed_Sign\<close> and \<open>ed_Verify\<close>, of which only \<open>ed_law\<close> is used: a signature made
  with a private key verifies under its public half. Keys are byte strings of any length, as
  the conversions in the code allow; what panics is \<open>None\<close>.
\<close>

section \<open>Ed25519\<close>

record ed25519 =
  ed_Sign :: "byte list \<Rightarrow> byte list \<Rightarrow> byte list"
  ed_Verify :: "byte list \<Rightarrow> byte list \<Rightarrow> byte list \<Rightarrow> bool"

definition PublicKeySize :: nat where "PublicKeySize = 32"
definition PrivateKeySize :: nat where "PrivateKeySize = 64"
definition SignatureSize :: nat where "SignatureSize = 64"

text \<open>\<open>PrivateKey.Public\<close> copies \<open>priv[32:]\<close> into a zeroed array of 32 bytes.\<close>

definition ed_Public :: "byte list \<Rightarrow> byte list option" where
  "ed_Public priv =
     (if length priv < 32 then None
      else let src = take PublicKeySize (drop 32 priv)
           in Some (put_at (replicate PublicKeySize 0) 0 src))"

definition SignEd25519 :: "ed25519 \<Rightarrow> byte list \<Rightarrow> byte list \<Rightarrow> byte list option" where
  "SignEd25519 ed priv data =
     (if length priv \<noteq> PrivateKeySize then None else Some (ed_Sign ed priv data))"

definition VerifyEd25519 :: "ed25519 \<Rightarrow> byte list \<Rightarrow> byte list \<Rightarrow> byte list \<Rightarrow> bool" where
  "VerifyEd25519 ed pub data sig = ed_Verify ed pub data sig"

definition ed_law :: "ed25519 \<Rightarrow> bool" where
  "ed_law ed \<longleftrightarrow> (\<forall>priv data pub. length priv = PrivateKeySize \<longrightarrow> ed_Public priv = Some pub \<longrightarrow>
     length (ed_Sign ed priv data) = SignatureSize \<and> ed_Verify ed pub data (ed_Sign ed priv data))"

section \<open>The transcript\<close>

definition HelloTranscript :: "string \<Rightarrow> byte list \<Rightarrow> byte list \<Rightarrow> int \<Rightarrow> string \<Rightarrow> byte list" where
  "HelloTranscript alg pub nonce tsUnixMS nodeName =
     bytes_of (''ttmesh:hello|v=1|alg='' @ ToLower (TrimSpace alg) @ ''|ts='' @ FormatInt tsUnixMS @
       ''|pub='' @ b64_encode pub @ ''|nonce='' @ b64_encode nonce @ ''|name='' @ nodeName)"

definition sendHello_transcript :: "byte list \<Rightarrow> byte list \<Rightarrow> int \<Rightarrow> string \<Rightarrow> byte list" where
  "sendHello_transcript pub nonce ts nodeName =
     bytes_of (''ttmesh:hello|v=1|alg=ed25519|ts='' @ FormatInt ts @ ''|pub='' @ b64_encode pub @
       ''|nonce='' @ b64_encode nonce @ ''|name='' @ nodeName)"

section \<open>Hello\<close>

record Hello =
  hl_Version :: uint32
  hl_NodeName :: string
  hl_Alg :: string
  hl_PubKey :: "byte list"
  hl_Nonce :: "byte list"
  hl_Timestamp :: int
  hl_Sig :: "byte list"

datatype hello_error = UnsupportedAlg string | BadPubkeyLength | BadSignatureLength
  | TimestampOutOfBounds | SignatureInvalid | RandError

text \<open>\<open>nonce\<close> is what the random source delivers (\<open>None\<close>: it failed); the outer option a panic.\<close>

definition BuildHello ::
  "ed25519 \<Rightarrow> string \<Rightarrow> byte list \<Rightarrow> byte list option \<Rightarrow> int \<Rightarrow> (hello_error + Hello \<times> PeerID) option" where
  "BuildHello ed nodeName priv nonce nowMs =
     (case ed_Public priv of
        None \<Rightarrow> None
      | Some pub \<Rightarrow>
          (case nonce of
             None \<Rightarrow> Some (Inl RandError)
           | Some nonce \<Rightarrow>
               let h = \<lparr>hl_Version = 1, hl_NodeName = nodeName, hl_Alg = ''ed25519'', hl_PubKey = pub,
                     hl_Nonce = nonce, hl_Timestamp = nowMs, hl_Sig = []\<rparr>;
                   msg = HelloTranscript (hl_Alg h) (hl_PubKey h) (hl_Nonce h) (hl_Timestamp h) (hl_NodeName h)
               in case SignEd25519 ed priv msg of
                    None \<Rightarrow> None
                  | Some sig \<Rightarrow> Some (Inr (h\<lparr>hl_Sig := sig\<rparr>, CanonicalPeerIDFromPubKey ''ed25519'' pub))))"

definition nanosPerMilli :: int where "nanosPerMilli = 1000000"

definition VerifyHello :: "ed25519 \<Rightarrow> Hello \<Rightarrow> int \<Rightarrow> int \<Rightarrow> hello_error + PeerID" where
  "VerifyHello ed h maxSkew nowMs =
     (if hl_Alg h \<noteq> ''ed25519'' then Inl (UnsupportedAlg (hl_Alg h))
      else if length (hl_PubKey h) \<noteq> PublicKeySize then Inl BadPubkeyLength
      else if length (hl_Sig h) \<noteq> SignatureSize then Inl BadSignatureLength
      else
        let maxSkew = (if maxSkew \<le> 0 then 300000 * nanosPerMilli else maxSkew);
            dt = i64 (nowMs - hl_Timestamp h)
        in if dt > go_div maxSkew nanosPerMilli \<or> dt < - go_div maxSkew nanosPerMilli
           then Inl TimestampOutOfBounds
           else if \<not> VerifyEd25519 ed (hl_PubKey h)
               (HelloTranscript (hl_Alg h) (hl_PubKey h) (hl_Nonce h) (hl_Timestamp h) (hl_NodeName h)) (hl_Sig h)
           then Inl SignatureInvalid
           else Inr (CanonicalPeerIDFromPubKey ''ed25519'' (hl_PubKey h)))"

section \<open>Node identity\<close>

record IdentityConfig =
  idc_Alg :: string
  idc_PrivateKey :: string
  idc_PrivateKeyFile :: string

text \<open>
  \<open>file\<close> is the contents of the key file (\<open>None\<close>: not readable), \<open>gen\<close> the key pair the
  generator delivers. The outer option is the panic of \<open>Public\<close>, the inner one the error.
\<close>

definition LoadOrGenEd25519 ::
  "IdentityConfig \<Rightarrow> byte list option \<Rightarrow> byte list option \<Rightarrow> (byte list \<times> PeerID) option option" where
  "LoadOrGenEd25519 c file gen =
     (let s = TrimSpace (idc_PrivateKey c);
          pk = (if s \<noteq> [] then b64_decode s else None);
          pk = (if pk = None \<and> TrimSpace (idc_PrivateKeyFile c) \<noteq> [] then
                  (case file of
                     None \<Rightarrow> None
                   | Some b \<Rightarrow>
                       (case b64_decode (TrimSpace (string_of b)) of
                          Some db \<Rightarrow> Some db
                        | None \<Rightarrow> Some b))
                else pk);
          pk = (if pk = None then gen else pk)
      in case pk of
           None \<Rightarrow> Some None
         | Some pk \<Rightarrow>
             (case ed_Public pk of
                None \<Rightarrow> None
              | Some pub \<Rightarrow> Some (Some (pk, CanonicalPeerIDFromPubKey ''ed25519'' pub))))"

section \<open>Lemmas\<close>

text \<open>A text is cut uniquely at its first separator.\<close>

lemma split_first_sep:
  "c \<notin> set x \<Longrightarrow> c \<notin> set x' \<Longrightarrow> x @ c # y = x' @ c # y' \<longleftrightarrow> x = x' \<and> y = y'"
proof (induction x arbitrary: x')
  case Nil
  then show ?case by (cases x') auto
next
  case (Cons a x)
  then show ?case by (cases x') auto
qed

lemma b64_no_bar: "CHR ''|'' \<notin> set (b64_encode bs)"
  using b64_encode_chars by blast

lemma ed25519_normal: "ToLower (TrimSpace ''ed25519'') = ''ed25519''"
proof -
  have "TrimSpace ''ed25519'' = ''ed25519''" by (rule TrimSpace_printable) (simp_all add: printable_def)
  then show ?thesis by (simp add: ToLower_def lower_char_def)
qed

lemma length_ed_Public: "ed_Public priv = Some pub \<Longrightarrow> length pub = PublicKeySize"
  by (auto simp: ed_Public_def PublicKeySize_def put_at_def Let_def split: if_splits)

lemma ed_Public_key:
  "length priv = PrivateKeySize \<Longrightarrow> ed_Public priv = Some (drop 32 priv)"
  by (simp add: ed_Public_def PrivateKeySize_def PublicKeySize_def put_at_def Let_def)

lemma VerifyHello_Inr:
  assumes "go_div (if maxSkew \<le> 0 then 300000 * nanosPerMilli else maxSkew) nanosPerMilli = skew"
  shows "VerifyHello ed h maxSkew nowMs = Inr pid \<longleftrightarrow>
    hl_Alg h = ''ed25519'' \<and> length (hl_PubKey h) = PublicKeySize \<and> length (hl_Sig h) = SignatureSize \<and>
    \<bar>i64 (nowMs - hl_Timestamp h)\<bar> \<le> skew \<and>
    ed_Verify ed (hl_PubKey h) (HelloTranscript ''ed25519'' (hl_PubKey h) (hl_Nonce h) (hl_Timestamp h) (hl_NodeName h)) (hl_Sig h) \<and>
    pid = CanonicalPeerIDFromPubKey ''ed25519'' (hl_PubKey h)"
  using assms by (auto simp: VerifyHello_def Let_def VerifyEd25519_def)

lemma default_skew: "go_div (if (0 :: int) \<le> 0 then 300000 * nanosPerMilli else 0) nanosPerMilli = 300000"
  by (simp add: go_div_nonneg nanosPerMilli_def)

section \<open>Properties\<close>

text \<open>
  The transcript determines what is signed: two Hello messages with bar-free algorithm names
  have the same transcript exactly when their normalised algorithms, public keys, nonces,
  timestamps and node names agree, so no signature can be moved to another message.
\<close>

theorem transcript_injective:
  assumes "CHR ''|'' \<notin> set (ToLower (TrimSpace a))" "CHR ''|'' \<notin> set (ToLower (TrimSpace a'))"
  shows "HelloTranscript a p n ts m = HelloTranscript a' p' n' ts' m' \<longleftrightarrow>
    ToLower (TrimSpace a) = ToLower (TrimSpace a') \<and> p = p' \<and> n = n' \<and> ts = ts' \<and> m = m'"
  using assms
  by (auto simp: HelloTranscript_def split_first_sep FormatInt_no_bar b64_no_bar FormatInt_inject b64_encode_inject)

theorem transcript_injective_witness:
  "HelloTranscript ''ed25519'' [1] [2] 3 ''a|name=b'' \<noteq> HelloTranscript ''ed25519'' [1] [2] 3 ''b''"
proof -
  have "CHR ''|'' \<notin> set (ToLower (TrimSpace ''ed25519''))" by (simp add: ed25519_normal)
  from transcript_injective [OF this this, of "[1]" "[2]" 3 "''a|name=b''" "[1]" "[2]" 3 "''b''"]
  show ?thesis by simp
qed

text \<open>
  The dialer's own copy of the transcript is the one the verifier checks.
\<close>

theorem sendHello_transcript_agrees:
  "sendHello_transcript pub nonce ts name = HelloTranscript ''ed25519'' pub nonce ts name"
  by (simp add: sendHello_transcript_def HelloTranscript_def ed25519_normal)

lemma hello_accepted:
  assumes "ed_law ed" "length priv = PrivateKeySize" "\<bar>later - sent\<bar> \<le> 300000"
  shows "\<exists>h pid. BuildHello ed name priv (Some nonce) sent = Some (Inr (h, pid)) \<and>
    VerifyHello ed h 0 later = Inr pid \<and> pid = CanonicalPeerIDFromPubKey ''ed25519'' (drop 32 priv)"
proof -
  let ?pub = "drop 32 priv"
  let ?msg = "HelloTranscript ''ed25519'' ?pub nonce sent name"
  let ?h = "\<lparr>hl_Version = 1, hl_NodeName = name, hl_Alg = ''ed25519'', hl_PubKey = ?pub,
     hl_Nonce = nonce, hl_Timestamp = sent, hl_Sig = ed_Sign ed priv ?msg\<rparr>"
  have pub: "ed_Public priv = Some ?pub" by (rule ed_Public_key [OF assms(2)])
  have law: "length (ed_Sign ed priv ?msg) = SignatureSize" "ed_Verify ed ?pub ?msg (ed_Sign ed priv ?msg)"
    using assms(1,2) pub by (auto simp: ed_law_def)
  have "i64 (later - sent) = later - sent" using assms(3) by (intro i64_id) auto
  then have "VerifyHello ed ?h 0 later = Inr (CanonicalPeerIDFromPubKey ''ed25519'' ?pub)"
    using law assms(3) length_ed_Public [OF pub] by (simp add: VerifyHello_Inr [OF default_skew])
  moreover have "BuildHello ed name priv (Some nonce) sent =
      Some (Inr (?h, CanonicalPeerIDFromPubKey ''ed25519'' ?pub))"
    using assms(2) pub by (simp add: BuildHello_def SignEd25519_def Let_def)
  ultimately show ?thesis by blast
qed

text \<open>
  An honest Hello is accepted: what \<open>BuildHello\<close> makes with a 64-byte key verifies at every
  node whose clock is within five minutes of the sender's, under the identity the sender has.
\<close>

theorem honest_hello_accepted:
  assumes "ed_law ed" "length priv = PrivateKeySize" "\<bar>later - sent\<bar> \<le> 300000"
  shows "\<exists>h pid. BuildHello ed name priv (Some nonce) sent = Some (Inr (h, pid)) \<and>
    VerifyHello ed h 0 later = Inr pid \<and> pid = CanonicalPeerIDFromPubKey ''ed25519'' (drop 32 priv)"
  by (rule hello_accepted [OF assms])

text \<open>A stand-in scheme that satisfies the law.\<close>

definition sample_ed :: ed25519 where
  "sample_ed = \<lparr>ed_Sign = (\<lambda>priv data. take 64 (drop 32 priv @ data @ replicate 64 0)),
     ed_Verify = (\<lambda>pub data sig. sig = take 64 (pub @ data @ replicate 64 0))\<rparr>"

lemma sample_ed_law: "ed_law sample_ed"
  by (auto simp: ed_law_def sample_ed_def SignatureSize_def ed_Public_key)

theorem honest_hello_accepted_witness:
  "\<exists>h pid. BuildHello sample_ed ''n'' (replicate 64 7) (Some [1]) 1000 = Some (Inr (h, pid)) \<and>
    VerifyHello sample_ed h 0 2000 = Inr pid \<and>
    pid = CanonicalPeerIDFromPubKey ''ed25519'' (drop 32 (replicate 64 7))"
  by (rule honest_hello_accepted [OF sample_ed_law]) (simp_all add: PrivateKeySize_def)

text \<open>
  \<open>VerifyHello\<close> with the default skew accepts exactly the messages that name ed25519, have
  a 32-byte key and a 64-byte signature valid for the transcript, and a timestamp at most five
  minutes off; it keeps no memory of nonces, so a recorded Hello is accepted again, with the
  same identity, at any other moment of that window.
\<close>

theorem verify_hello_iff:
  "(VerifyHello ed h 0 nowMs = Inr pid \<longleftrightarrow>
     hl_Alg h = ''ed25519'' \<and> length (hl_PubKey h) = 32 \<and> length (hl_Sig h) = 64 \<and>
     \<bar>i64 (nowMs - hl_Timestamp h)\<bar> \<le> 300000 \<and>
     ed_Verify ed (hl_PubKey h)
       (HelloTranscript ''ed25519'' (hl_PubKey h) (hl_Nonce h) (hl_Timestamp h) (hl_NodeName h)) (hl_Sig h) \<and>
     pid = CanonicalPeerIDFromPubKey ''ed25519'' (hl_PubKey h)) \<and>
   (VerifyHello ed h 0 nowMs = Inr pid \<longrightarrow> \<bar>i64 (replayed - hl_Timestamp h)\<bar> \<le> 300000 \<longrightarrow>
     VerifyHello ed h 0 replayed = Inr pid)"
  using VerifyHello_Inr [OF default_skew] by (simp add: PublicKeySize_def SignatureSize_def)

theorem verify_hello_iff_witness:
  "VerifyHello sample_ed \<lparr>hl_Version = 1, hl_NodeName = ''n'', hl_Alg = ''ed25519'', hl_PubKey = replicate 32 7,
      hl_Nonce = [1], hl_Timestamp = 1000, hl_Sig = take 64 (replicate 32 7 @
        HelloTranscript ''ed25519'' (replicate 32 7) [1] 1000 ''n'' @ replicate 64 0)\<rparr> 0 2000 =
    Inr (CanonicalPeerIDFromPubKey ''ed25519'' (replicate 32 7))"
  by (rule iffD2 [OF conjunct1 [OF verify_hello_iff]]) (simp add: sample_ed_def i64_id)

text \<open>
  The identity follows from the configured key: a 64-byte key written in unpadded base64url
  is loaded as it is, and the node id names its public half; but a 32-byte seed in the same
  place is accepted too and gives every such node the identity of the all-zero public key, with
  which no Hello can be signed.
\<close>

theorem identity_from_config:
  assumes "length key = 64" "length seed = 32"
  shows "LoadOrGenEd25519 (c\<lparr>idc_PrivateKey := b64_encode key\<rparr>) file gen =
      Some (Some (key, CanonicalPeerIDFromPubKey ''ed25519'' (drop 32 key))) \<and>
    LoadOrGenEd25519 (c\<lparr>idc_PrivateKey := b64_encode seed\<rparr>) file gen =
      Some (Some (seed, CanonicalPeerIDFromPubKey ''ed25519'' (replicate 32 0))) \<and>
    BuildHello ed name seed (Some nonce) now = None"
proof -
  have enc: "b64_encode bs \<noteq> []" "TrimSpace (b64_encode bs) = b64_encode bs" if "bs \<noteq> []" for bs
  proof -
    show ne: "b64_encode bs \<noteq> []"
      using that b64_encode_inject [of bs "[]"] by auto
    then show "TrimSpace (b64_encode bs) = b64_encode bs"
      using b64_encode_chars [OF hd_in_set [OF ne]] b64_encode_chars [OF last_in_set [OF ne]]
      by (intro TrimSpace_printable) auto
  qed
  have ne: "key \<noteq> []" "seed \<noteq> []" using assms by auto
  have pub: "ed_Public key = Some (drop 32 key)" "ed_Public seed = Some (replicate 32 0)"
    using assms by (simp_all add: ed_Public_def PublicKeySize_def put_at_def)
  show ?thesis
    using assms pub enc [OF ne(1)] enc [OF ne(2)]
    by (simp add: LoadOrGenEd25519_def BuildHello_def SignEd25519_def PrivateKeySize_def Let_def b64_decode_encode)
qed

theorem identity_from_config_witness:
  "LoadOrGenEd25519 \<lparr>idc_Alg = ''ed25519'', idc_PrivateKey = b64_encode (replicate 32 5), idc_PrivateKeyFile = []\<rparr>
     None None = Some (Some (replicate 32 5, CanonicalPeerIDFromPubKey ''ed25519'' (replicate 32 0)))"
  using identity_from_config [of "replicate 64 1" "replicate 32 5"
      "\<lparr>idc_Alg = ''ed25519'', idc_PrivateKey = [], idc_PrivateKeyFile = []\<rparr>" None None] by simp

end
