(* ===== verification/Peering.thy ===== *)
theory Peering
  imports Pipeline Registry Handshake
begin

text \<open>
  A node at one end of a session (\<open>pkg/core/peering\<close>): the handling of Hello and HelloAck, of
  control requests, and the loop of \<open>HandleSession\<close>, one message at a time. The stores of peers and
  workers share one key-value store; a nil store is \<open>None\<close>. What the node writes on the control
  stream of a session is recorded in \<open>nd_out\<close>. The parameters of a node, among them the libraries
  for signatures, JSON and protobuf, are the record \<open>NodeEnv\<close>. \<open>clks i\<close> is the clock of the
  \<open>i\<close>-th call on the stores, \<open>now\<close> the time read by the handler itself, in nanoseconds.
\<close>

section \<open>State\<close>

text \<open>The indexes of the peer store, and of the worker registry, over one key-value store.\<close>

record Stores =
  so_kv :: Store
  so_peers :: "(string set \<times> string set) option"
  so_workers :: "string set option"

definition peers_view :: "Store \<Rightarrow> string set \<times> string set \<Rightarrow> PeerStore" where
  "peers_view kv ix = \<lparr>pst_kv = kv, pst_peerIndex = fst ix, pst_routeIndex = snd ix\<rparr>"

text \<open>\<open>if ps != nil { ... }\<close>\<close>

definition on_peers :: "(PeerStore \<Rightarrow> PeerStore) \<Rightarrow> Stores \<Rightarrow> Stores" where
  "on_peers f S =
     (case so_peers S of
        None \<Rightarrow> S
      | Some ix \<Rightarrow> let ps = f (peers_view (so_kv S) ix)
          in S\<lparr>so_kv := pst_kv ps, so_peers := Some (pst_peerIndex ps, pst_routeIndex ps)\<rparr>)"

definition reg_view :: "Store \<Rightarrow> string set \<Rightarrow> RegStore" where
  "reg_view kv ws = \<lparr>rg_kv = kv, rg_workers = ws\<rparr>"

definition with_reg :: "Stores \<Rightarrow> RegStore \<Rightarrow> Stores" where
  "with_reg S r = S\<lparr>so_kv := rg_kv r, so_workers := Some (rg_workers r)\<rparr>"

record NodeEnv =
  ev_ed :: ed25519
  ev_peers :: peers_json
  ev_reg :: "workerDoc json"
  ev_hello :: "byte list \<Rightarrow> Hello option"
  ev_pb :: pb_codec
  ev_router :: bool
  ev_localID :: PeerID
  ev_nodeName :: string
  ev_pubKey :: "byte list"

record Node =
  nd_mgr :: Manager
  nd_stores :: Stores
  nd_fwd :: protoForwarder
  nd_out :: "(sid \<times> byte list) list"

definition session_peer :: "Node \<Rightarrow> sid \<Rightarrow> PeerID" where
  "session_peer n s = pi_ID (si_peer (mgr_sess (nd_mgr n) s))"

abbreviation on_stores :: "(Stores \<Rightarrow> Stores) \<Rightarrow> Node \<Rightarrow> Node" where
  "on_stores f n \<equiv> n\<lparr>nd_stores := f (nd_stores n)\<rparr>"

section \<open>Hello\<close>

text \<open>What accepting a peer records, common to the three handlers.\<close>

definition record_peer ::
  "NodeEnv \<Rightarrow> PeerMeta \<Rightarrow> string \<Rightarrow> (nat \<Rightarrow> clock) \<Rightarrow> PeerStore \<Rightarrow> PeerStore" where
  "record_peer E pm raddr clks ps =
     (let J = ev_peers E; local = ev_localID E; pid = pm_ID pm;
          ps = Upsert J ps pm (clks 0);
          ps = Touch J ps pid raddr (Some (clks 1 4)) (clks 1)
      in if local \<noteq> [] then AddConnectedDirect J ps local pid (clks 2) else ps)"

definition drop_old ::
  "NodeEnv \<Rightarrow> PeerID \<Rightarrow> (nat \<Rightarrow> clock) \<Rightarrow> PeerStore \<Rightarrow> PeerStore" where
  "drop_old E oldID clks ps =
     (let ps = (if ev_localID E \<noteq> [] then RemoveConnectedDirect (ev_peers E) ps (ev_localID E) oldID (clks 3) else ps)
      in if HasPrefix oldID ''temp:'' then ExpirePeer ps oldID 30000000000 (clks 4) else ps)"

definition hello_of :: "PeerHello \<Rightarrow> Hello" where
  "hello_of he = \<lparr>hl_Version = 1, hl_NodeName = he_NodeName he, hl_Alg = he_Alg he, hl_PubKey = he_Pubkey he,
     hl_Nonce = he_Nonce he, hl_Timestamp = he_TsUnixMs he, hl_Sig = he_Sig he\<rparr>"

definition hello_meta :: "PeerID \<Rightarrow> Hello \<Rightarrow> PeerMeta" where
  "hello_meta pid h = zero_meta\<lparr>pm_ID := pid, pm_NodeName := hl_NodeName h, pm_Alg := hl_Alg h,
     pm_PublicKey := hl_PubKey h, pm_Reachable := True, pm_Handshake := ''verified'', pm_LastHelloTs := hl_Timestamp h\<rparr>"

definition hello_ack :: "NodeEnv \<Rightarrow> PeerID \<Rightarrow> Hello \<Rightarrow> int \<Rightarrow> PeerHelloAck" where
  "hello_ack E pid h now =
     \<lparr>ha_Accepted = True, ha_PeerId = pid, ha_Reason = [],
      ha_Meta = Some (zero_pb_meta\<lparr>pb_Id := ev_localID E, pb_NodeName := ev_nodeName E, pb_Alg := ''ed25519'',
        pb_Pubkey := ev_pubKey E, pb_Reachable := True, pb_LastHelloTs := hl_Timestamp h,
        pb_LastAckTs := unixMilli now, pb_Handshake := HS_VERIFIED\<rparr>)\<rparr>"

text \<open>The acknowledgement is sent without looking at the error; \<open>written\<close> says whether it got out.\<close>

definition send_ack :: "NodeEnv \<Rightarrow> sid \<Rightarrow> bool \<Rightarrow> PeerID \<Rightarrow> PeerHelloAck \<Rightarrow> (nat \<Rightarrow> clock) \<Rightarrow> Node \<Rightarrow> Node" where
  "send_ack E s written pid ack clks n =
     (case pb_Marshal (ev_pb E) (control_envelope (CHelloAck ack)) of
        None \<Rightarrow> n
      | Some b \<Rightarrow>
          on_stores (on_peers (\<lambda>ps. RecordExchange (ev_peers E) ps pid 0 (of_nat (length b)) 0 1 (clks 5)))
            (if written then n\<lparr>nd_out := nd_out n @ [(s, b)]\<rparr> else n))"

definition handleHello ::
  "NodeEnv \<Rightarrow> sid \<Rightarrow> string \<Rightarrow> bool \<Rightarrow> PeerHello \<Rightarrow> int \<Rightarrow> (nat \<Rightarrow> clock) \<Rightarrow> Node \<Rightarrow> PeerID option \<times> Node" where
  "handleHello E s raddr written hello now clks n =
     (let h = hello_of hello in
      case VerifyHello (ev_ed E) h 0 (unixMilli now) of
        Inl e \<Rightarrow> (None, n)
      | Inr pid \<Rightarrow>
          let oldID = session_peer n s;
              n = n\<lparr>nd_mgr := snd (RebindPeer (nd_mgr n) oldID pid)\<rparr>;
              n = on_stores (on_peers (\<lambda>ps. drop_old E oldID clks (record_peer E (hello_meta pid h) raddr clks ps))) n
          in (Some pid, send_ack E s written pid (hello_ack E pid h now) clks n))"

definition ack_meta :: "PeerHelloAck \<Rightarrow> int \<Rightarrow> PeerMeta" where
  "ack_meta ack now =
     (let m = (case ha_Meta ack of None \<Rightarrow> zero_pb_meta | Some m \<Rightarrow> m) in
      zero_meta\<lparr>pm_ID := pb_Id m, pm_NodeName := pb_NodeName m, pm_Alg := pb_Alg m, pm_PublicKey := pb_Pubkey m,
        pm_Reachable := True, pm_Handshake := ''verified'', pm_LastAckTs := unixMilli now\<rparr>)"

definition handleHelloAck ::
  "NodeEnv \<Rightarrow> sid \<Rightarrow> string \<Rightarrow> PeerHelloAck \<Rightarrow> int \<Rightarrow> (nat \<Rightarrow> clock) \<Rightarrow> Node \<Rightarrow> PeerID option \<times> Node" where
  "handleHelloAck E s raddr ack now clks n =
     (let newID = (case ha_Meta ack of None \<Rightarrow> [] | Some m \<Rightarrow> pb_Id m) in
      if newID = [] then (None, n)
      else
        let oldID = session_peer n s;
            n = n\<lparr>nd_mgr := snd (RebindPeer (nd_mgr n) oldID newID)\<rparr>;
            n = on_stores (on_peers (\<lambda>ps. drop_old E oldID clks (record_peer E (ack_meta ack now) raddr clks ps))) n
        in (Some newID, n))"

definition handleRawHello ::
  "NodeEnv \<Rightarrow> sid \<Rightarrow> string \<Rightarrow> byte list \<Rightarrow> int \<Rightarrow> (nat \<Rightarrow> clock) \<Rightarrow> Node \<Rightarrow> PeerID option \<times> Node" where
  "handleRawHello E s raddr raw now clks n =
     (case ev_hello E raw of
        None \<Rightarrow> (None, n)
      | Some h \<Rightarrow>
          if hl_Alg h = [] then (None, n)
          else case VerifyHello (ev_ed E) h 0 (unixMilli now) of
              Inl e \<Rightarrow> (None, n)
            | Inr pid \<Rightarrow>
                let oldID = session_peer n s;
                    n = n\<lparr>nd_mgr := snd (RebindPeer (nd_mgr n) oldID pid)\<rparr>
                in (Some pid, on_stores (on_peers (record_peer E
                      ((hello_meta pid h)\<lparr>pm_Handshake := [], pm_LastHelloTs := 0\<rparr>) raddr clks)) n))"

section \<open>Control requests\<close>

definition peer_entry :: "PeerMeta \<Rightarrow> PbPeerMeta" where
  "peer_entry pm = zero_pb_meta\<lparr>pb_Id := pm_ID pm, pb_NodeName := pm_NodeName pm, pb_Alg := pm_Alg pm,
     pb_Pubkey := pm_PublicKey pm, pb_Addresses := pm_Addresses pm, pb_Reachable := pm_Reachable pm,
     pb_Labels := pm_Labels pm\<rparr>"

definition adjacency :: "PeerMeta \<Rightarrow> PeerAdj list" where
  "adjacency pm = map (\<lambda>to. \<lparr>ad_From = pm_ID pm, ad_To = to\<rparr>)
     (filter (\<lambda>to. to \<noteq> pm_ID pm) (pm_ConnectedDirectIDs pm))"

fun routes_peers ::
  "peers_json \<Rightarrow> PeerStore \<Rightarrow> PeerID list \<Rightarrow> (nat \<Rightarrow> clock) \<Rightarrow> RoutesReply \<Rightarrow> RoutesReply \<times> PeerStore" where
  "routes_peers J ps [] clks out = (out, ps)"
| "routes_peers J ps (i # ids) clks out =
     (case peers_Get J ps i (clks 0) of
        (None, ps) \<Rightarrow> routes_peers J ps ids (\<lambda>k. clks (Suc k)) out
      | (Some pm, ps) \<Rightarrow> routes_peers J ps ids (\<lambda>k. clks (Suc k))
          (out\<lparr>ry_Peers := ry_Peers out @ [peer_entry pm], ry_Adjacency := ry_Adjacency out @ adjacency pm\<rparr>))"

definition candidate_entry :: "string \<Rightarrow> RouteCandidate \<Rightarrow> RouteCandidatePB" where
  "candidate_entry t c = \<lparr>rp_Target = t, rp_Path = rc_Path c, rp_NextHop = rc_NextHop c, rp_Metric = rc_Metric c,
     rp_Source = rc_Source c, rp_LearnedFrom = rc_LearnedFrom c, rp_Health = rc_Health c,
     rp_UpdatedUnixMs = rc_Updated c, rp_ExpiresUnixMs = 0\<rparr>"

fun routes_candidates ::
  "peers_json \<Rightarrow> PeerStore \<Rightarrow> string list \<Rightarrow> (nat \<Rightarrow> clock) \<Rightarrow> RoutesReply \<Rightarrow> RoutesReply \<times> PeerStore" where
  "routes_candidates J ps [] clks out = (out, ps)"
| "routes_candidates J ps (t # ts) clks out =
     (case GetRouteCandidates J ps t (clks 0) of
        (cands, ps) \<Rightarrow> routes_candidates J ps ts (\<lambda>k. clks (Suc k))
          (out\<lparr>ry_Candidates := ry_Candidates out @ map (candidate_entry t) cands\<rparr>))"

definition empty_reply :: RoutesReply where
  "empty_reply = \<lparr>ry_Peers = [], ry_Targets = [], ry_Candidates = [], ry_Adjacency = []\<rparr>"

text \<open>\<open>ids\<close> and \<open>targets\<close> are the orders in which ranging over the two indexes yields them.\<close>

definition buildRoutesReply ::
  "peers_json \<Rightarrow> Stores \<Rightarrow> PeerID list \<Rightarrow> string list \<Rightarrow> (nat \<Rightarrow> clock) \<Rightarrow> RoutesReply \<times> Stores" where
  "buildRoutesReply J S ids targets clks =
     (case so_peers S of
        None \<Rightarrow> (empty_reply, S)
      | Some ix \<Rightarrow>
          (case routes_peers J (peers_view (so_kv S) ix) ids clks empty_reply of
             (out, ps) \<Rightarrow>
               (case routes_candidates J ps targets (\<lambda>k. clks (length ids + k))
                       (out\<lparr>ry_Targets := ry_Targets out @ targets\<rparr>) of
                  (out, ps) \<Rightarrow> (out, S\<lparr>so_kv := pst_kv ps, so_peers := Some (pst_peerIndex ps, pst_routeIndex ps)\<rparr>))))"

definition sendProto :: "NodeEnv \<Rightarrow> sid \<Rightarrow> bool \<Rightarrow> PbEnvelope \<Rightarrow> Node \<Rightarrow> bool \<times> Node" where
  "sendProto E s written env n =
     (case pb_Marshal (ev_pb E) env of
        None \<Rightarrow> (False, n)
      | Some b \<Rightarrow> if \<not> written then (False, n) else (True, n\<lparr>nd_out := nd_out n @ [(s, b)]\<rparr>))"

definition handleControlRequest ::
  "NodeEnv \<Rightarrow> sid \<Rightarrow> bool \<Rightarrow> PeerID list \<Rightarrow> string list \<Rightarrow> (nat \<Rightarrow> clock) \<Rightarrow> Control \<Rightarrow> Node \<Rightarrow> bool \<times> Node" where
  "handleControlRequest E s written ids targets clks ctrl n =
     (case ctrl of
        Some CGetRoutes \<Rightarrow>
          (case buildRoutesReply (ev_peers E) (nd_stores n) ids targets clks of
             (rep, S) \<Rightarrow> sendProto E s written (control_envelope (CRoutesReply rep)) (n\<lparr>nd_stores := S\<rparr>))
      | Some CGetIdentity \<Rightarrow>
          sendProto E s written (control_envelope (CIdentityReply \<lparr>ir_Id = ev_localID E, ir_NodeName = ev_nodeName E,
            ir_Alg = ''ed25519'', ir_Pubkey = ev_pubKey E\<rparr>)) n
      | Some (CTaskRegister tr) \<Rightarrow>
          (case so_workers (nd_stores n) of
             None \<Rightarrow> (False, n)
           | Some ws \<Rightarrow>
               (case Register (ev_reg E) (reg_view (so_kv (nd_stores n)) ws) tr (clks 0) of
                  ((ok, reason, conflicts), r) \<Rightarrow>
                    sendProto E s written (control_envelope (CTaskRegisterAck
                      \<lparr>ta_Accepted = ok, ta_Reason = reason, ta_Conflicts = conflicts\<rparr>)) (on_stores (\<lambda>S. with_reg S r) n)))
      | Some (CTaskUpdate tu) \<Rightarrow>
          (case so_workers (nd_stores n) of
             None \<Rightarrow> (False, n)
           | Some ws \<Rightarrow> (False, on_stores (\<lambda>S. with_reg S
               (reg_Update (ev_reg E) (reg_view (so_kv (nd_stores n)) ws) tu (clks 0))) n))
      | Some (CTaskDeregister td) \<Rightarrow>
          (case so_workers (nd_stores n) of
             None \<Rightarrow> (False, n)
           | Some ws \<Rightarrow> (False, on_stores (\<lambda>S. with_reg S
               (Deregister (ev_reg E) (reg_view (so_kv (nd_stores n)) ws) td (clks 0))) n))
      | Some (CTaskListWorkers req) \<Rightarrow>
          (case so_workers (nd_stores n) of
             None \<Rightarrow> (False, n)
           | Some ws \<Rightarrow>
               (case ListWorkers (ev_reg E) (reg_view (so_kv (nd_stores n)) ws) req (clks 0) of
                  (rep, r) \<Rightarrow> sendProto E s written (control_envelope (CTaskListWorkersReply rep))
                    (on_stores (\<lambda>S. with_reg S r) n)))
      | _ \<Rightarrow> (False, n))"

section \<open>A session\<close>

text \<open>The hop-by-hop status: an envelope with a header only, to the previous hop.\<close>

definition status_header :: "PeerID \<Rightarrow> PeerID \<Rightarrow> PbEnvelope \<Rightarrow> Status \<Rightarrow> int \<Rightarrow> PbHeader" where
  "status_header localID destID orig status now =
     (let h = zero_pb_header\<lparr>ph_Version := 1, ph_Type := MT_CONTROL,
            ph_Source := Some \<lparr>nr_Id = localID, nr_Geohash = []\<rparr>, ph_Dest := Some \<lparr>nr_Id = destID, nr_Geohash = []\<rparr>,
            ph_CreatedUnixMs := unixMilli now, ph_DirectStatus := Some status\<rparr>
      in case pe_Header orig of
           None \<Rightarrow> h
         | Some oh \<Rightarrow>
             let h = (if ph_CorrelationId oh \<noteq> [] then h\<lparr>ph_CorrelationId := ph_CorrelationId oh\<rparr> else h);
                 h = (if ph_MessageId oh \<noteq> [] then h\<lparr>ph_MessageId := ph_MessageId oh\<rparr> else h)
             in if ph_Priority oh \<noteq> 0 then h\<lparr>ph_Priority := ph_Priority oh\<rparr> else h)"

definition status_envelope :: "PeerID \<Rightarrow> PeerID \<Rightarrow> PbEnvelope \<Rightarrow> Status \<Rightarrow> int \<Rightarrow> PbEnvelope" where
  "status_envelope localID destID orig status now =
     \<lparr>pe_Header = Some (status_header localID destID orig status now), pe_rest = [], pe_Body = None\<rparr>"

definition enqueueDirectStatusAck :: "NodeEnv \<Rightarrow> PeerID \<Rightarrow> PbEnvelope \<Rightarrow> Status \<Rightarrow> int \<Rightarrow> Node \<Rightarrow> Node" where
  "enqueueDirectStatusAck E prevHop orig status now n =
     (if ev_localID E = [] \<or> prevHop = [] then n
      else let env = status_envelope (ev_localID E) prevHop orig status now in
        case pb_Marshal (ev_pb E) env of
          None \<Rightarrow> n
        | Some b \<Rightarrow> n\<lparr>nd_fwd := fwd_Enqueue (nd_fwd n) (ev_localID E) env b now\<rparr>)"

definition ack_unless_status :: "NodeEnv \<Rightarrow> sid \<Rightarrow> PbEnvelope \<Rightarrow> int \<Rightarrow> Node \<Rightarrow> Node" where
  "ack_unless_status E s m now n =
     (case pe_Header m of
        None \<Rightarrow> n
      | Some h \<Rightarrow>
          if ph_DirectStatus h = None then enqueueDirectStatusAck E (session_peer n s) m ST_OK now n else n)"

text \<open>Whether a message is passed on: it has a destination and that is not this node.\<close>

definition forwards :: "NodeEnv \<Rightarrow> PbEnvelope \<Rightarrow> bool" where
  "forwards E m \<longleftrightarrow>
     (case pe_Header m of
        None \<Rightarrow> False
      | Some h \<Rightarrow> ph_Dest h \<noteq> None \<and>
          (let dst = GetId (ph_Dest h) in dst \<noteq> [] \<and> ev_localID E \<noteq> [] \<and> dst \<noteq> ev_localID E \<and> ev_router E))"

text \<open>What comes with a message: the outcome of writing a reply, the ranges over the indexes, clocks.\<close>

record arrival =
  av_buf :: "byte list"
  av_written :: bool
  av_ids :: "PeerID list"
  av_targets :: "string list"
  av_now :: int
  av_clks :: "nat \<Rightarrow> clock"

definition session_message :: "NodeEnv \<Rightarrow> sid \<Rightarrow> arrival \<Rightarrow> Node \<Rightarrow> Node" where
  "session_message E s a n =
     (let buf = av_buf a; now = av_now a;
          n = on_stores (on_peers (\<lambda>ps. RecordExchange (ev_peers E) ps (session_peer n s)
                (of_nat (length buf)) 0 1 0 (av_clks a 0))) n
      in case pb_Unmarshal (ev_pb E) buf of
           None \<Rightarrow> n
         | Some m \<Rightarrow>
             if forwards E m then
               ack_unless_status E s m now (n\<lparr>nd_fwd := fwd_Enqueue (nd_fwd n) (session_peer n s) m buf now\<rparr>)
             else
               (case GetControl m of
                  None \<Rightarrow> ack_unless_status E s m now n
                | Some ctrl \<Rightarrow>
                    ack_unless_status E s m now
                      (snd (handleControlRequest E s (av_written a) (av_ids a) (av_targets a)
                              (\<lambda>k. av_clks a (Suc k)) ctrl n))))"

text \<open>The first message may identify the peer; the result is the id the session runs under.\<close>

definition session_first :: "NodeEnv \<Rightarrow> sid \<Rightarrow> string \<Rightarrow> arrival \<Rightarrow> Node \<Rightarrow> PeerID \<times> Node" where
  "session_first E s raddr a n =
     (let curID = session_peer n s;
          keep = (\<lambda>(r, n). (case r of None \<Rightarrow> curID | Some pid \<Rightarrow> pid, n))
      in case pb_Unmarshal (ev_pb E) (av_buf a) of
           None \<Rightarrow> (curID, n)
         | Some pe \<Rightarrow>
             (case GetControl pe of
                Some (Some (CHello h)) \<Rightarrow> keep (handleHello E s raddr (av_written a) h (av_now a) (av_clks a) n)
              | Some (Some (CHelloAck ack)) \<Rightarrow> keep (handleHelloAck E s raddr ack (av_now a) (av_clks a) n)
              | Some _ \<Rightarrow> (curID, n)
              | None \<Rightarrow>
                  (case GetRaw pe of
                     Some raw \<Rightarrow> keep (handleRawHello E s raddr raw (av_now a) (av_clks a) n)
                   | None \<Rightarrow> (curID, n))))"

text \<open>What is deferred: it runs when the session ends.\<close>

definition session_end :: "NodeEnv \<Rightarrow> PeerID \<Rightarrow> PeerID list \<Rightarrow> (nat \<Rightarrow> clock) \<Rightarrow> Node \<Rightarrow> Node" where
  "session_end E curID ids clks n =
     (if ev_localID E \<noteq> [] \<and> curID \<noteq> [] then
        on_stores (on_peers (\<lambda>ps. DeletePeer (ev_peers E)
          (RemoveConnectedDirect (ev_peers E) ps (ev_localID E) curID (clks 0)) curID ids (clks 1))) n
      else n)"

text \<open>
  A whole session: the stream opens or not, the first message arrives or not, the others follow
  until receiving fails; \<open>pl\<close> is the pipeline of the node, if it has one.
\<close>

definition HandleSession ::
  "NodeEnv \<Rightarrow> sid \<Rightarrow> string \<Rightarrow> bool \<Rightarrow> arrival list \<Rightarrow> PeerStore option \<Rightarrow> Pipeline option \<Rightarrow>
   PeerID list \<Rightarrow> (nat \<Rightarrow> clock) \<Rightarrow> Node \<Rightarrow> Node" where
  "HandleSession E s raddr opened msgs ps pl ids clks n =
     (if \<not> opened then n
      else case msgs of
          [] \<Rightarrow> session_end E (session_peer n s) ids clks n
        | a # as \<Rightarrow>
            (case session_first E s raddr a n of
               (curID, n) \<Rightarrow>
                 let n = n\<lparr>nd_fwd := newForwarder ps pl\<rparr>;
                     n = foldl (\<lambda>n a. session_message E s a n) n as;
                     n = n\<lparr>nd_fwd := fwd_Close (nd_fwd n)\<rparr>
                 in session_end E curID ids clks n))"

section \<open>What a node does to the stores\<close>

text \<open>
  Every change of the stores by a handler is a run of operations of the peer store (theory Peers,
  which includes the registry's use of the shared key-value store); \<open>U\<close> bounds the ids of the
  documents it may create. So what holds of every run of the store holds of every node.
\<close>

definition store_view :: "Stores \<Rightarrow> PeerStore" where
  "store_view S = peers_view (so_kv S) (case so_peers S of None \<Rightarrow> ({}, {}) | Some ix \<Rightarrow> ix)"

definition runs :: "peers_json \<Rightarrow> PeerID set \<Rightarrow> PeerStore \<Rightarrow> PeerStore \<Rightarrow> bool" where
  "runs J U s s' \<longleftrightarrow> (\<exists>ops. upserted ops \<subseteq> U \<and> s' = peers_run J s ops)"

definition moves :: "NodeEnv \<Rightarrow> PeerID set \<Rightarrow> Node \<Rightarrow> Node \<Rightarrow> bool" where
  "moves E U n n' \<longleftrightarrow> runs (ev_peers E) U (store_view (nd_stores n)) (store_view (nd_stores n'))"

lemma upserted_append [simp]: "upserted (xs @ ys) = upserted xs \<union> upserted ys"
  by (auto simp: upserted_def)

lemma runs_refl [simp]: "runs J U s s"
  unfolding runs_def by (rule exI [of _ "[]"]) (simp add: upserted_def peers_run_def)

lemma runs_trans: "runs J U s t \<Longrightarrow> runs J U t u \<Longrightarrow> runs J U s u"
  unfolding runs_def
proof (elim exE conjE)
  fix xs ys
  assume "upserted xs \<subseteq> U" "upserted ys \<subseteq> U" "t = peers_run J s xs" "u = peers_run J t ys"
  then show "\<exists>ops. upserted ops \<subseteq> U \<and> u = peers_run J s ops"
    by (intro exI [of _ "xs @ ys"]) (simp add: peers_run_def)
qed

lemma runs_exec: "upserted [x] \<subseteq> U \<Longrightarrow> s' = peers_exec J s x \<Longrightarrow> runs J U s s'"
  unfolding runs_def by (rule exI [of _ "[x]"]) (simp add: peers_run_def)

lemma runs_mono: "runs J U s t \<Longrightarrow> U \<subseteq> V \<Longrightarrow> runs J V s t"
  unfolding runs_def by blast

lemma runs_ops:
  "runs J U s (Touch J s p a w clk)" "runs J U s (AddConnectedDirect J s p q clk)"
  "runs J U s (RemoveConnectedDirect J s p q clk)" "runs J U s (ExpirePeer s p ttl clk)"
  "runs J U s (RecordExchange J s p bi bo mi mo clk)" "runs J U s (DeletePeer J s p ids clk)"
  "runs J U s (RecordQuality J s p ql clk)"
  "runs J U s (snd (peers_Get J s p clk))" "runs J U s (snd (GetRouteCandidates J s t clk))"
  "pm_ID pm \<in> U \<Longrightarrow> runs J U s (Upsert J s pm clk)"
  by (rule runs_exec [of "PTouch p a w clk"] runs_exec [of "PAddDirect p q clk"] runs_exec [of "PRemoveDirect p q clk"]
      runs_exec [of "PExpire p ttl clk"] runs_exec [of "PExchange p bi bo mi mo clk"] runs_exec [of "PDelete p ids clk"]
      runs_exec [of "PQuality p ql clk"] runs_exec [of "PGet p clk"] runs_exec [of "PCandidates t clk"]
      runs_exec [of "PUpsert pm clk"]; simp add: upserted_def)+

lemma runs_kv:
  "runs J U s (s\<lparr>pst_kv := snd (Set (pst_kv s) (reg_key w) b 0 now)\<rparr>)"
  "runs J U s (s\<lparr>pst_kv := snd (Update (pst_kv s) (reg_key w) f now)\<rparr>)"
  "runs J U s (s\<lparr>pst_kv := snd (Delete (pst_kv s) (reg_key w))\<rparr>)"
  "runs J U s (s\<lparr>pst_kv := snd (Get (pst_kv s) (reg_key w) now now2)\<rparr>)"
  "runs J U s (s\<lparr>pst_kv := snd (expirer_turn (pst_kv s) now nowN)\<rparr>)"
  by (rule runs_exec [of "PRegSet w b now"] runs_exec [of "PRegUpdate w f now"] runs_exec [of "PRegDelete w"]
      runs_exec [of "PRegGet w now now2"] runs_exec [of "PExpirer now nowN"]; simp add: upserted_def)+

lemma runs_list_loop:
  "runs J U s (s\<lparr>pst_kv := snd (snd (list_loop R req (pst_kv s) ids m out clk))\<rparr>)"
proof (induction R req "pst_kv s" ids m out clk arbitrary: s rule: list_loop.induct)
  case (2 R req i ids m out clk)
  obtain v kv where g: "Get (pst_kv s) (reg_key i) (clk 0) (clk 1) = (v, kv)" by (cases "Get (pst_kv s) (reg_key i) (clk 0) (clk 1)")
  let ?t = "s\<lparr>pst_kv := kv\<rparr>"
  have t: "runs J U s ?t" using runs_kv(4) [of J U s i "clk 0" "clk 1"] g by simp
  show ?case
  proof (cases "int m < page_start req")
    case True
    then show ?thesis using "2.hyps"(1) [OF True refl] by simp
  next
    case False
    show ?thesis
    proof (cases v)
      case None
      have "runs J U ?t (?t\<lparr>pst_kv := snd (snd (list_loop R req kv ids m out (\<lambda>n. clk (n + 2))))\<rparr>)"
        using "2.hyps"(2) [OF False, of None ?t] g None by simp
      then show ?thesis using runs_trans [OF t] False g None by simp
    next
      case (Some b)
      let ?d = "fst (js_Unmarshal R b)"
      let ?out = "out @ [worker_record (tl_IncludeTasks req) ?d]"
      show ?thesis
      proof (cases "selected req ?d")
        case no: False
        have "runs J U ?t (?t\<lparr>pst_kv := snd (snd (list_loop R req kv ids m out (\<lambda>n. clk (n + 2))))\<rparr>)"
          using "2.hyps"(3) [OF False, of "Some b" ?t b ?d] g Some no by simp
        then show ?thesis using runs_trans [OF t] False g Some no by (simp add: Let_def)
      next
        case yes: True
        show ?thesis
        proof (cases "length ?out \<ge> page_size req")
          case True
          then show ?thesis using t False g Some yes by (simp add: Let_def)
        next
          case more: False
          have "runs J U ?t (?t\<lparr>pst_kv := snd (snd (list_loop R req kv ids (Suc m) ?out (\<lambda>n. clk (n + 2))))\<rparr>)"
            using "2.hyps"(4) [OF False, of "Some b" ?t b ?d ?out "Suc m"] g Some yes more by simp
          then show ?thesis using runs_trans [OF t] False g Some yes more by (simp add: Let_def)
        qed
      qed
    qed
  qed
qed simp

lemma moves_refl [simp]: "moves E U n n"
  by (simp add: moves_def)

lemma moves_trans: "moves E U n n' \<Longrightarrow> moves E U n' n'' \<Longrightarrow> moves E U n n''"
  unfolding moves_def by (rule runs_trans)

lemma moves_stores:
  "nd_stores n' = nd_stores n \<Longrightarrow> moves E U n n'"
  by (simp add: moves_def)

lemma peer_store_eta:
  "\<lparr>pst_kv = pst_kv ps, pst_peerIndex = pst_peerIndex ps, pst_routeIndex = pst_routeIndex ps\<rparr> = ps"
  by (cases ps) simp

lemma moves_on_peers:
  assumes "\<And>ps. runs (ev_peers E) U ps (f ps)"
  shows "moves E U n (on_stores (on_peers f) n)"
  using assms by (auto simp: moves_def on_peers_def store_view_def peers_view_def Let_def peer_store_eta split: option.split)

lemma runs_record_peer: "pm_ID pm \<in> U \<Longrightarrow> runs (ev_peers E) U ps (record_peer E pm raddr clks ps)"
  unfolding record_peer_def Let_def by (auto intro!: runs_ops intro: runs_trans [OF runs_trans [OF runs_ops(10) runs_ops(1)] runs_ops(2)]
      runs_trans [OF runs_ops(10) runs_ops(1)])

lemma runs_drop_old: "runs (ev_peers E) U ps (drop_old E oldID clks ps)"
  unfolding drop_old_def Let_def by (auto intro: runs_ops runs_trans)

lemma moves_send_ack: "moves E U n (send_ack E s written pid ack clks n)"
proof (cases "pb_Marshal (ev_pb E) (control_envelope (CHelloAck ack))")
  case (Some b)
  have "moves E U (if written then n\<lparr>nd_out := nd_out n @ [(s, b)]\<rparr> else n) (send_ack E s written pid ack clks n)"
    unfolding send_ack_def Some option.case by (rule moves_on_peers) (rule runs_ops)
  moreover have "moves E U n (if written then n\<lparr>nd_out := nd_out n @ [(s, b)]\<rparr> else n)" by (rule moves_stores) simp
  ultimately show ?thesis by (rule moves_trans [rotated])
qed (simp add: send_ack_def)

lemma moves_accept:
  assumes "pm_ID pm \<in> U"
  shows "moves E U n (on_stores (on_peers (\<lambda>ps. drop_old E oldID clks (record_peer E pm raddr clks ps))) (n\<lparr>nd_mgr := m\<rparr>))"
proof -
  have "moves E U (n\<lparr>nd_mgr := m\<rparr>) (on_stores (on_peers (\<lambda>ps. drop_old E oldID clks (record_peer E pm raddr clks ps))) (n\<lparr>nd_mgr := m\<rparr>))"
    by (rule moves_on_peers) (rule runs_trans [OF runs_record_peer [of pm, OF assms] runs_drop_old])
  then show ?thesis by (simp add: moves_def)
qed

lemma moves_handleHello:
  "moves E (set_option (fst (handleHello E s raddr written hello now clks n))) n
     (snd (handleHello E s raddr written hello now clks n))"
proof (cases "VerifyHello (ev_ed E) (hello_of hello) 0 (unixMilli now)")
  case (Inr pid)
  have "pm_ID (hello_meta pid (hello_of hello)) \<in> {pid}" by (simp add: hello_meta_def)
  from moves_trans [OF moves_accept [OF this] moves_send_ack] show ?thesis
    by (simp add: handleHello_def Inr Let_def)
qed (simp add: handleHello_def Let_def)

lemma moves_handleHelloAck:
  "moves E (set_option (fst (handleHelloAck E s raddr ack now clks n))) n (snd (handleHelloAck E s raddr ack now clks n))"
proof -
  let ?new = "case ha_Meta ack of None \<Rightarrow> [] | Some m \<Rightarrow> pb_Id m"
  have "pm_ID (ack_meta ack now) \<in> {?new}" by (simp add: ack_meta_def Let_def zero_pb_meta_def split: option.split)
  from moves_accept [OF this] show ?thesis by (simp add: handleHelloAck_def Let_def)
qed

lemma moves_handleRawHello:
  "moves E (set_option (fst (handleRawHello E s raddr raw now clks n))) n (snd (handleRawHello E s raddr raw now clks n))"
proof -
  have "moves E {pid} n (on_stores (on_peers (record_peer E ((hello_meta pid h)\<lparr>pm_Handshake := [], pm_LastHelloTs := 0\<rparr>) raddr clks))
      (n\<lparr>nd_mgr := m\<rparr>))" for pid h m
  proof -
    have "pm_ID ((hello_meta pid h)\<lparr>pm_Handshake := [], pm_LastHelloTs := 0\<rparr>) \<in> {pid}" by (simp add: hello_meta_def)
    then have "moves E {pid} (n\<lparr>nd_mgr := m\<rparr>) (on_stores (on_peers (record_peer E ((hello_meta pid h)\<lparr>pm_Handshake := [], pm_LastHelloTs := 0\<rparr>) raddr clks))
      (n\<lparr>nd_mgr := m\<rparr>))" by (intro moves_on_peers runs_record_peer)
    then show ?thesis by (simp add: moves_def)
  qed
  then show ?thesis by (simp add: handleRawHello_def Let_def split: option.split sum.split)
qed

subsection \<open>Control requests\<close>

lemma runs_routes_peers: "runs J U ps (snd (routes_peers J ps ids clks out))"
proof (induction J ps ids clks out rule: routes_peers.induct)
  case (2 J ps i ids clks out)
  obtain r t where g: "peers_Get J ps i (clks 0) = (r, t)" by (cases "peers_Get J ps i (clks 0)")
  have "runs J U ps t" using runs_ops(8) [of J U ps i "clks 0"] g by simp
  then show ?case
    using "2.IH"(1) [OF g [symmetric]] "2.IH"(2) [OF g [symmetric]] runs_trans g by (cases r) auto
qed simp

lemma runs_routes_candidates: "runs J U ps (snd (routes_candidates J ps ts clks out))"
proof (induction J ps ts clks out rule: routes_candidates.induct)
  case (2 J ps i ids clks out)
  obtain r t where g: "GetRouteCandidates J ps i (clks 0) = (r, t)" by (cases "GetRouteCandidates J ps i (clks 0)")
  have "runs J U ps t" using runs_ops(9) [of J U ps i "clks 0"] g by simp
  then show ?case using "2.IH" [OF g [symmetric]] runs_trans g by auto
qed simp

lemma runs_buildRoutesReply:
  "runs J U (store_view S) (store_view (snd (buildRoutesReply J S ids targets clks)))"
proof (cases "so_peers S")
  case (Some ix)
  obtain out ps where r: "routes_peers J (peers_view (so_kv S) ix) ids clks empty_reply = (out, ps)"
    by (cases "routes_peers J (peers_view (so_kv S) ix) ids clks empty_reply")
  let ?q = "routes_candidates J ps targets (\<lambda>k. clks (length ids + k)) (out\<lparr>ry_Targets := ry_Targets out @ targets\<rparr>)"
  have "runs J U (peers_view (so_kv S) ix) ps"
    using runs_routes_peers [of J U "peers_view (so_kv S) ix" ids clks empty_reply] r by simp
  from runs_trans [OF this runs_routes_candidates] have "runs J U (store_view S) (snd ?q)"
    by (simp add: store_view_def Some)
  moreover have "store_view (snd (buildRoutesReply J S ids targets clks)) = snd ?q"
    using r by (simp add: buildRoutesReply_def Some store_view_def split: prod.split) (simp add: peers_view_def peer_store_eta)
  ultimately show ?thesis by simp
qed (simp add: buildRoutesReply_def)

lemma stores_sendProto [simp]: "nd_stores (snd (sendProto E s w env n)) = nd_stores n"
  by (simp add: sendProto_def split: option.split)

lemma view_with_reg: "store_view (with_reg S r) = (store_view S)\<lparr>pst_kv := rg_kv r\<rparr>"
  by (simp add: store_view_def with_reg_def peers_view_def)

lemma kv_view [simp]: "pst_kv (store_view S) = so_kv S"
  by (simp add: store_view_def peers_view_def)

lemma keep_kv [simp]: "(store_view S)\<lparr>pst_kv := so_kv S\<rparr> = store_view S"
  by (simp add: store_view_def peers_view_def)

lemma runs_registry:
  "runs J U (store_view S) (store_view (with_reg S (snd (Register R (reg_view (so_kv S) ws) tr clk))))"
  "runs J U (store_view S) (store_view (with_reg S (reg_Update R (reg_view (so_kv S) ws) tu clk)))"
  "runs J U (store_view S) (store_view (with_reg S (Deregister R (reg_view (so_kv S) ws) td clk)))"
  "runs J U (store_view S) (store_view (with_reg S (snd (ListWorkers R (reg_view (so_kv S) ws) req clk))))"
proof -
  note kv = runs_kv [of J U "store_view S", unfolded kv_view]
  show "runs J U (store_view S) (store_view (with_reg S (snd (Register R (reg_view (so_kv S) ws) tr clk))))"
    unfolding view_with_reg by (simp add: Register_def reg_view_def Let_def kv(1))
  show "runs J U (store_view S) (store_view (with_reg S (reg_Update R (reg_view (so_kv S) ws) tu clk)))"
    unfolding view_with_reg by (simp add: reg_Update_def reg_view_def Let_def kv(2))
  show "runs J U (store_view S) (store_view (with_reg S (Deregister R (reg_view (so_kv S) ws) td clk)))"
    unfolding view_with_reg by (simp add: Deregister_def reg_view_def Let_def kv(2,3))
  show "runs J U (store_view S) (store_view (with_reg S (snd (ListWorkers R (reg_view (so_kv S) ws) req clk))))"
    using runs_list_loop [of J U "store_view S" R req "sorted_list_of_set ws" 0 "[]" clk]
    unfolding view_with_reg by (auto simp: ListWorkers_def reg_view_def Let_def split: prod.split)
qed

lemma moves_handleControlRequest:
  "moves E U n (snd (handleControlRequest E s written ids targets clks ctrl n))"
proof (cases ctrl)
  case (Some k)
  note reg = runs_registry [of "ev_peers E" U "nd_stores n" "ev_reg E"]
  show ?thesis
  proof (cases k)
    case CGetRoutes
    then show ?thesis
      using runs_buildRoutesReply [of "ev_peers E" U "nd_stores n" ids targets clks] Some
      by (auto simp: handleControlRequest_def moves_def split: prod.split)
  next
    case (CTaskRegister tr)
    then show ?thesis using reg(1) [of _ tr "clks 0"] Some
      by (auto simp: handleControlRequest_def moves_def split: prod.split option.split) (metis prod.sel(2))
  next
    case (CTaskUpdate tu)
    then show ?thesis using reg(2) Some by (simp add: handleControlRequest_def moves_def split: option.split)
  next
    case (CTaskDeregister td)
    then show ?thesis using reg(3) Some by (simp add: handleControlRequest_def moves_def split: option.split)
  next
    case (CTaskListWorkers req)
    then show ?thesis using reg(4) [of _ req "clks 0"] Some
      by (auto simp: handleControlRequest_def moves_def split: prod.split option.split) (metis prod.sel(2))
  qed (simp_all add: handleControlRequest_def Some moves_stores)
qed (simp add: handleControlRequest_def)

subsection \<open>Sessions\<close>

lemma moves_enqueue_ack: "moves E U n (enqueueDirectStatusAck E p m st now n)"
  by (rule moves_stores) (simp add: enqueueDirectStatusAck_def Let_def split: option.split)

lemma moves_ack_unless: "moves E U n (ack_unless_status E s m now n)"
  by (simp add: ack_unless_status_def moves_enqueue_ack split: option.split)

lemma moves_session_message: "moves E U n (session_message E s a n)"
proof -
  let ?n = "on_stores (on_peers (\<lambda>ps. RecordExchange (ev_peers E) ps (session_peer n s)
                (of_nat (length (av_buf a))) 0 1 0 (av_clks a 0))) n"
  have a: "moves E U n ?n" by (rule moves_on_peers) (rule runs_ops)
  have f: "moves E U ?n (?n\<lparr>nd_fwd := f\<rparr>)" for f by (rule moves_stores) simp
  note rest = moves_trans [OF a moves_ack_unless] moves_trans [OF moves_trans [OF a f] moves_ack_unless]
    moves_trans [OF moves_trans [OF a moves_handleControlRequest] moves_ack_unless] a
  show ?thesis unfolding session_message_def Let_def by (auto split: option.split intro: rest)
qed

text \<open>The ids a first message can make the node write a document for.\<close>

definition verified_id :: "NodeEnv \<Rightarrow> Hello \<Rightarrow> int \<Rightarrow> PeerID set" where
  "verified_id E h now = (case VerifyHello (ev_ed E) h 0 (unixMilli now) of Inl e \<Rightarrow> {} | Inr pid \<Rightarrow> {pid})"

definition claims :: "NodeEnv \<Rightarrow> arrival \<Rightarrow> PeerID set" where
  "claims E a =
     (case pb_Unmarshal (ev_pb E) (av_buf a) of
        None \<Rightarrow> {}
      | Some pe \<Rightarrow>
          (case GetControl pe of
             Some (Some (CHello h)) \<Rightarrow> verified_id E (hello_of h) (av_now a)
           | Some (Some (CHelloAck ack)) \<Rightarrow> (case ha_Meta ack of None \<Rightarrow> {} | Some m \<Rightarrow> {pb_Id m} - {[]})
           | Some _ \<Rightarrow> {}
           | None \<Rightarrow>
               (case GetRaw pe of
                  None \<Rightarrow> {}
                | Some raw \<Rightarrow> (case ev_hello E raw of None \<Rightarrow> {} | Some h \<Rightarrow> verified_id E h (av_now a)))))"

lemma result_Hello: "set_option (fst (handleHello E s raddr w h now clks n)) = verified_id E (hello_of h) now"
  by (simp add: handleHello_def verified_id_def Let_def split: sum.split)

lemma result_HelloAck:
  "set_option (fst (handleHelloAck E s raddr ack now clks n)) = (case ha_Meta ack of None \<Rightarrow> {} | Some m \<Rightarrow> {pb_Id m} - {[]})"
  by (auto simp: handleHelloAck_def Let_def split: option.split)

lemma result_RawHello:
  "set_option (fst (handleRawHello E s raddr raw now clks n)) \<subseteq>
     (case ev_hello E raw of None \<Rightarrow> {} | Some h \<Rightarrow> verified_id E h now)"
  by (auto simp: handleRawHello_def verified_id_def Let_def split: option.split sum.split)

lemma moves_mono: "moves E U n n' \<Longrightarrow> U \<subseteq> V \<Longrightarrow> moves E V n n'"
  unfolding moves_def by (rule runs_mono)

lemma moves_session_first: "moves E (claims E a) n (snd (session_first E s raddr a n))"
proof (cases "pb_Unmarshal (ev_pb E) (av_buf a)")
  case (Some pe)
  note H = moves_handleHello [unfolded result_Hello] and A = moves_handleHelloAck [unfolded result_HelloAck]
  have R: "moves E (case ev_hello E raw of None \<Rightarrow> {} | Some h \<Rightarrow> verified_id E h now) n
      (snd (handleRawHello E s raddr raw now clks n))" for raw now clks
    by (rule moves_mono [OF moves_handleRawHello result_RawHello])
  show ?thesis
  proof (cases "GetControl pe")
    case None
    then show ?thesis
      using R [where now = "av_now a" and clks = "av_clks a"]
      by (auto simp: session_first_def claims_def Some Let_def case_prod_beta split: option.split)
  next
    case ctrl: (Some c)
    show ?thesis
    proof (cases c)
      case None
      then show ?thesis by (simp add: session_first_def Some ctrl Let_def)
    next
      case k: (Some k)
      then show ?thesis
        using H [where now = "av_now a" and clks = "av_clks a" and n = n] A [where now = "av_now a" and clks = "av_clks a" and n = n]
        by (cases k) (simp_all add: session_first_def claims_def Some ctrl Let_def case_prod_beta)
    qed
  qed
qed (simp add: session_first_def)

lemma moves_session_end: "moves E U n (session_end E curID ids clks n)"
  unfolding session_end_def by (auto intro!: moves_on_peers runs_trans [OF runs_ops(3) runs_ops(6)])

lemma moves_messages: "moves E U n (foldl (\<lambda>n a. session_message E s a n) n as)"
  by (induction as arbitrary: n) (auto intro: moves_trans [OF moves_session_message])

lemma moves_fwd: "moves E U n (n\<lparr>nd_fwd := f\<rparr>)"
  by (rule moves_stores) simp

lemma moves_HandleSession:
  "moves E (case msgs of [] \<Rightarrow> {} | a # as \<Rightarrow> claims E a) n (HandleSession E s raddr opened msgs ps pl ids clks n)"
proof (cases msgs)
  case (Cons a as)
  obtain c n1 where f: "session_first E s raddr a n = (c, n1)" by (cases "session_first E s raddr a n")
  have "moves E (claims E a) n n1" using moves_session_first [of E a n s raddr] f by simp
  then have "moves E (claims E a) n (session_end E c ids clks
      ((foldl (\<lambda>n a. session_message E s a n) (n1\<lparr>nd_fwd := newForwarder ps pl\<rparr>) as)\<lparr>nd_fwd :=
        fwd_Close (nd_fwd (foldl (\<lambda>n a. session_message E s a n) (n1\<lparr>nd_fwd := newForwarder ps pl\<rparr>) as))\<rparr>))"
    by (rule moves_trans [OF _ moves_trans [OF moves_fwd moves_trans [OF moves_messages moves_trans [OF moves_fwd moves_session_end]]]])
  then show ?thesis by (simp add: HandleSession_def Cons f Let_def)
qed (simp add: HandleSession_def moves_session_end)

section \<open>Protobuf\<close>

text \<open>The envelope survives being written and read.\<close>

definition pb_keeps :: "pb_codec \<Rightarrow> PbEnvelope \<Rightarrow> byte list \<Rightarrow> bool" where
  "pb_keeps C e b \<longleftrightarrow> pb_Marshal C e = Some b \<and> pb_Unmarshal C b = Some e"

section \<open>A claimed identity in the store\<close>

lemma holds_Touch:
  assumes "holds_doc (pj_meta J) s (keyPeer p) pm T" "js_keeps (pj_meta J) (touch_meta p a w pm)"
    and "T = 0 \<or> clk 0 < T \<and> clk 3 < T"
  shows "holds_doc (pj_meta J) (Touch J s p a (Some w) clk) (keyPeer p) (touch_meta p a w pm) (i64 (clk 2 + defaultPeerTTL))"
proof -
  let ?t = "kv_update s (keyPeer p) (edit (pj_meta J) (touch_meta p a w)) (clk 0)"
  have h: "holds_doc (pj_meta J) ?t (keyPeer p) (touch_meta p a w pm) T"
    using holds_edit [of "pj_meta J" s "keyPeer p" pm T "clk 0" "touch_meta p a w"] assms by auto
  then have "holds_doc (pj_meta J) (?t\<lparr>pst_kv := snd (Expire (pst_kv ?t) (keyPeer p) defaultPeerTTL (clk 2) (clk 3))\<rparr>)
      (keyPeer p) (touch_meta p a w pm) (i64 (clk 2 + defaultPeerTTL))"
    using assms(3) by (auto simp: holds_doc_def memkv.exp_inv memkv.exp_ents live_def expired_def defaultPeerTTL_def)
  then show ?thesis by (simp add: Touch_def Let_def)
qed

lemma holds_add_other: "holds_doc J s (keyPeer p) d T \<Longrightarrow> q \<noteq> p \<Longrightarrow> holds_doc J (AddConnectedDirect K s q r clk) (keyPeer p) d T"
  by (simp add: AddConnectedDirect_def Let_def holds_edit_other)

lemma holds_remove_other: "holds_doc J s (keyPeer p) d T \<Longrightarrow> q \<noteq> p \<Longrightarrow> holds_doc J (RemoveConnectedDirect K s q r clk) (keyPeer p) d T"
  by (simp add: RemoveConnectedDirect_def holds_edit_other)

lemma holds_ExpirePeer: "holds_doc J s (keyPeer p) d T \<Longrightarrow> q \<noteq> p \<Longrightarrow> holds_doc J (ExpirePeer s q ttl clk) (keyPeer p) d T"
  by (auto simp: ExpirePeer_def holds_doc_def memkv.exp_inv memkv.frame)

text \<open>Readings of the clock between \<open>t\<close> and the expiry of a document stored at \<open>t\<close>.\<close>

definition soon :: "int \<Rightarrow> clock \<Rightarrow> bool" where
  "soon t clk \<longleftrightarrow> 0 \<le> t \<and> t < 2 ^ 62 \<and> (\<forall>k. t \<le> clk k \<and> clk k < t + defaultPeerTTL)"

lemma soonD: "soon t clk \<Longrightarrow> t \<le> clk k \<and> clk k < t + defaultPeerTTL \<and> i64 (clk k + defaultPeerTTL) = clk k + defaultPeerTTL"
proof -
  assume s: "soon t clk"
  then have "t \<le> clk k" "clk k < t + 300000000000" "0 \<le> t" "t < 2 ^ 62" by (auto simp: soon_def defaultPeerTTL_def)
  then show ?thesis by (auto simp: defaultPeerTTL_def intro!: i64_id)
qed

lemma holds_accept:
  assumes "kv_plain (pst_kv ps)" "js_keeps (pj_meta (ev_peers E)) pm"
    and "js_keeps (pj_meta (ev_peers E)) (touch_meta (pm_ID pm) raddr (clks 1 4) pm)"
    and "\<And>k. soon t (clks k)" "pm_ID pm \<noteq> ev_localID E" "pm_ID pm \<noteq> oldID"
  shows "\<exists>T. t + defaultPeerTTL \<le> T \<and>
    holds_doc (pj_meta (ev_peers E)) (drop_old E oldID clks (record_peer E pm raddr clks ps)) (keyPeer (pm_ID pm))
      (touch_meta (pm_ID pm) raddr (clks 1 4) pm) T"
proof -
  let ?J = "pj_meta (ev_peers E)"
  let ?p = "pm_ID pm"
  let ?d = "touch_meta ?p raddr (clks 1 4) pm"
  have i: "i64 (clks k j + defaultPeerTTL) = clks k j + defaultPeerTTL" "t \<le> clks k j" "clks k j < t + defaultPeerTTL" for k j
    using soonD [OF assms(4)] by auto
  have u: "holds_doc ?J (Upsert (ev_peers E) ps pm (clks 0)) (keyPeer ?p) pm (clks 0 0 + defaultPeerTTL)"
    using holds_Upsert [OF assms(1,2), of "clks 0"] i(1) by simp
  have "clks 1 0 < clks 0 0 + defaultPeerTTL" "clks 1 3 < clks 0 0 + defaultPeerTTL"
    using i(2) [of 0 0] i(3) [of 1 0] i(3) [of 1 3] by linarith+
  then have "holds_doc ?J (Touch (ev_peers E) (Upsert (ev_peers E) ps pm (clks 0)) ?p raddr (Some (clks 1 4)) (clks 1))
      (keyPeer ?p) ?d (clks 1 2 + defaultPeerTTL)"
    using holds_Touch [OF u assms(3), of "clks 1"] i(1) [of 1 2] by simp
  then have "holds_doc ?J (drop_old E oldID clks (record_peer E pm raddr clks ps)) (keyPeer ?p) ?d (clks 1 2 + defaultPeerTTL)"
    using assms(5,6) by (auto simp: record_peer_def drop_old_def Let_def intro!: holds_ExpirePeer holds_remove_other holds_add_other)
  then show ?thesis using i(2) [of 1 2] by (intro exI [of _ "clks 1 2 + defaultPeerTTL"]) simp
qed

lemma view_on_peers: "so_peers S = Some ix \<Longrightarrow> store_view (on_peers f S) = f (store_view S)"
  by (cases ix) (simp add: on_peers_def store_view_def peers_view_def Let_def peer_store_eta)

lemma rebind_free:
  assumes "oldID \<noteq> newID" "newID \<noteq> []" "GetSession m oldID = Some s" "GetSession m newID = None"
  shows "GetSession (snd (RebindPeer m oldID newID)) newID = Some s"
  using assms(4) RebindPeer_effect [OF assms(1-3)] by auto

section \<open>Properties\<close>

text \<open>
  C28: a HelloAck needs no proof of any kind: whoever sends one as the first message of a session,
  with the id of a peer that has no session, becomes that peer. The session is bound to the id, and
  the store holds, for as long as documents live, a document under it with the sender's choice of
  key, marked verified. The signature scheme is not consulted. The JSON codec is relied upon for
  the two documents written.
\<close>

theorem hello_ack_unauthenticated:
  assumes "ha_Meta ack = Some m" "pb_Id m \<noteq> []" "pb_Id m \<noteq> session_peer n s" "pb_Id m \<noteq> ev_localID E"
    and "GetSession (nd_mgr n) (session_peer n s) = Some s" "GetSession (nd_mgr n) (pb_Id m) = None"
    and "so_peers (nd_stores n) = Some ix" "kv_plain (so_kv (nd_stores n))"
    and "js_keeps (pj_meta (ev_peers E)) (ack_meta ack now)"
    and "js_keeps (pj_meta (ev_peers E)) (touch_meta (pb_Id m) raddr (clks 1 4) (ack_meta ack now))"
    and "\<And>k. soon t (clks k)" "soon t clk"
    and "handleHelloAck E s raddr ack now clks n = (r, n')"
  shows "r = Some (pb_Id m) \<and> GetSession (nd_mgr n') (pb_Id m) = Some s \<and>
    (\<exists>d. fst (peers_Get (ev_peers E) (store_view (nd_stores n')) (pb_Id m) clk) = Some d \<and>
       pm_PublicKey d = pb_Pubkey m \<and> pm_Handshake d = ''verified'' \<and> pm_Reachable d)"
proof -
  let ?pm = "ack_meta ack now"
  let ?f = "\<lambda>ps. drop_old E (session_peer n s) clks (record_peer E ?pm raddr clks ps)"
  let ?d = "touch_meta (pb_Id m) raddr (clks 1 4) ?pm"
  have id: "pm_ID ?pm = pb_Id m" using assms(1) by (simp add: ack_meta_def Let_def)
  have n': "r = Some (pb_Id m)" "nd_mgr n' = snd (RebindPeer (nd_mgr n) (session_peer n s) (pb_Id m))"
      "nd_stores n' = on_peers ?f (nd_stores n)"
    using assms(13) by (auto simp: handleHelloAck_def Let_def assms(1,2))
  obtain T where T: "t + defaultPeerTTL \<le> T"
      "holds_doc (pj_meta (ev_peers E)) (?f (store_view (nd_stores n))) (keyPeer (pb_Id m)) ?d T"
    using holds_accept [of "store_view (nd_stores n)" E ?pm raddr clks t "session_peer n s"] assms(3,4,8-11)
    by (auto simp: id)
  have "clk 0 < T" using soonD [OF assms(12), of 0] T(1) by linarith
  then have "fst (peers_Get (ev_peers E) (store_view (nd_stores n')) (pb_Id m) clk) = Some ?d"
    using holds_peers_Get [OF T(2)] by (simp add: n'(3) view_on_peers [OF assms(7)])
  moreover have "pm_PublicKey ?d = pb_Pubkey m" "pm_Handshake ?d = ''verified''" "pm_Reachable ?d"
    using assms(1) by (simp_all add: touch_meta_def ack_meta_def Let_def)
  moreover have "GetSession (nd_mgr n') (pb_Id m) = Some s"
    unfolding n'(2) using assms(2,3,5,6) by (intro rebind_free) auto
  ultimately show ?thesis using n'(1) by blast
qed

lemma status_envelope_parts [simp]:
  "pe_Header (status_envelope local peer orig st now) = Some (status_header local peer orig st now)"
  "GetControl (status_envelope local peer orig st now) = None"
  "ph_DirectStatus (status_header local peer orig st now) = Some st"
  "ph_Dest (status_header local peer orig st now) = Some \<lparr>nr_Id = peer, nr_Geohash = []\<rparr>"
  by (simp_all add: status_envelope_def GetControl_def status_header_def Let_def zero_pb_header_def split: option.split)

text \<open>
  C30: hop-by-hop acknowledgements end: whatever node receives the status envelope that another node
  made for a message, it makes none in return and writes no reply; at most it passes the envelope
  on unchanged, when it is not the one the envelope is for. The protobuf codec is relied upon for
  this envelope.
\<close>

theorem status_acks_end:
  assumes "pb_keeps (ev_pb E) (status_envelope local peer orig st now) b" "av_buf a = b"
  shows "nd_out (session_message E s a n) = nd_out n \<and>
    nd_fwd (session_message E s a n) =
      (if peer \<noteq> [] \<and> ev_localID E \<noteq> [] \<and> peer \<noteq> ev_localID E \<and> ev_router E
       then fwd_Enqueue (nd_fwd n) (session_peer n s) (status_envelope local peer orig st now) b (av_now a)
       else nd_fwd n)"
proof -
  have "session_peer (n\<lparr>nd_stores := S\<rparr>) s = session_peer n s" for S by (simp add: session_peer_def)
  then show ?thesis
    using assms by (simp add: session_message_def pb_keeps_def Let_def forwards_def ack_unless_status_def GetId_def)
qed

text \<open>
  C31: when a session ends, the record of its peer is deleted although the manager may hold another,
  better session with the same peer: after a session was replaced, the end of the replaced one
  leaves a peer that is connected and has no record.
\<close>

theorem end_forgets_live_peer:
  assumes "so_peers (nd_stores n) = Some ix" "kv_plain (so_kv (nd_stores n))" "ev_localID E \<noteq> []" "pid \<noteq> []"
    and "GetSession (nd_mgr n) pid = Some other"
  shows "GetSession (nd_mgr (session_end E pid ids clks n)) pid = Some other \<and>
    fst (peers_Get (ev_peers E) (store_view (nd_stores (session_end E pid ids clks n))) pid clk) = None"
proof -
  let ?s = "RemoveConnectedDirect (ev_peers E) (store_view (nd_stores n)) (ev_localID E) pid (clks 0)"
  have p: "kv_plain (pst_kv ?s)" using assms(2) by (simp add: RemoveConnectedDirect_def kv_update_def memkv.upd_inv)
  have v: "store_view (nd_stores (session_end E pid ids clks n)) = DeletePeer (ev_peers E) ?s pid ids (clks 1)"
    using assms(3,4) by (simp add: session_end_def view_on_peers [OF assms(1)])
  have "kv_plain (pst_kv (DeletePeer (ev_peers E) ?s pid ids (clks 1))) \<and>
      kv_map (pst_kv (DeletePeer (ev_peers E) ?s pid ids (clks 1))) (keyPeer pid) = None"
    unfolding DeletePeer_def Let_def using p by (intro absent_remove_all) (simp_all add: memkv.del_inv memkv.del_ents)
  then show ?thesis using absent_reads(4) [of _ pid "ev_peers E" clk] assms(5) by (simp add: v) (simp add: session_end_def)
qed

section \<open>The properties at work\<close>

definition false_ack :: PeerHelloAck where
  "false_ack = \<lparr>ha_Accepted = True, ha_PeerId = [], ha_Reason = [],
     ha_Meta = Some (zero_pb_meta\<lparr>pb_Id := ''victim'', pb_Pubkey := [6]\<rparr>)\<rparr>"

text \<open>A codec for one envelope.\<close>

definition one_envelope :: "PbEnvelope \<Rightarrow> pb_codec" where
  "one_envelope e = \<lparr>pb_Marshal = (\<lambda>x. if x = e then Some [1] else None),
     pb_Unmarshal = (\<lambda>b. if b = [1] then Some e else None)\<rparr>"

lemma one_envelope_keeps: "pb_keeps (one_envelope e) e [1]"
  by (simp add: pb_keeps_def one_envelope_def)

definition ack_env :: PbEnvelope where
  "ack_env = status_envelope ''a'' ''b'' task_env ST_OK 5"

definition node_b :: NodeEnv where
  "node_b = \<lparr>ev_ed = sample_ed,
     ev_peers = some_json\<lparr>pj_meta := pair_json (ack_meta false_ack 5) (touch_meta ''victim'' ''addr'' 5 (ack_meta false_ack 5))\<rparr>,
     ev_reg = pair_json zero_doc zero_doc, ev_hello = (\<lambda>b. None), ev_pb = one_envelope ack_env, ev_router = True,
     ev_localID = ''b'', ev_nodeName = ''B'', ev_pubKey = [2]\<rparr>"

definition one_session :: Node where
  "one_session = \<lparr>nd_mgr = snd (AddSession (NewManager sample_info) 0),
     nd_stores = \<lparr>so_kv = New node_opts, so_peers = Some ({}, {}), so_workers = Some {}\<rparr>,
     nd_fwd = newForwarder None None, nd_out = []\<rparr>"

lemma one_session_plain: "kv_plain (so_kv (nd_stores one_session))"
  using node_store_plain by (simp add: one_session_def node_store_def peers_NewStore_def)

lemma one_session_peer: "session_peer one_session 0 = ''n1''"
  by (simp add: one_session_def session_peer_def AddSession_def NewManager_def sample_info_def new_entry_def Let_def)

lemma one_session_canonical: "GetSession (nd_mgr one_session) p = (if p = ''n1'' then Some 0 else None)"
proof -
  have none: "GetSession (NewManager sample_info) q = None" for q by (simp add: NewManager_def GetSession_def)
  have "pi_ID (si_peer (mgr_sess (NewManager sample_info) 0)) = ''n1''"
    by (simp add: NewManager_def sample_info_def)
  then show ?thesis
    using AddSession_first(2) [of "NewManager sample_info" 0] none by (simp add: one_session_def)
qed

lemma soon_const: "soon 5 (\<lambda>j. 5)"
  by (simp add: soon_def defaultPeerTTL_def)

lemma hello_ack_unauthenticated_witness:
  "GetSession (nd_mgr (snd (handleHelloAck node_b 0 ''addr'' false_ack 5 (\<lambda>k j. 5) one_session))) ''victim'' = Some 0"
proof -
  have m: "ha_Meta false_ack = Some (zero_pb_meta\<lparr>pb_Id := ''victim'', pb_Pubkey := [6]\<rparr>)" by (simp add: false_ack_def)
  have "so_peers (nd_stores one_session) = Some ({}, {})" by (simp add: one_session_def)
  from hello_ack_unauthenticated [OF m, of one_session 0 node_b _ 5 "''addr''" "\<lambda>k j. 5" 5 "\<lambda>j. 5", OF _ _ _ _ _ this one_session_plain]
  show ?thesis
    by (simp add: zero_pb_meta_def one_session_peer one_session_canonical node_b_def pair_json_keeps soon_const)
      (metis prod.collapse)
qed

lemma status_acks_end_witness:
  "nd_out (session_message node_b 0 \<lparr>av_buf = [1], av_written = True, av_ids = [], av_targets = [], av_now = 5, av_clks = \<lambda>k j. 5\<rparr>
      one_session) = [] \<and>
   nd_fwd (session_message node_b 0 \<lparr>av_buf = [1], av_written = True, av_ids = [], av_targets = [], av_now = 5, av_clks = \<lambda>k j. 5\<rparr>
      one_session) = nd_fwd one_session"
proof -
  have k: "pb_keeps (ev_pb node_b) (status_envelope ''a'' ''b'' task_env ST_OK 5) [1]"
    using one_envelope_keeps [of ack_env] by (simp add: node_b_def ack_env_def)
  have o: "nd_out one_session = []" by (simp add: one_session_def)
  show ?thesis
    using status_acks_end [OF k, of "\<lparr>av_buf = [1], av_written = True, av_ids = [], av_targets = [], av_now = 5, av_clks = \<lambda>k j. 5\<rparr>" 0 one_session]
    by (simp add: o) (simp add: node_b_def)
qed

text \<open>The peer of the sample session with a record in the store.\<close>

definition known_peer :: Node where
  "known_peer = on_stores (\<lambda>S. S\<lparr>so_kv := snd (Set (so_kv S) (keyPeer ''n1'')
     (js_Marshal (pj_meta (ev_peers node_b)) (ack_meta false_ack 5)) 0 1)\<rparr>) one_session"

theorem end_forgets_live_peer_witness:
  "fst (peers_Get (ev_peers node_b) (store_view (nd_stores known_peer)) ''n1'' (\<lambda>j. 5)) = Some (ack_meta false_ack 5) \<and>
   GetSession (nd_mgr (session_end node_b ''n1'' [] (\<lambda>k j. 5) known_peer)) ''n1'' = Some 0 \<and>
   fst (peers_Get (ev_peers node_b) (store_view (nd_stores (session_end node_b ''n1'' [] (\<lambda>k j. 5) known_peer))) ''n1'' (\<lambda>j. 5)) = None"
proof
  let ?b = "js_Marshal (pj_meta (ev_peers node_b)) (ack_meta false_ack 5)"
  let ?kv = "snd (Set (so_kv (nd_stores one_session)) (keyPeer ''n1'') ?b 0 1)"
  have kv: "so_kv (nd_stores known_peer) = ?kv" and i: "so_peers (nd_stores known_peer) = Some ({}, {})"
    and g: "GetSession (nd_mgr known_peer) ''n1'' = Some 0"
    using one_session_canonical [of "''n1''"] by (simp_all add: known_peer_def one_session_def)
  have "fst (Get ?kv (keyPeer ''n1'') 5 5) = Some ?b" by (rule memkv.set_get_forever [OF one_session_plain])
  moreover have "js_Unmarshal (pj_meta (ev_peers node_b)) ?b = (ack_meta false_ack 5, True)"
    using pair_json_keeps(1) by (simp add: node_b_def js_keeps_def)
  ultimately show "fst (peers_Get (ev_peers node_b) (store_view (nd_stores known_peer)) ''n1'' (\<lambda>j. 5)) =
      Some (ack_meta false_ack 5)"
    by (cases "Get ?kv (keyPeer ''n1'') 5 5") (simp add: peers_Get_def store_view_def peers_view_def i kv)
  have plain: "kv_plain (so_kv (nd_stores known_peer))" unfolding kv by (rule memkv.set_inv [OF one_session_plain])
  from end_forgets_live_peer [OF i plain _ _ g, of node_b "[]" "\<lambda>k j. 5" "\<lambda>j. 5"]
  show "GetSession (nd_mgr (session_end node_b ''n1'' [] (\<lambda>k j. 5) known_peer)) ''n1'' = Some 0 \<and>
      fst (peers_Get (ev_peers node_b) (store_view (nd_stores (session_end node_b ''n1'' [] (\<lambda>k j. 5) known_peer))) ''n1'' (\<lambda>j. 5)) = None"
    by (simp add: node_b_def)
qed

end
