(* ===== verification/Config.thy ===== *)
theory Config
  imports Handshake
begin

text \<open>
  The configuration (\<open>pkg/config\<close>) and the logger it sets up (\<open>pkg/observability/logger.go\<close>).
  Reading and decoding files and environment is \<open>github.com/spf13/viper\<close>: the parameter \<open>viper\<close>;
  a logger is the list of its cores, each with an encoder, a sink and a level. Lemmas: validation is
  a normalisation, and which configurations the logger reads as they were validated.
\<close>

section \<open>Data\<close>

record RotationConfig =
  ro_Enable :: bool
  ro_Filename :: string
  ro_MaxSizeMB :: int
  ro_MaxBackups :: int
  ro_MaxAgeDays :: int
  ro_Compress :: bool

record LogConfig =
  lc_Level :: string
  lc_Format :: string
  lc_Outputs :: "string list"
  lc_Rotation :: RotationConfig
  lc_Development :: bool

record PeerDialConfig =
  pd_Address :: string
  pd_PeerID :: string

text \<open>The reserved map of extra options is not read by any code.\<close>

record TransportConfig =
  tc_Kind :: string
  tc_Listen :: "string list"
  tc_Dial :: "PeerDialConfig list"

record NetConfig =
  nc_DialBackoffInitialMS :: int
  nc_DialBackoffMaxMS :: int
  nc_DialBackoffJitterMS :: int

record Config =
  cf_AppName :: string
  cf_DataDir :: string
  cf_NodeID :: string
  cf_Log :: LogConfig
  cf_Transports :: "TransportConfig list"
  cf_Identity :: IdentityConfig
  cf_Net :: NetConfig

definition Default :: Config where
  "Default = \<lparr>cf_AppName = ''ttmesh-node'', cf_DataDir = ''./data'', cf_NodeID = ''node-1'',
     cf_Log = \<lparr>lc_Level = ''info'', lc_Format = ''console'', lc_Outputs = [''stdout''],
       lc_Rotation = \<lparr>ro_Enable = False, ro_Filename = ''logs/ttmesh.log'', ro_MaxSizeMB = 50, ro_MaxBackups = 3,
         ro_MaxAgeDays = 28, ro_Compress = True\<rparr>,
       lc_Development = True\<rparr>,
     cf_Transports = [\<lparr>tc_Kind = ''udp'', tc_Listen = ['':7777''], tc_Dial = []\<rparr>],
     cf_Identity = \<lparr>idc_Alg = ''ed25519'', idc_PrivateKey = [], idc_PrivateKeyFile = []\<rparr>,
     cf_Net = \<lparr>nc_DialBackoffInitialMS = 500, nc_DialBackoffMaxMS = 30000, nc_DialBackoffJitterMS = 100\<rparr>\<rparr>"

section \<open>Loading\<close>

datatype setting = SString string | SStrings "string list" | SBool bool | SInt int | STransports "TransportConfig list"

definition seed_defaults :: "Config \<Rightarrow> (string \<times> setting) list" where
  "seed_defaults cfg =
     (let lg = cf_Log cfg; ro = lc_Rotation lg; idt = cf_Identity cfg; net = cf_Net cfg in
      [(''app_name'', SString (cf_AppName cfg)),
       (''data_dir'', SString (cf_DataDir cfg)),
       (''node_id'', SString (cf_NodeID cfg)),
       (''log.level'', SString (lc_Level lg)),
       (''log.format'', SString (lc_Format lg)),
       (''log.outputs'', SStrings (lc_Outputs lg)),
       (''log.development'', SBool (lc_Development lg)),
       (''log.rotation.enable'', SBool (ro_Enable ro)),
       (''log.rotation.filename'', SString (ro_Filename ro)),
       (''log.rotation.max_size_mb'', SInt (ro_MaxSizeMB ro)),
       (''log.rotation.max_backups'', SInt (ro_MaxBackups ro)),
       (''log.rotation.max_age_days'', SInt (ro_MaxAgeDays ro)),
       (''log.rotation.compress'', SBool (ro_Compress ro)),
       (''transports'', STransports (cf_Transports cfg)),
       (''identity.alg'', SString (idc_Alg idt)),
       (''identity.private_key'', SString (idc_PrivateKey idt)),
       (''identity.private_key_file'', SString (idc_PrivateKeyFile idt)),
       (''net.dial_backoff_initial_ms'', SInt (nc_DialBackoffInitialMS net)),
       (''net.dial_backoff_max_ms'', SInt (nc_DialBackoffMaxMS net)),
       (''net.dial_backoff_jitter_ms'', SInt (nc_DialBackoffJitterMS net))])"

datatype config_source = ConfigFile string | SearchIn "string list"

text \<open>\<open>home\<close> is the directory \<open>.ttmesh\<close> of the user's home directory, if there is one.\<close>

definition choose_source :: "string \<Rightarrow> string \<Rightarrow> string option \<Rightarrow> config_source" where
  "choose_source path envPath home =
     (let path = (if path = [] \<and> envPath \<noteq> [] then envPath else path) in
      if path \<noteq> [] then ConfigFile path
      else SearchIn ([''.'', ''./configs''] @ (case home of None \<Rightarrow> [] | Some d \<Rightarrow> [d])))"

datatype read_result = ReadOk | NotFound | ReadError string

text \<open>\<open>vp_Unmarshal\<close> overwrites the fields of a configuration with what file, environment and
  defaults say.\<close>

record viper =
  vp_ReadInConfig :: "config_source \<Rightarrow> read_result"
  vp_Unmarshal :: "(string \<times> setting) list \<Rightarrow> config_source \<Rightarrow> Config \<Rightarrow> string + Config"

datatype config_error = ReadFailed string | DecodeFailed string | InvalidLevel string

definition level_names :: "string set" where
  "level_names = {''debug'', ''info'', ''warn'', ''warning'', ''error''}"

definition validate :: "Config \<Rightarrow> config_error + Config" where
  "validate c =
     (let lvl = ToLower (TrimSpace (lc_Level (cf_Log c))) in
      if lvl \<notin> level_names then Inl (InvalidLevel (lc_Level (cf_Log c)))
      else
        let lg = cf_Log c;
            lg = (if lc_Format lg = [] then lg\<lparr>lc_Format := ''console''\<rparr> else lg);
            lg = (if lc_Outputs lg = [] then lg\<lparr>lc_Outputs := [''stdout'']\<rparr> else lg);
            c = c\<lparr>cf_Log := lg\<rparr>;
            c = (if TrimSpace (cf_NodeID c) = [] then c\<lparr>cf_NodeID := ''node-1''\<rparr> else c)
        in Inr (c\<lparr>cf_Transports := map (\<lambda>t. t\<lparr>tc_Kind := ToLower (TrimSpace (tc_Kind t))\<rparr>) (cf_Transports c)\<rparr>))"

definition Load :: "viper \<Rightarrow> string \<Rightarrow> string \<Rightarrow> string option \<Rightarrow> config_error + Config" where
  "Load V path envPath home =
     (let cfg = Default; src = choose_source path envPath home in
      case vp_ReadInConfig V src of
        ReadError e \<Rightarrow> Inl (ReadFailed e)
      | _ \<Rightarrow>
          (case vp_Unmarshal V (seed_defaults cfg) src cfg of
             Inl e \<Rightarrow> Inl (DecodeFailed e)
           | Inr cfg \<Rightarrow> validate cfg))"

text \<open>\<open>None\<close> is the panic.\<close>

definition MustLoad :: "viper \<Rightarrow> string \<Rightarrow> string \<Rightarrow> string option \<Rightarrow> Config option" where
  "MustLoad V path envPath home = (case Load V path envPath home of Inl e \<Rightarrow> None | Inr c \<Rightarrow> Some c)"

section \<open>The logger\<close>

datatype Level = DebugLevel | InfoLevel | WarnLevel | ErrorLevel

definition log_level :: "string \<Rightarrow> Level" where
  "log_level s =
     (let l = ToLower s in
      if l = ''debug'' then DebugLevel
      else if l = ''info'' then InfoLevel
      else if l = ''warn'' \<or> l = ''warning'' then WarnLevel
      else if l = ''error'' then ErrorLevel
      else InfoLevel)"

datatype Encoder = JSONEncoder bool | ConsoleEncoder bool

record lumberjack =
  lj_Filename :: string
  lj_MaxSize :: int
  lj_MaxBackups :: int
  lj_MaxAge :: int
  lj_Compress :: bool

datatype Sink = Stdout | Stderr | Rotated lumberjack | AppendFile string

definition go_max :: "int \<Rightarrow> int \<Rightarrow> int" where
  "go_max a b = (if a > b then a else b)"

definition chooseFilename :: "string \<Rightarrow> LogConfig \<Rightarrow> string" where
  "chooseFilename out c =
     (if ro_Enable (lc_Rotation c) \<and> TrimSpace (ro_Filename (lc_Rotation c)) \<noteq> []
      then ro_Filename (lc_Rotation c) else out)"

definition is_sep :: "char \<Rightarrow> bool" where
  "is_sep c \<longleftrightarrow> c = CHR ''/'' \<or> c = CHR 0x5C"

text \<open>The index of the last separator, \<open>-1\<close> when there is none.\<close>

fun last_sep :: "string \<Rightarrow> int" where
  "last_sep [] = -1"
| "last_sep (c # cs) =
     (let i = last_sep cs in if i \<ge> 0 then i + 1 else if is_sep c then 0 else -1)"

definition dirOf :: "string \<Rightarrow> string" where
  "dirOf path = (let i = last_sep path in if i \<le> 0 then [] else take (nat i) path)"

text \<open>\<open>openable\<close>: which files can be opened once the directory was created, if it could be.\<close>

definition log_sink :: "(string \<Rightarrow> string \<Rightarrow> bool) \<Rightarrow> LogConfig \<Rightarrow> string \<Rightarrow> Sink" where
  "log_sink openable c out =
     (if ToLower out = ''stdout'' then Stdout
      else if ToLower out = ''stderr'' then Stderr
      else if ro_Enable (lc_Rotation c) then
        Rotated \<lparr>lj_Filename = chooseFilename out c, lj_MaxSize = go_max (ro_MaxSizeMB (lc_Rotation c)) 10,
          lj_MaxBackups = go_max (ro_MaxBackups (lc_Rotation c)) 1, lj_MaxAge = go_max (ro_MaxAgeDays (lc_Rotation c)) 7,
          lj_Compress = ro_Compress (lc_Rotation c)\<rparr>
      else if openable (dirOf out) out then AppendFile out else Stderr)"

definition log_encoder :: "LogConfig \<Rightarrow> Encoder" where
  "log_encoder c = (if ToLower (lc_Format c) = ''json'' then JSONEncoder (lc_Development c) else ConsoleEncoder (lc_Development c))"

definition SetupLogger :: "(string \<Rightarrow> string \<Rightarrow> bool) \<Rightarrow> LogConfig \<Rightarrow> (Encoder \<times> Sink \<times> Level) list" where
  "SetupLogger openable c = map (\<lambda>out. (log_encoder c, log_sink openable c out, log_level (lc_Level c))) (lc_Outputs c)"

section \<open>Starting a node\<close>

text \<open>The node id a node runs under: the configured one, unless it is missing or the default.\<close>

definition run_node_id :: "Config \<Rightarrow> PeerID \<Rightarrow> Config" where
  "run_node_id cfg canonicalID =
     (if cf_NodeID cfg = [] \<or> cf_NodeID cfg = ''node-1'' then cfg\<lparr>cf_NodeID := canonicalID\<rparr> else cfg)"

section \<open>Properties\<close>

lemma lower_kind: "ToLower (TrimSpace (ToLower (TrimSpace k))) = ToLower (TrimSpace k)"
  by (simp add: TrimSpace_trimmed trimmed_TrimSpace)

text \<open>The configuration that validation leaves.\<close>

definition normal :: "Config \<Rightarrow> Config" where
  "normal c = c\<lparr>
     cf_Log := (cf_Log c)\<lparr>lc_Format := (if lc_Format (cf_Log c) = [] then ''console'' else lc_Format (cf_Log c)),
       lc_Outputs := (if lc_Outputs (cf_Log c) = [] then [''stdout''] else lc_Outputs (cf_Log c))\<rparr>,
     cf_NodeID := (if TrimSpace (cf_NodeID c) = [] then ''node-1'' else cf_NodeID c),
     cf_Transports := map (\<lambda>t. t\<lparr>tc_Kind := ToLower (TrimSpace (tc_Kind t))\<rparr>) (cf_Transports c)\<rparr>"

lemma normal_parts [simp]:
  "lc_Level (cf_Log (normal c)) = lc_Level (cf_Log c)" "lc_Format (cf_Log (normal c)) \<noteq> []"
  "lc_Outputs (cf_Log (normal c)) \<noteq> []"
  "cf_Transports (normal c) = map (\<lambda>t. t\<lparr>tc_Kind := ToLower (TrimSpace (tc_Kind t))\<rparr>) (cf_Transports c)"
  by (simp_all add: normal_def)

lemma normal_NodeID: "TrimSpace (cf_NodeID (normal c)) \<noteq> []"
proof -
  have "TrimSpace ''node-1'' = ''node-1''" by (rule TrimSpace_printable) (simp_all add: printable_def)
  then show ?thesis by (simp add: normal_def)
qed

lemma validate_normal:
  "validate c = (if ToLower (TrimSpace (lc_Level (cf_Log c))) \<in> level_names then Inr (normal c)
     else Inl (InvalidLevel (lc_Level (cf_Log c))))"
  by (cases c, cases "cf_Log c") (simp add: validate_def normal_def Let_def)

lemma normal_idem: "normal (normal c) = normal c"
proof -
  have "normal d = d" if "lc_Format (cf_Log d) \<noteq> []" "lc_Outputs (cf_Log d) \<noteq> []" "TrimSpace (cf_NodeID d) \<noteq> []"
      "map (\<lambda>t. t\<lparr>tc_Kind := ToLower (TrimSpace (tc_Kind t))\<rparr>) (cf_Transports d) = cf_Transports d" for d
    using that by (simp add: normal_def)
  then show ?thesis using normal_NodeID by (simp add: lower_kind o_def)
qed

text \<open>
  C33: validation is a normalisation: what it accepts it accepts again, unchanged; the result has a
  format, an output, a node id that is not blank, and transport kinds in lower case without
  surrounding spaces.
\<close>

theorem validate_normalises:
  assumes "validate c = Inr c'"
  shows "validate c' = Inr c' \<and> lc_Format (cf_Log c') \<noteq> [] \<and> lc_Outputs (cf_Log c') \<noteq> [] \<and>
    TrimSpace (cf_NodeID c') \<noteq> [] \<and> list_all (\<lambda>t. ToLower (TrimSpace (tc_Kind t)) = tc_Kind t) (cf_Transports c')"
proof -
  have c': "c' = normal c" "ToLower (TrimSpace (lc_Level (cf_Log c))) \<in> level_names"
    using assms by (simp_all add: validate_normal split: if_splits)
  have "list_all (\<lambda>t. ToLower (TrimSpace (tc_Kind t)) = tc_Kind t) (cf_Transports c')"
    by (simp add: c'(1) list_all_iff lower_kind)
  then show ?thesis using c'(2) normal_NodeID by (simp add: c'(1) validate_normal normal_idem)
qed

lemma level_names_trimmed: "l \<in> level_names \<Longrightarrow> TrimSpace l = l"
  unfolding level_names_def by (elim insertE emptyE) (simp_all add: TrimSpace_printable printable_def)

lemma log_level_unknown: "ToLower l \<notin> level_names \<Longrightarrow> log_level l = InfoLevel"
  by (simp add: log_level_def level_names_def Let_def)

text \<open>
  Validation trims the level before it looks at it, the logger does not: a configuration whose
  level has surrounding spaces is accepted, whatever the level, and every core of its logger is
  given the level info.
\<close>

theorem padded_level_ignored:
  assumes "TrimSpace (lc_Level (cf_Log c)) \<noteq> lc_Level (cf_Log c)" "validate c = Inr c'"
  shows "set (map (snd \<circ> snd) (SetupLogger openable (cf_Log c'))) = {InfoLevel}"
proof -
  let ?l = "lc_Level (cf_Log c)"
  have c': "c' = normal c" using assms(2) by (simp add: validate_normal split: if_splits)
  have "ToLower ?l \<notin> level_names"
  proof
    assume "ToLower ?l \<in> level_names"
    then have "trimmed (ToLower ?l)" using level_names_trimmed trimmed_TrimSpace by metis
    then show False using assms(1) by (simp add: TrimSpace_trimmed)
  qed
  then show ?thesis
    using normal_parts(3) [of c] by (cases "lc_Outputs (cf_Log c')") (auto simp: SetupLogger_def log_level_unknown c')
qed

text \<open>
  With rotation enabled and a file name configured for it, which the defaults do, every output
  that is a file is written to that one name, through a rotating writer each: the paths listed as
  outputs are not used.
\<close>

theorem rotation_replaces_outputs:
  assumes "ro_Enable (lc_Rotation c)" "TrimSpace (ro_Filename (lc_Rotation c)) \<noteq> []"
    and "ToLower a \<notin> {''stdout'', ''stderr''}"
  shows "\<exists>w. log_sink openable c a = Rotated w \<and> lj_Filename w = ro_Filename (lc_Rotation c) \<and>
    10 \<le> lj_MaxSize w \<and> 1 \<le> lj_MaxBackups w \<and> 7 \<le> lj_MaxAge w"
  using assms by (auto simp: log_sink_def chooseFilename_def go_max_def)

section \<open>The properties at work\<close>

definition padded_config :: Config where
  "padded_config = Default\<lparr>cf_Log := (cf_Log Default)\<lparr>lc_Level := '' error''\<rparr>\<rparr>"

lemma trim_error: "TrimSpace '' error'' = ''error''"
  by code_simp

lemma padded_valid: "validate padded_config = Inr (normal padded_config)"
  by (simp add: validate_normal padded_config_def trim_error ToLower_def lower_char_def level_names_def)

lemma validate_normalises_witness: "validate (normal padded_config) = Inr (normal padded_config)"
  using validate_normalises [OF padded_valid] by simp

lemma padded_level_ignored_witness:
  "set (map (snd \<circ> snd) (SetupLogger (\<lambda>d f. True) (cf_Log (normal padded_config)))) = {InfoLevel}"
  by (rule padded_level_ignored [OF _ padded_valid]) (simp add: padded_config_def trim_error)

lemma rotation_replaces_outputs_witness:
  "\<exists>w. log_sink (\<lambda>d f. True) ((cf_Log Default)\<lparr>lc_Rotation := (lc_Rotation (cf_Log Default))\<lparr>ro_Enable := True\<rparr>\<rparr>) ''my.log'' = Rotated w \<and>
    lj_Filename w = ''logs/ttmesh.log''"
proof -
  have "TrimSpace ''logs/ttmesh.log'' = ''logs/ttmesh.log''" by (rule TrimSpace_printable) (simp_all add: printable_def)
  then show ?thesis
    using rotation_replaces_outputs [of "(cf_Log Default)\<lparr>lc_Rotation := (lc_Rotation (cf_Log Default))\<lparr>ro_Enable := True\<rparr>\<rparr>" "''my.log''" "\<lambda>d f. True"]
    by (auto simp: Default_def ToLower_def lower_char_def)
qed

end
