(* ===== verification/Netstack.thy ===== *)
theory Netstack
  imports Peering Config
begin

text \<open>
  Bringing sessions up (\<open>pkg/core/netstack\<close>): the body of the accept loop, the dial loop with its
  back-off, the Hello the dialer sends, the start from the configuration; and the node as a whole, a
  run of events in any order. Durations and times are nanoseconds. Lemmas: the schedule of the
  back-off, both ends of a handshake, and which documents a node can come to hold.
\<close>

section \<open>Transports by name\<close>

datatype kind_error = ErrUnknownKind string | WinPipeUnsupported

text \<open>
  The kind of the transport made; \<open>windows\<close>: whether the build is for Windows, elsewhere the
  named-pipe transport is a stub that fails.
\<close>

definition newWinPipeTransport :: "bool \<Rightarrow> kind_error + Kind" where
  "newWinPipeTransport windows = (if windows then Inr KindWinPipe else Inl WinPipeUnsupported)"

definition NewByKind :: "bool \<Rightarrow> string \<Rightarrow> kind_error + Kind" where
  "NewByKind windows kind =
     (if kind = ''udp'' then Inr KindUDP
      else if kind = ''tcp'' then Inr KindTCPDirect
      else if kind = ''quic'' \<or> kind = ''h3'' \<or> kind = ''http3'' then Inr KindQUICDirect
      else if kind = ''mem'' \<or> kind = ''inproc'' \<or> kind = ''shared'' then Inr KindMem
      else if kind = ''winpipe'' \<or> kind = ''pipe'' then newWinPipeTransport windows
      else Inl (ErrUnknownKind kind))"

section \<open>Starting from the configuration\<close>

text \<open>
  What is started: the listeners in the order they were opened, the dial loops. \<open>listens k a\<close> says
  whether listening on address \<open>a\<close> succeeds. \<open>nm_active\<close> counts listeners and dials at the return
  of the function, before any loop has ended.
\<close>

record net_Manager =
  nm_listeners :: "(Kind \<times> string) list"
  nm_dials :: "(Kind \<times> PeerDialConfig) list"
  nm_activeListeners :: int
  nm_activeDials :: int

definition start_listeners :: "(Kind \<Rightarrow> string \<Rightarrow> bool) \<Rightarrow> Kind \<Rightarrow> string list \<Rightarrow> net_Manager \<Rightarrow> net_Manager" where
  "start_listeners listens k addrs nm =
     foldl (\<lambda>nm addr. if \<not> listens k addr then nm
       else nm\<lparr>nm_listeners := nm_listeners nm @ [(k, addr)], nm_activeListeners := nm_activeListeners nm + 1\<rparr>) nm addrs"

definition start_dials :: "Kind \<Rightarrow> PeerDialConfig list \<Rightarrow> net_Manager \<Rightarrow> net_Manager" where
  "start_dials k ds nm =
     foldl (\<lambda>nm d. nm\<lparr>nm_dials := nm_dials nm @ [(k, d)], nm_activeDials := nm_activeDials nm + 1\<rparr>) nm ds"

definition start_transport :: "bool \<Rightarrow> (Kind \<Rightarrow> string \<Rightarrow> bool) \<Rightarrow> net_Manager \<Rightarrow> TransportConfig \<Rightarrow> net_Manager" where
  "start_transport windows listens nm tc =
     (case NewByKind windows (tc_Kind tc) of
        Inl e \<Rightarrow> nm
      | Inr k \<Rightarrow> start_dials k (tc_Dial tc) (start_listeners listens k (tc_Listen tc) nm))"

definition StartFromConfig :: "bool \<Rightarrow> (Kind \<Rightarrow> string \<Rightarrow> bool) \<Rightarrow> TransportConfig list \<Rightarrow> net_Manager" where
  "StartFromConfig windows listens cfg =
     foldl (start_transport windows listens)
       \<lparr>nm_listeners = [], nm_dials = [], nm_activeListeners = 0, nm_activeDials = 0\<rparr> cfg"

text \<open>The order in which the returned function closes the listeners.\<close>

definition close_order :: "net_Manager \<Rightarrow> (Kind \<times> string) list" where
  "close_order nm = rev (nm_listeners nm)"

section \<open>Back-off\<close>

record net_Options =
  no_BackoffInitial :: int
  no_BackoffMax :: int
  no_BackoffJitter :: int

definition initial_backoff :: "net_Options \<Rightarrow> int" where
  "initial_backoff opts = (if no_BackoffInitial opts \<le> 0 then 500000000 else no_BackoffInitial opts)"

definition max_backoff :: "net_Options \<Rightarrow> int" where
  "max_backoff opts = (if no_BackoffMax opts \<le> 0 then 30000000000 else no_BackoffMax opts)"

definition withJitter :: "int \<Rightarrow> int \<Rightarrow> int \<Rightarrow> int" where
  "withJitter d jitter now = (if jitter \<le> 0 then d else i64 (d + go_mod now jitter))"

definition grow :: "int \<Rightarrow> int \<Rightarrow> int" where
  "grow maxBackoff b =
     (if b < maxBackoff then let b = i64 (b * 2) in if b > maxBackoff then maxBackoff else b else b)"

text \<open>
  How a turn of the dial loop ends: no connection, a session the manager refused, or one that was
  handled until it ended. \<open>dial_turn\<close> gives the time slept, if any, and the next value of
  \<open>backoff\<close>.
\<close>

datatype dial_outcome = DialFailed | Refused | Served

definition dial_turn :: "net_Options \<Rightarrow> int \<Rightarrow> dial_outcome \<Rightarrow> int \<Rightarrow> int option \<times> int" where
  "dial_turn opts b out now =
     (case out of
        DialFailed \<Rightarrow> (Some (withJitter b (no_BackoffJitter opts) now), grow (max_backoff opts) b)
      | Refused \<Rightarrow> let b = initial_backoff opts in (Some (withJitter b (no_BackoffJitter opts) now), grow (max_backoff opts) b)
      | Served \<Rightarrow> (None, initial_backoff opts))"

fun dial_turns :: "net_Options \<Rightarrow> int \<Rightarrow> (dial_outcome \<times> int) list \<Rightarrow> int option list" where
  "dial_turns opts b [] = []"
| "dial_turns opts b ((out, now) # xs) =
     (case dial_turn opts b out now of (slept, b) \<Rightarrow> slept # dial_turns opts b xs)"

definition dialLoop :: "net_Options \<Rightarrow> (dial_outcome \<times> int) list \<Rightarrow> int option list" where
  "dialLoop opts xs = dial_turns opts (initial_backoff opts) xs"

section \<open>The Hello of the dialer\<close>

datatype send_error = OpenFailed | RandFailed | MarshalFailed | WriteFailed

definition hello_envelope :: "string \<Rightarrow> byte list \<Rightarrow> byte list \<Rightarrow> int \<Rightarrow> byte list \<Rightarrow> PbEnvelope" where
  "hello_envelope nodeName pub nonce ts sig = control_envelope (CHello
     \<lparr>he_NodeName = nodeName, he_Alg = ''ed25519'', he_Pubkey = pub, he_Nonce = nonce, he_TsUnixMs = ts,
      he_Sig = sig, he_Meta = None\<rparr>)"

text \<open>
  The result is the error or what was sent; the outer option is a panic. Without a key nothing is
  sent and that is no error.
\<close>

definition sendHello ::
  "ed25519 \<Rightarrow> pb_codec \<Rightarrow> byte list option \<Rightarrow> string \<Rightarrow> bool \<Rightarrow> byte list option \<Rightarrow> int \<Rightarrow> bool \<Rightarrow>
   (send_error + byte list option) option" where
  "sendHello ed C priv nodeName opened nonce now written =
     (case priv of
        None \<Rightarrow> Some (Inr None)
      | Some priv \<Rightarrow>
          if \<not> opened then Some (Inl OpenFailed)
          else case ed_Public priv of
            None \<Rightarrow> None
          | Some pub \<Rightarrow>
              let ts = unixMilli now in
              (case nonce of
                 None \<Rightarrow> Some (Inl RandFailed)
               | Some nonce \<Rightarrow>
                   (case SignEd25519 ed priv (sendHello_transcript pub nonce ts nodeName) of
                      None \<Rightarrow> None
                    | Some sig \<Rightarrow>
                        (case pb_Marshal C (hello_envelope nodeName pub nonce ts sig) of
                           None \<Rightarrow> Some (Inl MarshalFailed)
                         | Some b \<Rightarrow> if written then Some (Inr (Some b)) else Some (Inl WriteFailed)))))"

section \<open>New sessions\<close>

definition note_session ::
  "NodeEnv \<Rightarrow> PeerID \<Rightarrow> string \<Rightarrow> Quality \<Rightarrow> (nat \<Rightarrow> clock) \<Rightarrow> PeerStore \<Rightarrow> PeerStore" where
  "note_session E pid raddr q clks ps =
     (let J = ev_peers E; local = ev_localID E;
          ps = Touch J ps pid raddr (Some (clks 0 4)) (clks 0);
          ps = RecordQuality J ps pid q (clks 1)
      in if local \<noteq> [] then AddConnectedDirect J ps local pid (clks 2) else ps)"

text \<open>The accept loop's treatment of a session; the result says whether it is going to be handled.\<close>

definition accept_session ::
  "NodeEnv \<Rightarrow> sid \<Rightarrow> string \<Rightarrow> Quality \<Rightarrow> (nat \<Rightarrow> clock) \<Rightarrow> Node \<Rightarrow> bool \<times> Node" where
  "accept_session E s raddr q clks n =
     (let pid = session_peer n s in
      case AddSession (nd_mgr n) s of
        ((accepted, replaced, old), m) \<Rightarrow>
          let m = (if replaced then (case old of None \<Rightarrow> m | Some o' \<Rightarrow> sess_Close m o') else m) in
          if \<not> accepted then (False, n\<lparr>nd_mgr := sess_Close m s\<rparr>)
          else (True, on_stores (on_peers (note_session E pid raddr q clks)) (n\<lparr>nd_mgr := m\<rparr>)))"

text \<open>The loop itself: \<open>None\<close> is an error of \<open>Accept\<close>, on which it ends. The result lists the sessions
  for which a handler is started.\<close>

fun acceptLoop ::
  "NodeEnv \<Rightarrow> (sid \<times> string \<times> Quality \<times> (nat \<Rightarrow> clock)) option list \<Rightarrow> Node \<Rightarrow> sid list \<times> Node" where
  "acceptLoop E [] n = ([], n)"
| "acceptLoop E (None # xs) n = ([], n)"
| "acceptLoop E (Some (s, raddr, q, clks) # xs) n =
     (case accept_session E s raddr q clks n of
        (ok, n) \<Rightarrow> (case acceptLoop E xs n of (ss, n) \<Rightarrow> (if ok then s # ss else ss, n)))"

text \<open>
  The dial loop's, up to the call of \<open>HandleSession\<close>: \<open>pid\<close> is the configured id of the peer or,
  without one, a temporary id; the store is told of the session even if the manager refused it.
\<close>

definition dial_peer :: "Kind \<Rightarrow> string \<Rightarrow> string \<Rightarrow> PeerID" where
  "dial_peer k address peerID = (if peerID = [] then ''temp:'' @ Kind_String k @ '':'' @ address else peerID)"

definition dial_session ::
  "NodeEnv \<Rightarrow> sid \<Rightarrow> PeerID \<Rightarrow> string \<Rightarrow> Quality \<Rightarrow> (nat \<Rightarrow> clock) \<Rightarrow> Node \<Rightarrow> bool \<times> Node" where
  "dial_session E s pid raddr q clks n =
     (case AddSession (nd_mgr n) s of
        ((accepted, replaced, old), m) \<Rightarrow>
          let m = (case old of None \<Rightarrow> m | Some o' \<Rightarrow> sess_Close m o');
              n = on_stores (on_peers (note_session E pid raddr q clks)) (n\<lparr>nd_mgr := m\<rparr>)
          in if accepted then (True, n) else (False, n\<lparr>nd_mgr := sess_Close (nd_mgr n) s\<rparr>))"

section \<open>Events\<close>

text \<open>
  What can happen at a node, in any order: sessions come in or are dialled, their messages arrive,
  they end; a worker of the forwarding queue accounts for an item; the router reads the store; the
  key-value store expires entries.
\<close>

datatype node_event =
    EvAccept sid string Quality "nat \<Rightarrow> clock"
  | EvDial sid PeerID string Quality "nat \<Rightarrow> clock"
  | EvFirst sid string arrival
  | EvMessage sid arrival
  | EvEnd PeerID "PeerID list" "nat \<Rightarrow> clock"
  | EvSent PeerID uint64 clock
  | EvLookup PeerID clock
  | EvCandidates string clock
  | EvExpire int int

fun node_exec :: "NodeEnv \<Rightarrow> Node \<Rightarrow> node_event \<Rightarrow> Node" where
  "node_exec E n (EvAccept s raddr q clks) = snd (accept_session E s raddr q clks n)"
| "node_exec E n (EvDial s pid raddr q clks) = snd (dial_session E s pid raddr q clks n)"
| "node_exec E n (EvFirst s raddr a) = snd (session_first E s raddr a n)"
| "node_exec E n (EvMessage s a) = session_message E s a n"
| "node_exec E n (EvEnd pid ids clks) = session_end E pid ids clks n"
| "node_exec E n (EvSent pid bytes clk) =
     on_stores (on_peers (\<lambda>ps. RecordExchange (ev_peers E) ps pid 0 bytes 0 1 clk)) n"
| "node_exec E n (EvLookup pid clk) = on_stores (on_peers (\<lambda>ps. snd (peers_Get (ev_peers E) ps pid clk))) n"
| "node_exec E n (EvCandidates t clk) = on_stores (on_peers (\<lambda>ps. snd (GetRouteCandidates (ev_peers E) ps t clk))) n"
| "node_exec E n (EvExpire now nowN) = on_stores (\<lambda>S. S\<lparr>so_kv := snd (expirer_turn (so_kv S) now nowN)\<rparr>) n"

definition node_run :: "NodeEnv \<Rightarrow> Node \<Rightarrow> node_event list \<Rightarrow> Node" where
  "node_run E n evs = foldl (node_exec E) n evs"

text \<open>The ids the first messages claim, with proof or without.\<close>

definition claimed :: "NodeEnv \<Rightarrow> node_event list \<Rightarrow> PeerID set" where
  "claimed E evs = (\<Union>ev\<in>set evs. case ev of EvFirst s raddr a \<Rightarrow> claims E a | _ \<Rightarrow> {})"

text \<open>A node as it starts, with an empty key-value store shared by peers and workers.\<close>

definition start_node :: "Options \<Rightarrow> (sid \<Rightarrow> SessInfo) \<Rightarrow> protoForwarder \<Rightarrow> Node" where
  "start_node opts sess fwd = \<lparr>nd_mgr = NewManager sess,
     nd_stores = \<lparr>so_kv = New opts, so_peers = Some ({}, {}), so_workers = Some {}\<rparr>, nd_fwd = fwd, nd_out = []\<rparr>"

section \<open>Runs of a node are runs of its store\<close>

lemma runs_note_session: "runs (ev_peers E) U ps (note_session E pid raddr q clks ps)"
  unfolding note_session_def Let_def
  by (auto intro!: runs_ops intro: runs_trans [OF runs_trans [OF runs_ops(1) runs_ops(7)] runs_ops(2)]
      runs_trans [OF runs_ops(1) runs_ops(7)])

lemma moves_note:
  assumes "nd_stores n' = on_peers (note_session E pid raddr q clks) (nd_stores n)"
  shows "moves E U n n'"
proof -
  have "moves E U n (on_stores (on_peers (note_session E pid raddr q clks)) n)"
    by (rule moves_on_peers) (rule runs_note_session)
  then show ?thesis by (simp add: moves_def assms)
qed

lemma moves_accept_session: "moves E U n (snd (accept_session E s raddr q clks n))"
  by (auto simp: accept_session_def Let_def intro: moves_note moves_stores split: prod.split)

lemma moves_dial_session: "moves E U n (snd (dial_session E s pid raddr q clks n))"
  by (auto simp: dial_session_def Let_def intro: moves_note split: prod.split)

lemma moves_exec: "moves E (claimed E [ev]) n (node_exec E n ev)"
proof (cases ev)
  case (EvExpire now nowN)
  have "store_view (nd_stores n)\<lparr>pst_kv := k\<rparr> = store_view ((nd_stores n)\<lparr>so_kv := k\<rparr>)" for k
    by (simp add: store_view_def peers_view_def)
  then show ?thesis
    using runs_kv(5) [of "ev_peers E" "claimed E [ev]" "store_view (nd_stores n)" now nowN] EvExpire
    by (simp add: moves_def)
qed (auto simp: claimed_def moves_accept_session moves_dial_session moves_session_first moves_session_message
    moves_session_end intro!: moves_on_peers runs_ops)

lemma moves_run: "moves E (claimed E evs) n (node_run E n evs)"
proof (induction evs arbitrary: n)
  case Nil
  then show ?case by (simp add: node_run_def)
next
  case (Cons ev evs)
  have "claimed E [ev] \<subseteq> claimed E (ev # evs)" "claimed E evs \<subseteq> claimed E (ev # evs)" by (auto simp: claimed_def)
  then have "moves E (claimed E (ev # evs)) n (node_exec E n ev)"
    "moves E (claimed E (ev # evs)) (node_exec E n ev) (node_run E (node_exec E n ev) evs)"
    using moves_mono [OF moves_exec] moves_mono [OF Cons.IH] by blast+
  then show ?case using moves_trans by (fastforce simp: node_run_def)
qed

lemma start_view: "store_view (nd_stores (start_node opts sess fwd)) = peers_NewStore (New opts)"
  by (simp add: start_node_def store_view_def peers_view_def peers_NewStore_def)

text \<open>So a run of a node is a run of the peer store that upserts claimed ids only.\<close>

lemma node_store_run:
  assumes "n = node_run E (start_node opts sess fwd) evs"
  obtains ops where "upserted ops \<subseteq> claimed E evs"
    "store_view (nd_stores n) = peers_run (ev_peers E) (peers_NewStore (New opts)) ops"
  using moves_run [of E evs "start_node opts sess fwd"] that
  unfolding moves_def runs_def assms start_view by blast

section \<open>The schedule of the back-off\<close>

text \<open>The number of doublings in effect after some turns, and the back-off after so many.\<close>

fun failures :: "nat \<Rightarrow> dial_outcome list \<Rightarrow> nat" where
  "failures k [] = k"
| "failures k (DialFailed # xs) = failures (Suc k) xs"
| "failures k (Refused # xs) = failures 1 xs"
| "failures k (Served # xs) = failures 0 xs"

definition backoff_after :: "net_Options \<Rightarrow> nat \<Rightarrow> int" where
  "backoff_after opts k =
     (if initial_backoff opts \<le> max_backoff opts then min (initial_backoff opts * 2 ^ k) (max_backoff opts)
      else initial_backoff opts)"

lemma backoff_after_0 [simp]: "backoff_after opts 0 = initial_backoff opts"
  by (simp add: backoff_after_def)

lemma initial_backoff_pos: "0 < initial_backoff opts"
  by (simp add: initial_backoff_def)

lemma grow_after:
  assumes "max_backoff opts < 2 ^ 62"
  shows "grow (max_backoff opts) (backoff_after opts k) = backoff_after opts (Suc k)"
proof (cases "initial_backoff opts \<le> max_backoff opts")
  case True
  let ?b = "initial_backoff opts * 2 ^ k"
  have b: "0 < ?b" "initial_backoff opts * 2 ^ Suc k = ?b * 2" using initial_backoff_pos [of opts] by simp_all
  have "i64 (?b * 2) = ?b * 2" if "?b < max_backoff opts" using that assms b(1) by (intro i64_id) simp
  then show ?thesis using True b(1) unfolding backoff_after_def b(2) grow_def Let_def by (auto simp: min_def)
qed (simp add: backoff_after_def grow_def)

lemma dial_turns_nth:
  assumes "max_backoff opts < 2 ^ 62" "i < length xs"
  shows "dial_turns opts (backoff_after opts k) xs ! i =
    (case fst (xs ! i) of
       DialFailed \<Rightarrow> Some (withJitter (backoff_after opts (failures k (map fst (take i xs)))) (no_BackoffJitter opts) (snd (xs ! i)))
     | Refused \<Rightarrow> Some (withJitter (initial_backoff opts) (no_BackoffJitter opts) (snd (xs ! i)))
     | Served \<Rightarrow> None)"
  using assms(2)
proof (induction xs arbitrary: i k)
  case (Cons x xs)
  obtain out now where x: "x = (out, now)" by (cases x)
  have g: "grow (max_backoff opts) (backoff_after opts j) = backoff_after opts (Suc j)" for j
    by (rule grow_after [OF assms(1)])
  show ?case
  proof (cases i)
    case 0
    then show ?thesis by (cases out) (simp_all add: x dial_turn_def Let_def)
  next
    case (Suc j)
    then have j: "j < length xs" using Cons.prems by simp
    obtain slept where next_b: "dial_turn opts (backoff_after opts k) out now = (slept, backoff_after opts (failures k [out]))"
      using g [of k] g [of 0] by (cases out) (simp_all add: dial_turn_def Let_def)
    have f: "failures k (map fst (take i (x # xs))) = failures (failures k [out]) (map fst (take j xs))"
      by (cases out) (simp_all add: Suc x)
    have "dial_turns opts (backoff_after opts k) (x # xs) ! i = dial_turns opts (backoff_after opts (failures k [out])) xs ! j"
      by (simp add: Suc x next_b)
    moreover have n: "(x # xs) ! i = xs ! j" by (simp add: Suc)
    ultimately show ?thesis unfolding Cons.IH [OF j, of "failures k [out]"] f n by simp
  qed
qed simp

lemma go_mod_bound: "0 < m \<Longrightarrow> 0 \<le> n \<Longrightarrow> 0 \<le> go_mod n m \<and> go_mod n m < m"
  by (simp add: go_mod_def go_div_nonneg minus_mult_div_eq_mod)

text \<open>
  C32: the dial loop sleeps, after a failed dial, the initial back-off doubled once per failure
  since the last session and never more than the maximum (plus the jitter); a session that was
  dialled but refused by the manager is always followed by the initial back-off, so being refused
  again and again does not slow the loop down; a session that was served is followed by no sleep.
\<close>

theorem backoff_schedule:
  assumes "max_backoff opts < 2 ^ 62" "i < length xs"
  shows "dialLoop opts xs ! i =
    (case fst (xs ! i) of
       DialFailed \<Rightarrow> Some (withJitter (backoff_after opts (failures 0 (map fst (take i xs)))) (no_BackoffJitter opts) (snd (xs ! i)))
     | Refused \<Rightarrow> Some (withJitter (initial_backoff opts) (no_BackoffJitter opts) (snd (xs ! i)))
     | Served \<Rightarrow> None)"
  using dial_turns_nth [OF assms, of 0] by (simp add: dialLoop_def)

text \<open>
  No sleep of the loop is shorter than the initial back-off, or, where that is larger, than the
  maximum, nor as long as their larger one plus the jitter, for clocks after 1970.
\<close>

theorem sleep_bounds:
  assumes "max_backoff opts < 2 ^ 61" "initial_backoff opts < 2 ^ 61" "no_BackoffJitter opts < 2 ^ 61"
    and "list_all (\<lambda>x. 0 \<le> snd x) xs" "Some d \<in> set (dialLoop opts xs)"
  shows "initial_backoff opts \<le> d \<and> d \<le> max (initial_backoff opts) (max_backoff opts) + max 0 (no_BackoffJitter opts)"
proof -
  have m: "max_backoff opts < 2 ^ 62" using assms(1) by simp
  have len: "length (dial_turns opts b ys) = length ys" for b ys
    by (induction opts b ys rule: dial_turns.induct) (simp_all split: prod.split)
  obtain i where i: "i < length xs" "dialLoop opts xs ! i = Some d"
    using assms(5) unfolding in_set_conv_nth dialLoop_def len by blast
  have b: "initial_backoff opts \<le> backoff_after opts k" "backoff_after opts k \<le> max (initial_backoff opts) (max_backoff opts)" for k
    using initial_backoff_pos [of opts] by (auto simp: backoff_after_def min_def mult_le_cancel_left1)
  have t: "0 \<le> snd (xs ! i)" using assms(4) i(1) by (simp add: list_all_length)
  have j: "c \<le> withJitter c (no_BackoffJitter opts) (snd (xs ! i)) \<and>
      withJitter c (no_BackoffJitter opts) (snd (xs ! i)) \<le> c + max 0 (no_BackoffJitter opts)"
    if "0 \<le> c" "c \<le> max (initial_backoff opts) (max_backoff opts)" for c
  proof (cases "no_BackoffJitter opts \<le> 0")
    case False
    then have g: "0 \<le> go_mod (snd (xs ! i)) (no_BackoffJitter opts)" "go_mod (snd (xs ! i)) (no_BackoffJitter opts) < no_BackoffJitter opts"
      using go_mod_bound [of "no_BackoffJitter opts" "snd (xs ! i)"] t by simp_all
    have "c < 2 ^ 61" using that(2) assms(1,2) by linarith
    then have "i64 (c + go_mod (snd (xs ! i)) (no_BackoffJitter opts)) = c + go_mod (snd (xs ! i)) (no_BackoffJitter opts)"
      using g that(1) assms(3) by (intro i64_id) simp
    then show ?thesis using g False by (simp add: withJitter_def)
  qed (simp add: withJitter_def)
  show ?thesis
  proof (cases "fst (xs ! i)")
    case DialFailed
    let ?c = "backoff_after opts (failures 0 (map fst (take i xs)))"
    have "d = withJitter ?c (no_BackoffJitter opts) (snd (xs ! i))"
      using dial_turns_nth [OF m i(1), of 0] i(2) DialFailed by (simp add: dialLoop_def)
    then show ?thesis using j [of ?c] b [of "failures 0 (map fst (take i xs))"] initial_backoff_pos [of opts] by linarith
  next
    case Refused
    have "d = withJitter (initial_backoff opts) (no_BackoffJitter opts) (snd (xs ! i))"
      using dial_turns_nth [OF m i(1), of 0] i(2) Refused by (simp add: dialLoop_def)
    then show ?thesis using j [of "initial_backoff opts"] initial_backoff_pos [of opts] by linarith
  next
    case Served
    then show ?thesis using dial_turns_nth [OF m i(1), of 0] i(2) by (simp add: dialLoop_def)
  qed
qed

section \<open>The whole node\<close>

lemma node_peers_only:
  assumes "opt_Shards opts < 2 ^ 63" "opt_MaxBytes opts = 0" "opt_ExpireJitter opts = 0"
    and "n = node_run E (start_node opts sess fwd) evs"
  shows "peers_only (claimed E evs) (store_view (nd_stores n))"
proof -
  obtain ops where ops: "upserted ops \<subseteq> claimed E evs"
      "store_view (nd_stores n) = peers_run (ev_peers E) (peers_NewStore (New opts)) ops"
    using node_store_run [OF assms(4)] .
  have "peers_only (upserted ops) (store_view (nd_stores n))"
    using only_run [OF only_NewStore [OF assms(1-3)], where J = "ev_peers E" and ops = ops] ops(2) by simp
  moreover have "keyPeer ` upserted ops \<union> range reg_key \<subseteq> keyPeer ` claimed E evs \<union> range reg_key" using ops(1) by blast
  ultimately show ?thesis unfolding peers_only_def by (meson subset_trans)
qed

text \<open>
  C26: in every state a node can reach, by sessions, messages, registry requests and expirations in
  any order, there is no document of a peer unless the first message of some session claimed its
  id: with a Hello whose signature verified, or with a HelloAck, which needs none. Transport-level
  contact, forwarded traffic and registrations never create one.
\<close>

theorem node_documents_claimed:
  assumes "opt_Shards opts < 2 ^ 63" "opt_MaxBytes opts = 0" "opt_ExpireJitter opts = 0"
    and "n = node_run E (start_node opts sess fwd) evs" "q \<notin> claimed E evs"
  shows "fst (peers_Get (ev_peers E) (store_view (nd_stores n)) q clk) = None"
proof -
  note o = node_peers_only [OF assms(1-4)]
  then have "kv_plain (pst_kv (store_view (nd_stores n)))" unfolding peers_only_def by (elim conjE)
  from absent_reads(4) [OF this only_absent(3) [OF o assms(5)]] show ?thesis .
qed

text \<open>
  C27: a node routes nothing until a peer claims the node's own id: after any run of events in which
  no first message claims it, every send through the router, to whatever target and over whatever
  sessions, fails with \<open>ErrNoRoute\<close> and gives the bytes to no session.
\<close>

theorem node_without_own_claim_routes_nothing:
  assumes "opt_Shards opts < 2 ^ 63" "opt_MaxBytes opts = 0" "opt_ExpireJitter opts = 0"
    and "n = node_run E (start_node opts sess fwd) evs" "ev_localID E \<notin> claimed E evs" "range_order nbs"
  shows "fst (SendBytesToPeer (ev_peers E) (store_view (nd_stores n)) (nd_mgr n) qual (ev_localID E) ids nbs clk
    open_err send_err target b) = Some (Some ErrNoRoute, None)"
proof -
  obtain ops where ops: "upserted ops \<subseteq> claimed E evs"
      "store_view (nd_stores n) = peers_run (ev_peers E) (peers_NewStore (New opts)) ops"
    using node_store_run [OF assms(4)] .
  have "ev_localID E \<notin> upserted ops" using ops(1) assms(5) by blast
  from no_route_sent [OF assms(1-3) ops(2) this assms(6)] show ?thesis .
qed

lemma only_GetRouteCandidates:
  assumes "peers_only U ps"
  shows "fst (GetRouteCandidates J ps t clk) = [] \<and> peers_only U (snd (GetRouteCandidates J ps t clk))"
proof -
  have p: "kv_plain (pst_kv ps)" using assms by (simp add: peers_only_def)
  have "fst (Get (pst_kv ps) (keyRouteCands t) (clk 1) (clk 2)) = None"
    by (rule memkv.get_absent [OF p only_absent(2) [OF assms]])
  moreover have "peers_only U (ps\<lparr>pst_kv := snd (Get (pst_kv ps) (keyRouteCands t) (clk 1) (clk 2))\<rparr>)"
    using only_Get [OF assms] .
  ultimately show ?thesis by (auto simp: GetRouteCandidates_def Let_def split: prod.split)
qed

lemma routes_candidates_none:
  "peers_only U ps \<Longrightarrow> fst (routes_candidates J ps ts clks out) = out"
proof (induction J ps ts clks out rule: routes_candidates.induct)
  case (2 J ps t ts clks out)
  obtain cs ps' where g: "GetRouteCandidates J ps t (clks 0) = (cs, ps')" by (cases "GetRouteCandidates J ps t (clks 0)")
  have "cs = []" "peers_only U ps'" using only_GetRouteCandidates [OF "2.prems", of J t "clks 0"] g by simp_all
  then show ?case using "2.IH" [OF g [symmetric]] g by simp
qed simp

lemma routes_peers_listed:
  "peers_only U ps \<Longrightarrow> ry_Candidates out = [] \<Longrightarrow>
   ry_Candidates (fst (routes_peers J ps ids clks out)) = [] \<and> peers_only U (snd (routes_peers J ps ids clks out)) \<and>
   length (ry_Peers (fst (routes_peers J ps ids clks out))) \<le> length (ry_Peers out) + length (filter (\<lambda>i. i \<in> U) ids)"
proof (induction J ps ids clks out rule: routes_peers.induct)
  case (2 J ps i ids clks out)
  obtain r ps' where g: "peers_Get J ps i (clks 0) = (r, ps')" by (cases "peers_Get J ps i (clks 0)")
  have p: "kv_plain (pst_kv ps)" using "2.prems"(1) by (simp add: peers_only_def)
  have "peers_only U (ps\<lparr>pst_kv := snd (Get (pst_kv ps) (keyPeer i) (clks 0 0) (clks 0 1))\<rparr>)"
    using only_Get [OF "2.prems"(1)] .
  then have o: "peers_only U ps'" using g by (auto simp: peers_Get_def split: prod.splits option.splits)
  have none: "r = None" if "i \<notin> U"
    using absent_reads(4) [OF p only_absent(3) [OF "2.prems"(1) that], of J "clks 0"] g by simp
  show ?case
  proof (cases r)
    case None
    then show ?thesis using "2.IH"(1) [OF g [symmetric] None o "2.prems"(2)] g by auto
  next
    case (Some pm)
    then have "i \<in> U" using none by blast
    then show ?thesis using "2.IH"(2) [OF g [symmetric] Some o] "2.prems"(2) g Some by simp
  qed
qed simp

text \<open>
  The routes a node reports are never learned ones: in every state a node can reach, the answer
  to a GetRoutes request holds no route candidate, and no more peers than the listed ids that were
  claimed.
\<close>

theorem routes_reply_learns_nothing:
  assumes "opt_Shards opts < 2 ^ 63" "opt_MaxBytes opts = 0" "opt_ExpireJitter opts = 0"
    and "n = node_run E (start_node opts sess fwd) evs"
  shows "ry_Candidates (fst (buildRoutesReply (ev_peers E) (nd_stores n) ids targets clks)) = [] \<and>
    length (ry_Peers (fst (buildRoutesReply (ev_peers E) (nd_stores n) ids targets clks))) \<le>
      length (filter (\<lambda>i. i \<in> claimed E evs) ids)"
proof (cases "so_peers (nd_stores n)")
  case None
  then show ?thesis by (simp add: buildRoutesReply_def empty_reply_def)
next
  case (Some ix)
  have v: "peers_view (so_kv (nd_stores n)) ix = store_view (nd_stores n)" by (simp add: store_view_def Some)
  obtain out ps where r: "routes_peers (ev_peers E) (store_view (nd_stores n)) ids clks empty_reply = (out, ps)"
    by (cases "routes_peers (ev_peers E) (store_view (nd_stores n)) ids clks empty_reply")
  have e: "ry_Candidates empty_reply = []" "ry_Peers empty_reply = []" by (simp_all add: empty_reply_def)
  note l = routes_peers_listed [OF node_peers_only [OF assms] e(1), of "ev_peers E" ids clks, unfolded r fst_conv snd_conv]
  have "fst (buildRoutesReply (ev_peers E) (nd_stores n) ids targets clks) = out\<lparr>ry_Targets := ry_Targets out @ targets\<rparr>"
    using routes_candidates_none [OF conjunct1 [OF conjunct2 [OF l]]] r
    by (auto simp: buildRoutesReply_def Some v split: prod.split) (metis fst_conv)
  then show ?thesis using l e(2) by simp
qed

section \<open>A handshake\<close>

text \<open>The Hello of the dialer, with the key \<open>priv\<close>.\<close>

definition own_hello :: "ed25519 \<Rightarrow> byte list \<Rightarrow> string \<Rightarrow> byte list \<Rightarrow> int \<Rightarrow> PeerHello" where
  "own_hello ed priv name nonce ts =
     \<lparr>he_NodeName = name, he_Alg = ''ed25519'', he_Pubkey = drop 32 priv, he_Nonce = nonce, he_TsUnixMs = ts,
      he_Sig = ed_Sign ed priv (sendHello_transcript (drop 32 priv) nonce ts name), he_Meta = None\<rparr>"

lemma sendHello_sends:
  assumes "length priv = PrivateKeySize" "pb_Marshal C (control_envelope (CHello (own_hello ed priv name nonce (unixMilli now)))) = Some b"
  shows "sendHello ed C (Some priv) name True (Some nonce) now True = Some (Inr (Some b))"
  using assms by (simp add: sendHello_def ed_Public_key SignEd25519_def hello_envelope_def own_hello_def Let_def)

lemma own_hello_verifies:
  assumes "ed_law ed" "length priv = PrivateKeySize" "\<bar>later - ts\<bar> \<le> 300000"
  shows "VerifyHello ed (hello_of (own_hello ed priv name nonce ts)) 0 later =
    Inr (CanonicalPeerIDFromPubKey ''ed25519'' (drop 32 priv))"
proof -
  have pub: "ed_Public priv = Some (drop 32 priv)" by (rule ed_Public_key [OF assms(2)])
  have "i64 (later - ts) = later - ts" using assms(3) by (intro i64_id) auto
  then show ?thesis
    using assms length_ed_Public [OF pub] pub
    by (simp add: VerifyHello_Inr [OF default_skew] hello_of_def own_hello_def sendHello_transcript_agrees ed_law_def)
qed

lemma control_parts [simp]: "GetControl (control_envelope k) = Some (Some k)"
  by (simp add: control_envelope_def GetControl_def)

lemma first_Hello:
  assumes "pb_Unmarshal (ev_pb E) (av_buf a) = Some (control_envelope (CHello he))"
    and "VerifyHello (ev_ed E) (hello_of he) 0 (unixMilli (av_now a)) = Inr pid" "pid \<noteq> []" "pid \<noteq> session_peer n s"
    and "GetSession (nd_mgr n) (session_peer n s) = Some s" "GetSession (nd_mgr n) pid = None"
    and "pb_Marshal (ev_pb E) (control_envelope (CHelloAck (hello_ack E pid (hello_of he) (av_now a)))) = Some b" "av_written a"
  shows "fst (session_first E s raddr a n) = pid" "nd_out (snd (session_first E s raddr a n)) = nd_out n @ [(s, b)]"
    "GetSession (nd_mgr (snd (session_first E s raddr a n))) pid = Some s"
proof -
  have g: "GetSession (snd (RebindPeer (nd_mgr n) (session_peer n s) pid)) pid = Some s"
    using assms(3-6) by (intro rebind_free) auto
  show "fst (session_first E s raddr a n) = pid" "nd_out (snd (session_first E s raddr a n)) = nd_out n @ [(s, b)]"
    "GetSession (nd_mgr (snd (session_first E s raddr a n))) pid = Some s"
    using g by (simp_all add: session_first_def assms(1,2,7,8) handleHello_def send_ack_def Let_def)
qed

lemma first_HelloAck:
  assumes "pb_Unmarshal (ev_pb E) (av_buf a) = Some (control_envelope (CHelloAck ack))" "ha_Meta ack = Some m"
    and "pb_Id m \<noteq> []" "pb_Id m \<noteq> session_peer n s"
    and "GetSession (nd_mgr n) (session_peer n s) = Some s" "GetSession (nd_mgr n) (pb_Id m) = None"
  shows "fst (session_first E s raddr a n) = pb_Id m"
    "GetSession (nd_mgr (snd (session_first E s raddr a n))) (pb_Id m) = Some s"
proof -
  have g: "GetSession (snd (RebindPeer (nd_mgr n) (session_peer n s) (pb_Id m))) (pb_Id m) = Some s"
    using assms(3-6) by (intro rebind_free) auto
  show "fst (session_first E s raddr a n) = pb_Id m"
    "GetSession (nd_mgr (snd (session_first E s raddr a n))) (pb_Id m) = Some s"
    using g assms(3) by (simp_all add: session_first_def assms(1,2) handleHelloAck_def Let_def)
qed

text \<open>
  C29: a handshake between honest nodes binds both ends: the dialer's Hello, sent with a 64-byte key
  by a clock within five minutes, makes the responder run its session under the id of that key and
  answer; the answer, arriving as the first message at the dialer, makes the dialer run its session
  under the id the responder goes by. That id is the responder's configured one; nothing ties it to
  the responder's key. The codec is relied upon for the two envelopes.
\<close>

theorem handshake_binds_both:
  assumes "ed_law (ev_ed B)" "length priv = PrivateKeySize" "\<bar>unixMilli (av_now aB) - unixMilli sent\<bar> \<le> 300000"
    and "h = own_hello (ev_ed B) priv name nonce (unixMilli sent)"
    and "pid = CanonicalPeerIDFromPubKey ''ed25519'' (drop 32 priv)"
    and "pb_keeps (ev_pb B) (control_envelope (CHello h)) (av_buf aB)"
    and "pb_keeps (ev_pb B) (control_envelope (CHelloAck (hello_ack B pid (hello_of h) (av_now aB)))) (av_buf aA)"
    and "ev_pb A = ev_pb B" "ev_localID B \<noteq> []" "av_written aB"
    and "GetSession (nd_mgr nB) (session_peer nB sB) = Some sB" "GetSession (nd_mgr nB) pid = None" "pid \<noteq> session_peer nB sB"
    and "GetSession (nd_mgr nA) (session_peer nA sA) = Some sA" "GetSession (nd_mgr nA) (ev_localID B) = None"
      "ev_localID B \<noteq> session_peer nA sA"
  shows "sendHello (ev_ed B) (ev_pb A) (Some priv) name True (Some nonce) sent True = Some (Inr (Some (av_buf aB))) \<and>
    fst (session_first B sB addrB aB nB) = pid \<and>
    GetSession (nd_mgr (snd (session_first B sB addrB aB nB))) pid = Some sB \<and>
    nd_out (snd (session_first B sB addrB aB nB)) = nd_out nB @ [(sB, av_buf aA)] \<and>
    fst (session_first A sA addrA aA nA) = ev_localID B \<and>
    GetSession (nd_mgr (snd (session_first A sA addrA aA nA))) (ev_localID B) = Some sA"
proof -
  have pid: "pid \<noteq> []" by (simp add: assms(5) CanonicalPeerIDFromPubKey_def)
  have V: "VerifyHello (ev_ed B) (hello_of h) 0 (unixMilli (av_now aB)) = Inr pid"
    using own_hello_verifies [OF assms(1-3)] by (simp add: assms(4,5))
  have kb: "pb_Unmarshal (ev_pb B) (av_buf aB) = Some (control_envelope (CHello h))"
      "pb_Marshal (ev_pb B) (control_envelope (CHello h)) = Some (av_buf aB)" using assms(6) by (simp_all add: pb_keeps_def)
  have ka: "pb_Unmarshal (ev_pb A) (av_buf aA) = Some (control_envelope (CHelloAck (hello_ack B pid (hello_of h) (av_now aB))))"
      "pb_Marshal (ev_pb B) (control_envelope (CHelloAck (hello_ack B pid (hello_of h) (av_now aB)))) = Some (av_buf aA)"
    using assms(7,8) by (simp_all add: pb_keeps_def)
  obtain m where m: "ha_Meta (hello_ack B pid (hello_of h) (av_now aB)) = Some m" "pb_Id m = ev_localID B"
    by (simp add: hello_ack_def)
  have s: "sendHello (ev_ed B) (ev_pb A) (Some priv) name True (Some nonce) sent True = Some (Inr (Some (av_buf aB)))"
    using kb(2) assms(4,8) by (intro sendHello_sends [OF assms(2)]) simp
  note b = first_Hello [OF kb(1) V pid assms(13,11,12) ka(2) assms(10)]
  note a = first_HelloAck [OF ka(1) m(1), unfolded m(2), OF assms(9,16,14,15)]
  show ?thesis using s b a by blast
qed

section \<open>Starting\<close>

lemma start_listeners_eq:
  "start_listeners listens k addrs nm = nm\<lparr>nm_listeners := nm_listeners nm @ map (Pair k) (filter (listens k) addrs),
     nm_activeListeners := nm_activeListeners nm + int (length (filter (listens k) addrs))\<rparr>"
  unfolding start_listeners_def by (induction addrs arbitrary: nm) simp_all

lemma start_dials_eq:
  "start_dials k ds nm = nm\<lparr>nm_dials := nm_dials nm @ map (Pair k) ds, nm_activeDials := nm_activeDials nm + int (length ds)\<rparr>"
  unfolding start_dials_def by (induction ds arbitrary: nm) simp_all

definition started :: "bool \<Rightarrow> (Kind \<Rightarrow> string \<Rightarrow> bool) \<Rightarrow> TransportConfig \<Rightarrow> (Kind \<times> string) list \<times> (Kind \<times> PeerDialConfig) list" where
  "started windows listens tc =
     (case NewByKind windows (tc_Kind tc) of
        Inl e \<Rightarrow> ([], [])
      | Inr k \<Rightarrow> (map (Pair k) (filter (listens k) (tc_Listen tc)), map (Pair k) (tc_Dial tc)))"

text \<open>
  The start opens, for every transport of a known kind and in the order of the configuration,
  the listeners that can be opened and all dial loops, skips the rest without an error, counts what
  it started, and closes the listeners in the reverse order.
\<close>

theorem start_opens_configured:
  "nm_listeners (StartFromConfig windows listens cfg) = concat (map (fst \<circ> started windows listens) cfg) \<and>
   nm_dials (StartFromConfig windows listens cfg) = concat (map (snd \<circ> started windows listens) cfg) \<and>
   nm_activeListeners (StartFromConfig windows listens cfg) = int (length (nm_listeners (StartFromConfig windows listens cfg))) \<and>
   nm_activeDials (StartFromConfig windows listens cfg) = int (length (nm_dials (StartFromConfig windows listens cfg))) \<and>
   close_order (StartFromConfig windows listens cfg) = rev (concat (map (fst \<circ> started windows listens) cfg))"
proof -
  have "nm_listeners (foldl (start_transport windows listens) nm cfg) = nm_listeners nm @ concat (map (fst \<circ> started windows listens) cfg) \<and>
    nm_dials (foldl (start_transport windows listens) nm cfg) = nm_dials nm @ concat (map (snd \<circ> started windows listens) cfg) \<and>
    nm_activeListeners (foldl (start_transport windows listens) nm cfg) =
      nm_activeListeners nm + int (length (concat (map (fst \<circ> started windows listens) cfg))) \<and>
    nm_activeDials (foldl (start_transport windows listens) nm cfg) =
      nm_activeDials nm + int (length (concat (map (snd \<circ> started windows listens) cfg)))" for nm
    by (induction cfg arbitrary: nm)
      (simp_all add: start_transport_def started_def start_listeners_eq start_dials_eq split: sum.split)
  then show ?thesis by (simp add: StartFromConfig_def close_order_def)
qed

section \<open>The properties at work\<close>

definition default_net :: net_Options where
  "default_net = \<lparr>no_BackoffInitial = 500000000, no_BackoffMax = 30000000000, no_BackoffJitter = 0\<rparr>"

lemma backoff_schedule_witness:
  "dialLoop default_net (replicate 8 (DialFailed, 0)) ! 7 = Some 30000000000"
  using backoff_schedule [of default_net 7 "replicate 8 (DialFailed, 0)"]
  by (simp add: default_net_def max_backoff_def initial_backoff_def backoff_after_def withJitter_def numeral_eq_Suc)

lemma sleep_bounds_witness:
  "500000000 \<le> (1000000000 :: int) \<and> (1000000000 :: int) \<le> 30000000000"
proof -
  have "Some 1000000000 \<in> set (dialLoop default_net [(DialFailed, 0), (DialFailed, 0)])"
    by (simp add: dialLoop_def dial_turn_def default_net_def initial_backoff_def max_backoff_def withJitter_def grow_def Let_def i64_def)
  from sleep_bounds [OF _ _ _ _ this] show ?thesis
    by (simp add: default_net_def max_backoff_def initial_backoff_def)
qed

definition quiet_run :: "node_event list" where
  "quiet_run = [EvAccept 0 ''addr'' \<lparr>qu_RTT = 0, qu_LossRatio = 0, qu_Jitter = 0, qu_EstablishedAt = 0, qu_LastSeen = None, qu_Score = 0\<rparr> (\<lambda>k j. 5),
     EvFirst 0 ''addr'' \<lparr>av_buf = [2], av_written = True, av_ids = [], av_targets = [], av_now = 5, av_clks = \<lambda>k j. 5\<rparr>, EvExpire 6 6]"

lemma quiet_unclaimed: "claimed node_b quiet_run = {}"
  by (simp add: claimed_def quiet_run_def claims_def node_b_def one_envelope_def)

abbreviation quiet_node :: Node where
  "quiet_node \<equiv> node_run node_b (start_node node_opts sample_info (newForwarder None None)) quiet_run"

lemma node_documents_claimed_witness:
  "fst (peers_Get (ev_peers node_b) (store_view (nd_stores quiet_node)) ''n1'' (\<lambda>j. 7)) = None"
  by (rule node_documents_claimed [of node_opts, OF _ _ _ refl]) (simp_all add: node_opts_def quiet_unclaimed)

lemma node_without_own_claim_routes_nothing_witness:
  "fst (SendBytesToPeer (ev_peers node_b) (store_view (nd_stores quiet_node)) (nd_mgr quiet_node) calm (ev_localID node_b) [] sorted_order
     (\<lambda>j. 7) (\<lambda>s. None :: unit option) (\<lambda>s b. None) ''n1'' [1]) = Some (Some ErrNoRoute, None)"
  by (rule node_without_own_claim_routes_nothing [of node_opts, OF _ _ _ refl]) (simp_all add: node_opts_def quiet_unclaimed sorted_order_ok)

lemma routes_reply_learns_nothing_witness:
  "ry_Candidates (fst (buildRoutesReply (ev_peers node_b) (nd_stores quiet_node) [''n1''] [''n1''] (\<lambda>k j. 7))) = []"
  using routes_reply_learns_nothing [of node_opts quiet_node node_b sample_info "newForwarder None None" quiet_run "[''n1'']" "[''n1'']" "\<lambda>k j. 7"]
  by (simp add: node_opts_def)

text \<open>A codec for two envelopes, and both ends of a session.\<close>

definition two_envelopes :: "PbEnvelope \<Rightarrow> PbEnvelope \<Rightarrow> pb_codec" where
  "two_envelopes e f = \<lparr>pb_Marshal = (\<lambda>x. if x = e then Some [1] else if x = f then Some [2] else None),
     pb_Unmarshal = (\<lambda>b. if b = [1] then Some e else if b = [2] then Some f else None)\<rparr>"

lemma two_envelopes_keep: "pb_keeps (two_envelopes e f) e [1]" "e \<noteq> f \<Longrightarrow> pb_keeps (two_envelopes e f) f [2]"
  by (simp_all add: pb_keeps_def two_envelopes_def)

definition key_a :: "byte list" where "key_a = replicate 64 7"

definition hello_a :: PeerHello where "hello_a = own_hello sample_ed key_a ''A'' [1] (unixMilli 5)"

definition id_a :: PeerID where "id_a = CanonicalPeerIDFromPubKey ''ed25519'' (drop 32 key_a)"

definition ack_b :: PeerHelloAck where "ack_b = hello_ack node_b id_a (hello_of hello_a) 5"

definition end_b :: NodeEnv where
  "end_b = node_b\<lparr>ev_pb := two_envelopes (control_envelope (CHello hello_a)) (control_envelope (CHelloAck ack_b))\<rparr>"

definition arrives :: "byte list \<Rightarrow> arrival" where
  "arrives b = \<lparr>av_buf = b, av_written = True, av_ids = [], av_targets = [], av_now = 5, av_clks = \<lambda>k j. 5\<rparr>"

lemma id_a_not: "id_a \<noteq> ''n1''"
  by (simp add: id_a_def CanonicalPeerIDFromPubKey_def)

lemma handshake_binds_both_witness:
  "fst (session_first end_b 0 ''addr'' (arrives [1]) one_session) = id_a \<and>
   fst (session_first (end_b\<lparr>ev_localID := ''a''\<rparr>) 0 ''addr'' (arrives [2]) one_session) = ''b''"
proof -
  have k: "length key_a = PrivateKeySize" by (simp add: key_a_def PrivateKeySize_def)
  have ed: "ev_ed end_b = sample_ed" "ev_localID end_b = ''b''" by (simp_all add: end_b_def node_b_def)
  have ack: "hello_ack end_b id_a (hello_of hello_a) 5 = ack_b" by (simp add: ack_b_def hello_ack_def end_b_def)
  have "control_envelope (CHello hello_a) \<noteq> control_envelope (CHelloAck ack_b)" by (simp add: control_envelope_def)
  then have c: "pb_keeps (ev_pb end_b) (control_envelope (CHello hello_a)) [1]"
      "pb_keeps (ev_pb end_b) (control_envelope (CHelloAck ack_b)) [2]"
    by (simp_all add: end_b_def two_envelopes_keep)
  have a: "av_buf (arrives b) = b" "av_now (arrives b) = 5" "av_written (arrives b)" for b by (simp_all add: arrives_def)
  have "sendHello (ev_ed end_b) (ev_pb (end_b\<lparr>ev_localID := ''a''\<rparr>)) (Some key_a) ''A'' True (Some [1]) 5 True =
      Some (Inr (Some (av_buf (arrives [1])))) \<and>
    fst (session_first end_b 0 ''addr'' (arrives [1]) one_session) = id_a \<and>
    GetSession (nd_mgr (snd (session_first end_b 0 ''addr'' (arrives [1]) one_session))) id_a = Some 0 \<and>
    nd_out (snd (session_first end_b 0 ''addr'' (arrives [1]) one_session)) = nd_out one_session @ [(0, av_buf (arrives [2]))] \<and>
    fst (session_first (end_b\<lparr>ev_localID := ''a''\<rparr>) 0 ''addr'' (arrives [2]) one_session) = ev_localID end_b \<and>
    GetSession (nd_mgr (snd (session_first (end_b\<lparr>ev_localID := ''a''\<rparr>) 0 ''addr'' (arrives [2]) one_session))) (ev_localID end_b) = Some 0"
    by (rule handshake_binds_both [where h = hello_a])
      (simp_all add: ed a ack c k sample_ed_law hello_a_def [symmetric] id_a_def [symmetric] one_session_peer one_session_canonical id_a_not)
  then show ?thesis by (simp add: ed)
qed

end
