(* ===== verification/Links.thy ===== *)
theory Links
  imports Transport
begin

text \<open>
  Opening and closing links: dialling, listening and the accept loop of \<open>tcp.go\<close>, closed listeners
  of \<open>mem.go\<close>, and the datagram sessions of \<open>udp.go\<close> with the channels their receivers wait on. What the operating
  system answers (a bound address, a connection, a datagram, an error) is an argument.
\<close>

section \<open>TCP\<close>

definition tcp_Listen :: "(link_error + string) \<Rightarrow> link_error + Listener" where
  "tcp_Listen bound =
     (case bound of
        Inl err \<Rightarrow> Inl err
      | Inr a \<Rightarrow> Inr \<lparr>lis_name = a, lis_newCh = [], lis_closed = False\<rparr>)"

definition tcp_Dial :: "(link_error + Conn) \<Rightarrow> PeerInfo \<Rightarrow> int \<Rightarrow> link_error + session" where
  "tcp_Dial dialled peer now =
     (case dialled of
        Inl err \<Rightarrow> Inl err
      | Inr c \<Rightarrow> Inr \<lparr>ses_peer = peer, ses_kind = KindTCPDirect, ses_conn = c, ses_establishedAt = now, ses_lastSeen = 0\<rparr>)"

text \<open>The loop over what the inner listener's \<open>Accept\<close> returns; the sessions refused are returned.\<close>

fun tcp_acceptLoop ::
  "Listener \<Rightarrow> (link_error + string \<times> Conn \<times> int) list \<Rightarrow> Listener \<times> session list" where
  "tcp_acceptLoop l [] = (l, [])"
| "tcp_acceptLoop l (Inl err # as) = (l, [])"
| "tcp_acceptLoop l (Inr (raddr, c, now) # as) =
     (case acceptLoop_turn KindTCPDirect l raddr c now of
        (l', s) \<Rightarrow>
          (case tcp_acceptLoop l' as of
             (l'', refused) \<Rightarrow> (l'', if length (lis_newCh l) < 8 then refused else s # refused)))"

text \<open>What is accepted before anything is taken out: the first eight are kept, the others closed.\<close>

lemma tcp_acceptLoop_all:
  "(\<forall>a \<in> set as. \<exists>x. a = Inr x) \<Longrightarrow>
   (case tcp_acceptLoop l as of (l', refused) \<Rightarrow>
      length (lis_newCh l') = max (length (lis_newCh l)) (min 8 (length (lis_newCh l) + length as)) \<and>
      length refused + length (lis_newCh l') = length (lis_newCh l) + length as \<and>
      (\<forall>s \<in> set refused. conn_broken (ses_conn s)))"
proof (induction as arbitrary: l)
  case Nil
  then show ?case by simp
next
  case (Cons a as)
  then obtain raddr c now where a: "a = Inr (raddr, c, now)" by fastforce
  let ?l = "fst (acceptLoop_turn KindTCPDirect l raddr c now)"
  show ?case using Cons.IH [of ?l] Cons.prems
    by (auto simp: a acceptLoop_turn_def offer_def close_session_def split: prod.splits if_splits)
qed

section \<open>Listeners of the in-memory transport\<close>

text \<open>
  \<open>mem.go\<close> accepts and closes as \<open>tcp.go\<close> does. The transport and the acceptor hold the same listener,
  so \<open>Close\<close> is seen by the next \<open>Dial\<close>: here it acts on the listener stored under its name.
\<close>

definition mem_listener_Accept :: "bool \<Rightarrow> Listener \<Rightarrow> link_error + session \<Rightarrow> Listener \<Rightarrow> bool" where
  "mem_listener_Accept = Accept"

inductive_simps Accept_closed: "Accept c l (Inl ListenerClosed) l'"

definition mem_listener_Close :: "MemTransport \<Rightarrow> string \<Rightarrow> MemTransport" where
  "mem_listener_Close t name = t(name := map_option Listener_Close (t name))"

text \<open>
  A closed listener still takes calls: its name cannot be listened on, a dial succeeds with both
  ends open, and the session waits in the queue, where \<open>Accept\<close> may take it or report the closure.
\<close>

lemma mem_closed_listener_dials:
  assumes "mem_Listen t name = (t', Inr l)" "mem_Dial (mem_listener_Close t' name) name peer now = (u, res)"
  shows "snd (mem_Listen (mem_listener_Close t' name) name) = Inl ListenerExists \<and>
    (\<exists>cli srv l'. res = Inr (cli, srv) \<and> \<not> conn_broken (ses_conn cli) \<and> u name = Some l' \<and>
       (\<exists>m. mem_listener_Accept False l' (Inr srv) m) \<and>
       mem_listener_Accept False l' (Inl ListenerClosed) l')"
proof -
  have "t' name = Some l \<and> lis_newCh l = []"
    using assms(1) by (auto simp: mem_Listen_def Let_def split: if_splits)
  then show ?thesis
    using assms(2)
    by (auto simp: mem_Listen_def mem_Dial_def mem_listener_Close_def mem_listener_Accept_def offer_def new_conn_def
        Listener_Close_def Let_def Accept_Inr Accept_closed)
qed

text \<open>The end of the listener's context frees the name, and dialling fails.\<close>

lemma mem_ctx_done_frees:
  "snd (mem_Dial (mem_ctx_done t name) name peer now) = Inl NoSuchListener \<and>
   (\<exists>l. snd (mem_Listen (mem_ctx_done t name) name) = Inr l)"
  by (simp add: mem_Dial_def mem_Listen_def mem_ctx_done_def Let_def)

section \<open>Channels\<close>

text \<open>A Go channel with a buffer; receiving from an empty one that is not closed waits: \<open>None\<close>.\<close>

record chan =
  ch_items :: "byte list list"
  ch_cap :: nat
  ch_closed :: bool

definition make_chan :: "nat \<Rightarrow> chan" where
  "make_chan k = \<lparr>ch_items = [], ch_cap = k, ch_closed = False\<rparr>"

text \<open>\<open>select { case c <- x: default: }\<close>\<close>

definition chan_offer :: "chan \<Rightarrow> byte list \<Rightarrow> chan" where
  "chan_offer c x = (if length (ch_items c) < ch_cap c then c\<lparr>ch_items := ch_items c @ [x]\<rparr> else c)"

definition chan_recv :: "chan \<Rightarrow> (byte list option \<times> chan) option" where
  "chan_recv c =
     (case ch_items c of
        x # xs \<Rightarrow> Some (Some x, c\<lparr>ch_items := xs\<rparr>)
      | [] \<Rightarrow> if ch_closed c then Some (None, c) else None)"

lemma chan_offer_frame [simp]: "ch_cap (chan_offer c x) = ch_cap c" "ch_closed (chan_offer c x) = ch_closed c"
  by (simp_all add: chan_offer_def)

section \<open>Datagram sessions\<close>

text \<open>
  A session over a socket of its own (outbound), or one of the addresses of a listener. Beside
  the fields of \<open>udpSession\<close>: \<open>us_sock\<close> says whether the socket is open, \<open>us_held\<close> is what
  \<open>recvLoop\<close> has read and not yet passed on, \<open>us_reading\<close> whether it still runs, \<open>us_sent\<close> what
  was written.
\<close>

record udpSession =
  us_peer :: PeerInfo
  us_kind :: Kind
  us_raddr :: string
  us_outbound :: bool
  us_inboundRx :: chan
  us_rxCh :: chan
  us_once :: bool
  us_establishedAt :: int
  us_lastSeen :: int
  us_sock :: bool
  us_reading :: bool
  us_held :: "byte list option"
  us_sent :: "byte list list"

definition udp_Dial ::
  "(link_error + string) \<Rightarrow> link_error option \<Rightarrow> PeerInfo \<Rightarrow> int \<Rightarrow> link_error + udpSession" where
  "udp_Dial resolved dialled peer now =
     (case resolved of
        Inl err \<Rightarrow> Inl err
      | Inr raddr \<Rightarrow>
          (case dialled of
             Some err \<Rightarrow> Inl err
           | None \<Rightarrow> Inr \<lparr>us_peer = peer, us_kind = KindUDP, us_raddr = raddr, us_outbound = True,
               us_inboundRx = make_chan 0, us_rxCh = make_chan 16, us_once = False, us_establishedAt = now, us_lastSeen = 0,
               us_sock = True, us_reading = True, us_held = None, us_sent = []\<rparr>))"

text \<open>The session \<open>readLoop\<close> makes for a new address; its queue is the listener's.\<close>

definition udp_inbound :: "string \<Rightarrow> chan \<Rightarrow> int \<Rightarrow> udpSession" where
  "udp_inbound key rx now =
     \<lparr>us_peer = \<lparr>pi_ID = TempPeerID KindUDP (Some key), pi_Addr = key, pi_Reachable = False\<rparr>, us_kind = KindUDP,
      us_raddr = key, us_outbound = False, us_inboundRx = rx, us_rxCh = make_chan 1, us_once = False,
      us_establishedAt = now, us_lastSeen = 0, us_sock = True, us_reading = False, us_held = None, us_sent = []\<rparr>"

text \<open>The listener with its \<open>closeCh\<close>; of the ready cases of \<open>Accept\<close> any may be taken.\<close>

definition udp_Listen :: "(link_error + string) \<Rightarrow> link_error option \<Rightarrow> link_error + bool \<times> udpListener" where
  "udp_Listen resolved bound =
     (case resolved of
        Inl err \<Rightarrow> Inl err
      | Inr laddr \<Rightarrow> (case bound of Some err \<Rightarrow> Inl err | None \<Rightarrow> Inr (False, udp_start)))"

definition udp_listener_Close :: "link_error option \<Rightarrow> bool \<times> udpListener \<Rightarrow> link_error option \<times> bool \<times> udpListener" where
  "udp_listener_Close conn_err l = (conn_err, True, snd l)"

inductive udp_listener_Accept ::
  "bool \<Rightarrow> bool \<times> udpListener \<Rightarrow> link_error + string \<Rightarrow> bool \<times> udpListener \<Rightarrow> bool" for ctx_done where
  "ctx_done \<Longrightarrow> udp_listener_Accept ctx_done l (Inl CtxDone) l"
| "fst l \<Longrightarrow> udp_listener_Accept ctx_done l (Inl ListenerClosed) l"
| "udp_Accept (snd l) = Some (key, m) \<Longrightarrow> udp_listener_Accept ctx_done l (Inr key) (fst l, m)"

definition udp_Close :: "udpSession \<Rightarrow> udpSession" where
  "udp_Close s =
     (if us_once s then s
      else if us_outbound s then s\<lparr>us_once := True, us_sock := False\<rparr> else s\<lparr>us_once := True\<rparr>)"

text \<open>\<open>failed\<close> is the error of the socket, if it fails while open.\<close>

definition udp_SendBytes :: "udpSession \<Rightarrow> byte list \<Rightarrow> link_error option \<Rightarrow> int \<Rightarrow> link_error option \<times> udpSession" where
  "udp_SendBytes s b failed now =
     (let err = (if us_sock s then failed else Some (LinkIO ErrWrite)) in
      case err of
        None \<Rightarrow> (None, s\<lparr>us_sent := us_sent s @ [b], us_lastSeen := now\<rparr>)
      | Some e \<Rightarrow> (Some e, s))"

text \<open>\<open>None\<close>: the receiver waits. A nil packet is what a closed channel yields.\<close>

definition udpStream_RecvBytes :: "udpSession \<Rightarrow> int \<Rightarrow> ((link_error + byte list) \<times> udpSession) option" where
  "udpStream_RecvBytes s now =
     (case chan_recv (if us_outbound s then us_rxCh s else us_inboundRx s) of
        None \<Rightarrow> None
      | Some (pkt, c) \<Rightarrow>
          let s = (if us_outbound s then s\<lparr>us_rxCh := c\<rparr> else s\<lparr>us_inboundRx := c\<rparr>) in
          (case pkt of
             None \<Rightarrow> Some (Inl StreamClosed, s)
           | Some p \<Rightarrow> Some (Inr p, s\<lparr>us_lastSeen := now\<rparr>)))"

definition udpBuf :: nat where "udpBuf = 64 * 1024"

text \<open>The steps of an outbound session: its own goroutine's, and the calls of its user.\<close>

inductive udp_sess_step :: "udpSession \<Rightarrow> udpSession \<Rightarrow> bool" where
  udp_loop_read: "us_reading s \<Longrightarrow> us_held s = None \<Longrightarrow> us_sock s \<Longrightarrow>
     udp_sess_step s (s\<lparr>us_held := Some (take udpBuf pkt)\<rparr>)"
| udp_loop_put: "us_held s = Some pkt \<Longrightarrow>
     udp_sess_step s (s\<lparr>us_held := None, us_rxCh := chan_offer (us_rxCh s) pkt\<rparr>)"
| udp_loop_fail: "us_reading s \<Longrightarrow> us_held s = None \<Longrightarrow> udp_sess_step s (s\<lparr>us_reading := False\<rparr>)"
| udp_sess_close: "udp_sess_step s (udp_Close s)"
| udp_sess_send: "udp_sess_step s (snd (udp_SendBytes s b failed now))"
| udp_sess_recv: "udpStream_RecvBytes s now = Some (r, s') \<Longrightarrow> udp_sess_step s s'"
| udp_sess_peer: "udp_sess_step s (s\<lparr>us_peer := p\<rparr>)"

inductive_cases udp_sess_stepE: "udp_sess_step s s'"

lemmas udp_sess_defs = udp_Close_def udp_SendBytes_def udpStream_RecvBytes_def chan_recv_def chan_offer_def

definition udp_outbound_inv :: "udpSession \<Rightarrow> bool" where
  "udp_outbound_inv s \<longleftrightarrow> us_outbound s \<and> \<not> ch_closed (us_rxCh s) \<and> ch_cap (us_rxCh s) = 16 \<and>
     length (ch_items (us_rxCh s)) \<le> 16 \<and> (us_once s \<longleftrightarrow> \<not> us_sock s)"

lemma udp_outbound_step: "udp_sess_step s s' \<Longrightarrow> udp_outbound_inv s \<Longrightarrow> udp_outbound_inv s'"
  by (erule udp_sess_stepE)
    (auto simp: udp_outbound_inv_def udp_sess_defs Let_def split: if_splits option.splits list.splits)

lemma udp_outbound_run: "udp_sess_step\<^sup>*\<^sup>* s s' \<Longrightarrow> udp_outbound_inv s \<Longrightarrow> udp_outbound_inv s'"
  by (induction rule: rtranclp_induct) (auto intro: udp_outbound_step)

lemma udp_Dial_inv: "udp_Dial resolved dialled peer now = Inr s \<Longrightarrow> udp_outbound_inv s"
  by (auto simp: udp_Dial_def udp_outbound_inv_def make_chan_def split: sum.splits option.splits)

text \<open>Closed, and nothing left to receive.\<close>

definition udp_drained :: "udpSession \<Rightarrow> bool" where
  "udp_drained s \<longleftrightarrow> \<not> us_sock s \<and> us_held s = None \<and> ch_items (us_rxCh s) = []"

lemma udp_drained_step:
  "udp_sess_step s s' \<Longrightarrow> udp_outbound_inv s \<and> udp_drained s \<Longrightarrow> udp_outbound_inv s' \<and> udp_drained s'"
  by (erule udp_sess_stepE)
    (auto simp: udp_drained_def udp_outbound_inv_def udp_sess_defs Let_def split: if_splits option.splits list.splits)

lemma udp_drained_run:
  "udp_sess_step\<^sup>*\<^sup>* s s' \<Longrightarrow> udp_outbound_inv s \<and> udp_drained s \<Longrightarrow> udp_outbound_inv s' \<and> udp_drained s'"
  by (induction rule: rtranclp_induct) (auto dest: udp_drained_step)

section \<open>Properties\<close>

text \<open>
  C35: closing an outbound datagram session does not wake its receiver: \<open>RecvBytes\<close> never
  returns an error in any state a dialled session can reach, and once the session is closed and
  drained it waits for ever. The error "udp stream closed" cannot occur, because no one closes
  the channel.
\<close>

theorem udp_close_never_wakes:
  assumes "udp_Dial resolved dialled peer now = Inr s" "udp_sess_step\<^sup>*\<^sup>* s t"
  shows "(udpStream_RecvBytes t later = Some (r, t') \<longrightarrow> (\<exists>p. r = Inr p)) \<and>
    (us_once t \<longrightarrow> us_held t = None \<longrightarrow> ch_items (us_rxCh t) = [] \<longrightarrow>
      udp_sess_step\<^sup>*\<^sup>* t u \<longrightarrow> udpStream_RecvBytes u later = None)"
proof (intro conjI impI)
  have inv: "udp_outbound_inv t" by (rule udp_outbound_run [OF assms(2) udp_Dial_inv [OF assms(1)]])
  show "\<exists>p. r = Inr p" if "udpStream_RecvBytes t later = Some (r, t')"
    using inv that by (auto simp: udp_outbound_inv_def udpStream_RecvBytes_def chan_recv_def Let_def
        split: list.splits if_splits)
  assume "us_once t" "us_held t = None" "ch_items (us_rxCh t) = []" and run: "udp_sess_step\<^sup>*\<^sup>* t u"
  then have "udp_drained t" using inv by (simp add: udp_drained_def udp_outbound_inv_def)
  then have "udp_outbound_inv u \<and> udp_drained u" using udp_drained_run [OF run] inv by blast
  then show "udpStream_RecvBytes u later = None"
    by (simp add: udp_outbound_inv_def udp_drained_def udpStream_RecvBytes_def chan_recv_def)
qed

definition sample_udp :: udpSession where
  "sample_udp = \<lparr>us_peer = \<lparr>pi_ID = ''temp:ctl'', pi_Addr = '':7777'', pi_Reachable = False\<rparr>, us_kind = KindUDP,
     us_raddr = ''127.0.0.1:7777'', us_outbound = True, us_inboundRx = make_chan 0, us_rxCh = make_chan 16,
     us_once = False, us_establishedAt = 1, us_lastSeen = 0, us_sock = True, us_reading = True, us_held = None, us_sent = []\<rparr>"

theorem udp_close_never_wakes_witness:
  "udpStream_RecvBytes (udp_Close sample_udp) 9 = None"
proof -
  have d: "udp_Dial (Inr ''127.0.0.1:7777'') None \<lparr>pi_ID = ''temp:ctl'', pi_Addr = '':7777'', pi_Reachable = False\<rparr> 1
      = Inr sample_udp"
    by (simp add: udp_Dial_def sample_udp_def)
  have c: "udp_sess_step\<^sup>*\<^sup>* sample_udp (udp_Close sample_udp)" by (rule r_into_rtranclp) (rule udp_sess_close)
  show ?thesis
    using udp_close_never_wakes [OF d c, where u = "udp_Close sample_udp" and later = 9]
    by (simp add: sample_udp_def udp_Close_def make_chan_def)
qed

text \<open>
  C36: an address is handed out by the datagram listener at most once: after \<open>Accept\<close> has
  returned a session for it, no later \<open>Accept\<close> does, also when that session has been closed;
  closing it changes nothing but its own flag, so what the address sends next is still queued
  for the closed session.
\<close>

theorem udp_accepted_once:
  assumes "udp_step\<^sup>*\<^sup>* udp_start l" "udp_Accept l = Some (key, l')" "udp_step\<^sup>*\<^sup>* l' m"
  shows "map_option fst (udp_Accept m) \<noteq> Some key \<and>
    udpStream_RecvBytes (udp_Close (udp_inbound key rx now)) later =
      map_option (\<lambda>(r, s). (r, s\<lparr>us_once := True\<rparr>)) (udpStream_RecvBytes (udp_inbound key rx now) later)"
proof (intro conjI)
  have "udp_bounded l" by (rule udp_bounded_run [OF assms(1)])
  then have "udp_unheard key l'"
    using assms(2) by (auto simp: udp_bounded_def udp_Accept_def udp_unheard_def split: list.splits)
  then have "udp_unheard key m" by (rule udp_unheard_run [OF assms(3)])
  then show "map_option fst (udp_Accept m) \<noteq> Some key"
    by (auto simp: udp_unheard_def udp_Accept_def split: list.splits)
  show "udpStream_RecvBytes (udp_Close (udp_inbound key rx now)) later =
      map_option (\<lambda>(r, s). (r, s\<lparr>us_once := True\<rparr>)) (udpStream_RecvBytes (udp_inbound key rx now) later)"
    by (simp add: udp_inbound_def udp_sess_defs Let_def split: list.split)
qed

theorem udp_accepted_once_witness:
  "let l = udp_datagram udp_start ''10.0.0.1:7'' [1]; m = udp_datagram (l\<lparr>ul_newCh := []\<rparr>) ''10.0.0.1:7'' [2]
   in map_option fst (udp_Accept m) \<noteq> Some ''10.0.0.1:7''"
proof -
  let ?l = "udp_datagram udp_start ''10.0.0.1:7'' [1]"
  let ?m = "udp_datagram (?l\<lparr>ul_newCh := []\<rparr>) ''10.0.0.1:7'' [2]"
  have a: "udp_step\<^sup>*\<^sup>* udp_start ?l" by (rule r_into_rtranclp) (rule udp_in)
  have b: "udp_Accept ?l = Some (''10.0.0.1:7'', ?l\<lparr>ul_newCh := []\<rparr>)"
    by (simp add: udp_datagram_def udp_start_def udp_Accept_def Let_def)
  have c: "udp_step\<^sup>*\<^sup>* (?l\<lparr>ul_newCh := []\<rparr>) ?m" by (rule r_into_rtranclp) (rule udp_in)
  show ?thesis using udp_accepted_once [OF a b c, where rx = "make_chan 32" and now = 1 and later = 2]
    by (simp add: Let_def)
qed

end
