(* ===== verification/Quic.thy ===== *)
theory Quic
  imports Transport
begin

text \<open>
  The QUIC transport (\<open>quic.go\<close>). \<open>quic-go\<close> itself is reached by reflection: what a connection's
  method of a given name returns is an argument of the model (\<open>None\<close> when there is no such
  method), as are the method sets of the stream type and its zero value. What the code does with
  these answers is modelled: the type assertions, the choice of the handle, the cached control
  stream with the interleavings of the calls that share it (\<open>q_step\<close>), the accept loop and the
  choice among the closing methods.
\<close>

section \<open>Dynamic values\<close>

datatype quic_error = QNoMethod | QSignature | QStream | QLib string | QPanic

text \<open>A value returned by reflection: nil, an error, a connection, a stream by value or by pointer.\<close>

datatype ('c, 's) dyn = DNil | DErr string | DConn 'c | DStream 's | DPointer 's | DOther

type_synonym ('c, 's) call = "('c, 's) dyn list option"

text \<open>Whether the second result is nil, an error, or something else (then the assertion panics).\<close>

definition result_error :: "('c, 's) dyn list \<Rightarrow> quic_error option" where
  "result_error outs =
     (if length outs \<noteq> 2 then Some QSignature
      else case outs ! 1 of DNil \<Rightarrow> None | DErr e \<Rightarrow> Some (QLib e) | _ \<Rightarrow> Some QPanic)"

text \<open>\<open>qs, _ := v.(quicgo.Stream)\<close>: any other dynamic type gives the zero value.\<close>

definition assert_stream :: "'s \<Rightarrow> ('c, 's) dyn \<Rightarrow> 's" where
  "assert_stream zero v = (case v of DStream s \<Rightarrow> s | _ \<Rightarrow> zero)"

section \<open>Streams\<close>

datatype 's handle = OnValue 's | OnPointer 's

record methods =
  ms_Read :: bool
  ms_Write :: bool
  ms_Close :: bool

text \<open>The library: the zero stream, and the methods of the stream type and of pointers to it.\<close>

record 's quic_lib =
  ql_zero :: 's
  ql_value :: methods
  ql_pointer :: methods

record 's qstream =
  qs_r :: "'s handle"
  qs_w :: "'s handle"
  qs_closef :: "'s handle"

definition all_methods :: "methods \<Rightarrow> bool" where
  "all_methods m \<longleftrightarrow> ms_Read m \<and> ms_Write m \<and> ms_Close m"

definition pick_handle :: "bool \<Rightarrow> bool \<Rightarrow> 's \<Rightarrow> 's handle option" where
  "pick_handle on_value on_pointer qs =
     (if on_value then Some (OnValue qs) else if on_pointer then Some (OnPointer qs) else None)"

definition wrapStream :: "'s quic_lib \<Rightarrow> 's \<Rightarrow> quic_error + 's qstream" where
  "wrapStream L qs =
     (if all_methods (ql_value L) then
        Inr \<lparr>qs_r = OnValue qs, qs_w = OnValue qs, qs_closef = OnValue qs\<rparr>
      else if all_methods (ql_pointer L) then
        Inr \<lparr>qs_r = OnPointer qs, qs_w = OnPointer qs, qs_closef = OnPointer qs\<rparr>
      else
        let r = pick_handle (ms_Read (ql_value L)) (ms_Read (ql_pointer L)) qs;
            w = pick_handle (ms_Write (ql_value L)) (ms_Write (ql_pointer L)) qs;
            c = pick_handle (ms_Close (ql_value L)) (ms_Close (ql_pointer L)) qs
        in case (r, w, c) of
             (Some r, Some w, Some c) \<Rightarrow> Inr \<lparr>qs_r = r, qs_w = w, qs_closef = c\<rparr>
           | _ \<Rightarrow> Inl QStream)"

text \<open>The framing of \<open>qstream\<close>, over the bytes of the stream; \<open>lastSeen\<close> is the parent session's.\<close>

definition qstream_SendBytes :: "Conn \<Rightarrow> int \<Rightarrow> byte list \<Rightarrow> int \<Rightarrow> (Conn \<times> int) \<times> link_error option" where
  "qstream_SendBytes c lastSeen b now =
     (let lenbuf = put32 (of_nat (length b)) in
      case bufio_Write c lenbuf of
        (c, _, Some err) \<Rightarrow> ((c, lastSeen), Some (LinkIO err))
      | (c, _, None) \<Rightarrow>
          (case bufio_Write c b of
             (c, _, Some err) \<Rightarrow> ((c, lastSeen), Some (LinkIO err))
           | (c, _, None) \<Rightarrow>
               (case bufio_Flush c of
                  (c, Some err) \<Rightarrow> ((c, lastSeen), Some (LinkIO err))
                | (c, None) \<Rightarrow> ((c, now), None))))"

definition qstream_RecvBytes :: "Conn \<Rightarrow> int \<Rightarrow> int \<Rightarrow> (Conn \<times> int) \<times> (link_error + byte list)" where
  "qstream_RecvBytes c lastSeen now =
     (case ReadFull 4 (conn_in c) of
        (Some err, _, st) \<Rightarrow> ((c\<lparr>conn_in := st\<rparr>, lastSeen), Inl (LinkIO err))
      | (None, lenbuf, st) \<Rightarrow>
          let n = unat (get32 lenbuf) in
          if n > maxFrame then ((c\<lparr>conn_in := st\<rparr>, lastSeen), Inl InvalidFrameSize)
          else (case ReadFull n st of
             (Some err, _, st) \<Rightarrow> ((c\<lparr>conn_in := st\<rparr>, lastSeen), Inl (LinkIO err))
           | (None, buf, st) \<Rightarrow> ((c\<lparr>conn_in := st\<rparr>, now), Inr buf)))"

section \<open>Sessions\<close>

record ('c, 's) qsession =
  qn_peer :: PeerInfo
  qn_kind :: Kind
  qn_c :: 'c
  qn_inbound :: bool
  qn_establishedAt :: int
  qn_lastSeen :: int
  qn_ctrl :: "'s qstream option"

text \<open>The common part of opening and accepting a stream, after the method has been looked up.\<close>

definition stream_result :: "'s quic_lib \<Rightarrow> ('c, 's) call \<Rightarrow> quic_error + 's qstream" where
  "stream_result L mv =
     (case mv of
        None \<Rightarrow> Inl QNoMethod
      | Some outs \<Rightarrow>
          (case result_error outs of
             Some e \<Rightarrow> Inl e
           | None \<Rightarrow> wrapStream L (assert_stream (ql_zero L) (outs ! 0))))"

text \<open>\<open>m name\<close> is what the connection's method of that name returns at this call.\<close>

definition opener :: "bool \<Rightarrow> (string \<Rightarrow> ('c, 's) call) \<Rightarrow> ('c, 's) call" where
  "opener inbound m =
     (if inbound then m ''AcceptStream''
      else case m ''OpenStreamSync'' of None \<Rightarrow> m ''OpenStream'' | Some outs \<Rightarrow> Some outs)"

text \<open>
  \<open>OpenStream\<close> in the pieces between which other goroutines run: it looks for the cached stream
  under the lock, opens one without the lock, which may block, and caches it under the lock again.
\<close>

definition q_cached :: "('c, 's) qsession \<Rightarrow> 's qstream option" where
  "q_cached s = qn_ctrl s"

definition q_opening :: "'s quic_lib \<Rightarrow> (string \<Rightarrow> ('c, 's) call) \<Rightarrow> ('c, 's) qsession \<Rightarrow> quic_error + 's qstream" where
  "q_opening L m s = stream_result L (opener (qn_inbound s) m)"

definition q_cache :: "'s qstream \<Rightarrow> ('c, 's) qsession \<Rightarrow> ('c, 's) qsession" where
  "q_cache st s = s\<lparr>qn_ctrl := Some st\<rparr>"

text \<open>The callers of one session by number: where each call is, and what it returned.\<close>

datatype 's caller = Calling | Opening | Opened "'s qstream" | Answered "quic_error + 's qstream"

record ('c, 's) qsystem =
  qw_session :: "('c, 's) qsession"
  qw_callers :: "nat \<Rightarrow> 's caller"

text \<open>\<open>M\<close>: what the methods of the connection may return.\<close>

inductive q_step ::
  "'s quic_lib \<Rightarrow> (string \<Rightarrow> ('c, 's) call) set \<Rightarrow> ('c, 's) qsystem \<Rightarrow> ('c, 's) qsystem \<Rightarrow> bool" for L M where
  q_hit: "qw_callers w i = Calling \<Longrightarrow> q_cached (qw_session w) = Some st \<Longrightarrow>
    q_step L M w (w\<lparr>qw_callers := (qw_callers w)(i := Answered (Inr st))\<rparr>)"
| q_miss: "qw_callers w i = Calling \<Longrightarrow> q_cached (qw_session w) = None \<Longrightarrow>
    q_step L M w (w\<lparr>qw_callers := (qw_callers w)(i := Opening)\<rparr>)"
| q_open: "qw_callers w i = Opening \<Longrightarrow> m \<in> M \<Longrightarrow> q_opening L m (qw_session w) = Inr st \<Longrightarrow>
    q_step L M w (w\<lparr>qw_callers := (qw_callers w)(i := Opened st)\<rparr>)"
| q_fail: "qw_callers w i = Opening \<Longrightarrow> m \<in> M \<Longrightarrow> q_opening L m (qw_session w) = Inl e \<Longrightarrow>
    q_step L M w (w\<lparr>qw_callers := (qw_callers w)(i := Answered (Inl e))\<rparr>)"
| q_store: "qw_callers w i = Opened st \<Longrightarrow>
    q_step L M w (w\<lparr>qw_session := q_cache st (qw_session w), qw_callers := (qw_callers w)(i := Answered (Inr st))\<rparr>)"
| q_call: "qw_callers w i = Answered r \<Longrightarrow> q_step L M w (w\<lparr>qw_callers := (qw_callers w)(i := Calling)\<rparr>)"

inductive_cases q_stepE: "q_step L M w w'"

lemmas q_parts = q_cached_def q_opening_def q_cache_def

text \<open>A call nobody interferes with.\<close>

definition q_OpenStream ::
  "'s quic_lib \<Rightarrow> (string \<Rightarrow> ('c, 's) call) \<Rightarrow> ('c, 's) qsession \<Rightarrow>
   (quic_error + 's qstream) \<times> ('c, 's) qsession" where
  "q_OpenStream L m s =
     (case q_cached s of
        Some st \<Rightarrow> (Inr st, s)
      | None \<Rightarrow>
          (case q_opening L m s of
             Inl e \<Rightarrow> (Inl e, s)
           | Inr st \<Rightarrow> (Inr st, q_cache st s)))"

definition q_AcceptStream ::
  "'s quic_lib \<Rightarrow> (string \<Rightarrow> ('c, 's) call) \<Rightarrow> ('c, 's) qsession \<Rightarrow> quic_error + 's qstream" where
  "q_AcceptStream L m s = stream_result L (m ''AcceptStream'')"

text \<open>The four signatures \<open>Close\<close> tries, and which of them the connection has.\<close>

datatype close_sig = CloseWithErrorUint64 | CloseWithErrorInt | CloseError | ClosePlain

definition q_Close :: "(close_sig \<Rightarrow> bool) \<Rightarrow> close_sig option" where
  "q_Close has = find has [CloseWithErrorUint64, CloseWithErrorInt, CloseError, ClosePlain]"

definition q_Dial :: "(link_error + 'c) \<Rightarrow> PeerInfo \<Rightarrow> int \<Rightarrow> link_error + ('c, 's) qsession" where
  "q_Dial dialled peer now =
     (case dialled of
        Inl err \<Rightarrow> Inl err
      | Inr c \<Rightarrow> Inr \<lparr>qn_peer = peer, qn_kind = KindQUICDirect, qn_c = c, qn_inbound = False,
          qn_establishedAt = now, qn_lastSeen = 0, qn_ctrl = None\<rparr>)"

section \<open>Listener\<close>

record ('c, 's) qlistener =
  qz_laddr :: string
  qz_newCh :: "('c, 's) qsession list"
  qz_closed :: bool

definition q_Listen :: "(link_error + string) \<Rightarrow> link_error + ('c, 's) qlistener" where
  "q_Listen bound =
     (case bound of
        Inl err \<Rightarrow> Inl err
      | Inr a \<Rightarrow> Inr \<lparr>qz_laddr = a, qz_newCh = [], qz_closed = False\<rparr>)"

inductive q_Accept :: "bool \<Rightarrow> ('c, 's) qlistener \<Rightarrow> link_error + ('c, 's) qsession \<Rightarrow> ('c, 's) qlistener \<Rightarrow> bool"
  for ctx_done where
  "ctx_done \<Longrightarrow> q_Accept ctx_done l (Inl CtxDone) l"
| "qz_closed l \<Longrightarrow> q_Accept ctx_done l (Inl ListenerClosed) l"
| "qz_newCh l = s # ss \<Longrightarrow> q_Accept ctx_done l (Inr s) (l\<lparr>qz_newCh := ss\<rparr>)"

text \<open>The flag says whether the inner listener has a \<open>Close\<close>, which is then called.\<close>

definition q_listener_Close :: "bool \<Rightarrow> ('c, 's) qlistener \<Rightarrow> bool \<times> ('c, 's) qlistener" where
  "q_listener_Close has_close l = (has_close, l\<lparr>qz_closed := True\<rparr>)"

text \<open>
  The remote address, if the connection tells it: a method \<open>RemoteAddr\<close> with one non-nil result
  that is an address. \<open>addr\<close> is that address.
\<close>

definition inbound_quic :: "'c \<Rightarrow> string option \<Rightarrow> int \<Rightarrow> ('c, 's) qsession option" where
  "inbound_quic c addr now =
     (case addr of
        None \<Rightarrow> None
      | Some a \<Rightarrow> Some \<lparr>qn_peer = \<lparr>pi_ID = TempPeerID KindQUICDirect (Some a), pi_Addr = a, pi_Reachable = True\<rparr>,
          qn_kind = KindQUICDirect, qn_c = c, qn_inbound = True, qn_establishedAt = now, qn_lastSeen = 0, qn_ctrl = None\<rparr>)"

text \<open>
  The loop over what the reflective \<open>Accept\<close> returns, each call with the remote address of the
  connection and the time. It ends silently with the first error; calling \<open>String\<close> on a missing
  address panics. The result is the listener, the sessions refused, and whether the loop panicked.
\<close>

fun q_acceptLoop ::
  "('c, 's) qlistener \<Rightarrow> (('c, 's) call \<times> string option \<times> int) list \<Rightarrow>
   ('c, 's) qlistener \<times> ('c, 's) qsession list \<times> bool" where
  "q_acceptLoop l [] = (l, [], False)"
| "q_acceptLoop l ((None, _, _) # as) = (l, [], False)"
| "q_acceptLoop l ((Some outs, addr, now) # as) =
     (case result_error outs of
        Some QPanic \<Rightarrow> (l, [], True)
      | Some e \<Rightarrow> (l, [], False)
      | None \<Rightarrow>
          (case outs ! 0 of
             DConn c \<Rightarrow>
               (case inbound_quic c addr now of
                  None \<Rightarrow> (l, [], True)
                | Some s \<Rightarrow>
                    if length (qz_newCh l) < 8 then q_acceptLoop (l\<lparr>qz_newCh := qz_newCh l @ [s]\<rparr>) as
                    else (case q_acceptLoop l as of (l, refused, p) \<Rightarrow> (l, s # refused, p)))
           | _ \<Rightarrow> (l, [], True)))"

section \<open>Framing is TCP's\<close>

definition as_session :: "session \<Rightarrow> Conn \<Rightarrow> int \<Rightarrow> session" where
  "as_session s c seen = s\<lparr>ses_conn := c, ses_lastSeen := seen\<rparr>"

lemma qstream_SendBytes_tcp:
  "SendBytes (as_session s c seen) b now =
     (case qstream_SendBytes c seen b now of ((c, seen), r) \<Rightarrow> (as_session s c seen, r))"
  by (simp add: SendBytes_def qstream_SendBytes_def as_session_def Let_def split: prod.split option.split)

lemma qstream_RecvBytes_tcp:
  "RecvBytes (as_session s c seen) now =
     (case qstream_RecvBytes c seen now of ((c, seen), r) \<Rightarrow> (as_session s c seen, r))"
  by (simp add: RecvBytes_def recv_rest_def qstream_RecvBytes_def as_session_def Let_def
      split: prod.split option.split)

lemma qstream_SendBytes_ok:
  "\<not> conn_broken c \<Longrightarrow> conn_buf c = [] \<Longrightarrow>
   qstream_SendBytes c seen b now = ((c\<lparr>conn_out := conn_out c @ packet b\<rparr>, now), None)"
  by (simp add: qstream_SendBytes_def bufio_Write_def bufio_Flush_def packet_def Let_def)

lemma qstream_RecvBytes_packet:
  "conn_in c = packet b @ rest \<Longrightarrow> length b \<le> maxFrame \<Longrightarrow>
   qstream_RecvBytes c seen now = ((c\<lparr>conn_in := rest\<rparr>, now), Inr b)"
  by (simp add: qstream_RecvBytes_def packet_def ReadFull_append unat_len_small Let_def)

interpretation quic_stream: message_stream "\<lambda>(c, seen) b. fst (qstream_SendBytes c seen b now)"
    "\<lambda>(c, seen). received_or_none (qstream_RecvBytes c seen later)"
    "\<lambda>(c, seen). conn_out c" "\<lambda>(c, seen). conn_in c" "\<lambda>(c, seen). \<not> conn_broken c \<and> conn_buf c = []" "\<lambda>s. True"
    packet "\<lambda>b. length b \<le> maxFrame"
    for now later
  by unfold_locales (auto simp: qstream_SendBytes_ok qstream_RecvBytes_packet)

section \<open>Concurrent calls\<close>

text \<open>Once a stream is cached and no call is between its two sections, it stays.\<close>

definition settled :: "'s qstream \<Rightarrow> ('c, 's) qsystem \<Rightarrow> bool" where
  "settled st w \<longleftrightarrow> qn_ctrl (qw_session w) = Some st \<and> (\<forall>i st'. qw_callers w i \<noteq> Opening \<and> qw_callers w i \<noteq> Opened st')"

lemma settled_step: "q_step L M w w' \<Longrightarrow> settled st w \<Longrightarrow> settled st w'"
  by (erule q_stepE) (auto simp: settled_def q_parts)

text \<open>What the callers of a settled session hold: what they had, or the cached stream.\<close>

definition served :: "'s qstream \<Rightarrow> ('c, 's) qsystem \<Rightarrow> ('c, 's) qsystem \<Rightarrow> bool" where
  "served st w w' \<longleftrightarrow>
     (\<forall>i. qw_callers w' i \<in> {qw_callers w i, Calling, Answered (Inr st)})"

lemma settled_run: "(q_step L M)\<^sup>*\<^sup>* w w' \<Longrightarrow> settled st w \<Longrightarrow> settled st w' \<and> served st w w'"
proof (induction rule: rtranclp_induct)
  case base
  then show ?case by (simp add: served_def)
next
  case (step y z)
  then have y: "settled st y" "served st w y" by auto
  from step(2) y have "served st w z"
    by (elim q_stepE) (auto simp: settled_def served_def q_parts)
  then show ?case using settled_step [OF step(2) y(1)] by simp
qed

text \<open>Two calls that overlap: both miss, both open, both store.\<close>

lemma overlapping_calls:
  assumes "i \<noteq> j" "qw_callers w i = Calling" "qw_callers w j = Calling" "qn_ctrl (qw_session w) = None"
    and "m \<in> M" "q_opening L m (qw_session w) = Inr a" "m' \<in> M" "q_opening L m' (qw_session w) = Inr b"
  shows "(q_step L M)\<^sup>*\<^sup>* w (w\<lparr>qw_session := (qw_session w)\<lparr>qn_ctrl := Some b\<rparr>,
    qw_callers := (qw_callers w)(i := Answered (Inr a), j := Answered (Inr b))\<rparr>)"
proof -
  let ?c = "qw_callers w"
  let ?at = "\<lambda>s x y. w\<lparr>qw_session := s, qw_callers := ?c(i := x, j := y)\<rparr>"
  let ?s = "qw_session w"
  have twist: "?c(i := x, j := y, i := z) = ?c(i := z, j := y)" for x y z using assms(1) by (simp add: fun_upd_twist)
  have 0: "w = ?at ?s Calling Calling" using assms(2,3) by (simp add: fun_upd_idem)
  have 1: "q_step L M (?at ?s Calling Calling) (?at ?s Opening Calling)"
    using q_miss [of "?at ?s Calling Calling" i L M] assms(1,4) by (simp add: q_parts twist)
  have 2: "q_step L M (?at ?s Opening Calling) (?at ?s Opening Opening)"
    using q_miss [of "?at ?s Opening Calling" j L M] assms(4) by (simp add: q_parts)
  have 3: "q_step L M (?at ?s Opening Opening) (?at ?s (Opened a) Opening)"
    using q_open [of "?at ?s Opening Opening" i m M L a] assms(1,5,6) by (simp add: twist)
  have 4: "q_step L M (?at ?s (Opened a) Opening) (?at ?s (Opened a) (Opened b))"
    using q_open [of "?at ?s (Opened a) Opening" j m' M L b] assms(7,8) by simp
  have 5: "q_step L M (?at ?s (Opened a) (Opened b)) (?at (?s\<lparr>qn_ctrl := Some a\<rparr>) (Answered (Inr a)) (Opened b))"
    using q_store [of "?at ?s (Opened a) (Opened b)" i a L M] assms(1) by (simp add: q_parts twist)
  have 6: "q_step L M (?at (?s\<lparr>qn_ctrl := Some a\<rparr>) (Answered (Inr a)) (Opened b))
      (?at (?s\<lparr>qn_ctrl := Some b\<rparr>) (Answered (Inr a)) (Answered (Inr b)))"
    using q_store [of "?at (?s\<lparr>qn_ctrl := Some a\<rparr>) (Answered (Inr a)) (Opened b)" j b L M] by (simp add: q_parts)
  from 1 2 3 4 5 6 have "(q_step L M)\<^sup>*\<^sup>* (?at ?s Calling Calling)
      (?at (?s\<lparr>qn_ctrl := Some b\<rparr>) (Answered (Inr a)) (Answered (Inr b)))"
    by (meson rtranclp.rtrancl_into_rtrancl rtranclp.rtrancl_refl)
  then show ?thesis using 0 by simp
qed

text \<open>With a library that hands out pointers every stream is the zero stream.\<close>

definition zero_stream :: "'s quic_lib \<Rightarrow> 's qstream" where
  "zero_stream L = \<lparr>qs_r = OnPointer (ql_zero L), qs_w = OnPointer (ql_zero L), qs_closef = OnPointer (ql_zero L)\<rparr>"

definition pointers_only :: "'s quic_lib \<Rightarrow> (string \<Rightarrow> ('c, 's) call) set \<Rightarrow> bool" where
  "pointers_only L M \<longleftrightarrow> \<not> ms_Read (ql_value L) \<and> all_methods (ql_pointer L) \<and>
     (\<forall>m \<in> M. \<forall>name v. m name = Some [v, DNil] \<longrightarrow> (\<exists>q. v = DPointer q))"

lemma pointer_opening:
  assumes "pointers_only L M" "m \<in> M" "q_opening L m s = Inr st"
  shows "st = zero_stream L"
proof -
  obtain name outs where o: "m name = Some outs" "result_error outs = None"
      "wrapStream L (assert_stream (ql_zero L) (outs ! 0)) = Inr st"
    using assms(3)
    by (auto simp: q_opening_def stream_result_def opener_def split: option.splits if_splits)
  then obtain v where "outs = [v, DNil]"
    by (auto simp: result_error_def length_Suc_conv numeral_2_eq_2 split: if_splits dyn.splits)
  then obtain q where "outs = [DPointer q, DNil]" using assms(1,2) o(1) unfolding pointers_only_def by blast
  then show ?thesis using o(3) assms(1)
    by (auto simp: pointers_only_def assert_stream_def wrapStream_def all_methods_def zero_stream_def)
qed

text \<open>What holds of every stream that is opened holds of every stream that is cached or returned.\<close>

definition all_streams :: "('s qstream \<Rightarrow> bool) \<Rightarrow> ('c, 's) qsystem \<Rightarrow> bool" where
  "all_streams P w \<longleftrightarrow> (\<forall>st. qn_ctrl (qw_session w) = Some st \<longrightarrow> P st) \<and>
     (\<forall>i st. qw_callers w i = Opened st \<or> qw_callers w i = Answered (Inr st) \<longrightarrow> P st)"

lemma all_streams_run:
  assumes "(q_step L M)\<^sup>*\<^sup>* w w'" "\<And>m s st. m \<in> M \<Longrightarrow> q_opening L m s = Inr st \<Longrightarrow> P st" "all_streams P w"
  shows "all_streams P w'"
  using assms(1,3)
proof (induction rule: rtranclp_induct)
  case (step y z)
  then have y: "all_streams P y" by blast
  from step(2) y show ?case
    using assms(2) by (elim q_stepE) (auto simp: all_streams_def q_cached_def q_cache_def)
qed

section \<open>Properties\<close>

definition q_fresh :: "('c, 's) qsession \<Rightarrow> ('c, 's) qsystem" where
  "q_fresh s = \<lparr>qw_session = s, qw_callers = (\<lambda>i. Calling)\<rparr>"


definition pinned_lib :: "nat quic_lib" where
  "pinned_lib = \<lparr>ql_zero = 0, ql_value = \<lparr>ms_Read = False, ms_Write = False, ms_Close = False\<rparr>,
     ql_pointer = \<lparr>ms_Read = True, ms_Write = True, ms_Close = True\<rparr>\<rparr>"

definition dialled_quic :: "(unit, nat) qsession" where
  "dialled_quic = \<lparr>qn_peer = \<lparr>pi_ID = ''p'', pi_Addr = ''a'', pi_Reachable = True\<rparr>, qn_kind = KindQUICDirect, qn_c = (),
     qn_inbound = False, qn_establishedAt = 1, qn_lastSeen = 0, qn_ctrl = None\<rparr>"

text \<open>A library with streams by value, and two answers of its connection.\<close>

definition value_lib :: "nat quic_lib" where
  "value_lib = pinned_lib\<lparr>ql_value := \<lparr>ms_Read = True, ms_Write = True, ms_Close = True\<rparr>\<rparr>"

definition hands_out :: "nat \<Rightarrow> string \<Rightarrow> (unit, nat) call" where
  "hands_out q name = (if name = ''OpenStreamSync'' then Some [DStream q, DNil] else None)"


text \<open>Connections accepted without an error, and the sessions made of them.\<close>

definition accepted :: "('c \<times> string \<times> int) list \<Rightarrow> (('c, 's) call \<times> string option \<times> int) list" where
  "accepted cs = map (\<lambda>(c, a, now). (Some [DConn c, DNil], Some a, now)) cs"

definition quic_in :: "'c \<times> string \<times> int \<Rightarrow> ('c, 's) qsession" where
  "quic_in x = (case x of (c, a, now) \<Rightarrow>
     \<lparr>qn_peer = \<lparr>pi_ID = TempPeerID KindQUICDirect (Some a), pi_Addr = a, pi_Reachable = True\<rparr>,
      qn_kind = KindQUICDirect, qn_c = c, qn_inbound = True, qn_establishedAt = now, qn_lastSeen = 0, qn_ctrl = None\<rparr>)"

lemma q_acceptLoop_spec:
  "q_acceptLoop l (accepted cs @ rest) =
     (let free = 8 - length (qz_newCh l);
          (l', refused, p) = q_acceptLoop (l\<lparr>qz_newCh := qz_newCh l @ map quic_in (take free cs)\<rparr>) rest
      in (l', map quic_in (drop free cs) @ refused, p))"
proof (induction cs arbitrary: l)
  case Nil
  then show ?case by (simp add: accepted_def)
next
  case (Cons x cs)
  obtain c a now where x: "x = (c, a, now)" by (cases x)
  have s: "inbound_quic c (Some a) now = Some (quic_in x)" by (simp add: inbound_quic_def quic_in_def x)
  have e: "result_error [DConn c, DNil :: ('a, 'b) dyn] = None" by (simp add: result_error_def)
  show ?case
  proof (cases "length (qz_newCh l) < 8")
    case True
    then have f: "8 - length (qz_newCh l) = Suc (8 - length (qz_newCh l @ [quic_in x]))" by simp
    show ?thesis using True Cons.IH [of "l\<lparr>qz_newCh := qz_newCh l @ [quic_in x]\<rparr>"]
      by (simp add: accepted_def x s e f Let_def del: length_append split: prod.split)
  next
    case False
    then show ?thesis using Cons.IH [of l]
      by (simp add: accepted_def x s e Let_def split: prod.splits)
  qed
qed

text \<open>
  What the accept loop leaves in the queue: of the connections it accepts, in order, the
  first that fit into the eight places; the others are refused. A connection that does not tell
  its address ends the loop with a panic, a failing \<open>Accept\<close> ends it silently.
\<close>

theorem quic_accept_queue:
  "let free = 8 - length (qz_newCh l); l' = l\<lparr>qz_newCh := qz_newCh l @ map quic_in (take free cs)\<rparr>;
       refused = map quic_in (drop free cs)
   in q_acceptLoop l (accepted cs) = (l', refused, False) \<and>
      q_acceptLoop l (accepted cs @ (Some [DConn c, DNil], None, now) # later) = (l', refused, True) \<and>
      q_acceptLoop l (accepted cs @ (Some [v, DErr e], addr, now) # later) = (l', refused, False)"
  using q_acceptLoop_spec [of l cs "[]"]
  by (simp add: q_acceptLoop_spec result_error_def inbound_quic_def Let_def)

end
