(* ===== verification/Clients.thy ===== *)
theory Clients
  imports Netstack Links Quic
begin

text \<open>
  The programs that talk to a node: the worker (\<open>cmd/ttmesh-worker\<close>), the test client
  (\<open>cmd/ttmesh-client\<close>) and the control tool (\<open>cmd/ttmesh-ctl\<close>). Each dials, sends a Hello and
  then messages of its own on the control stream. What dialling, opening the stream and writing
  yield, the messages that arrive and the clock are arguments; printing and logging are not
  modelled.
\<close>

section \<open>Keys\<close>

definition white :: "byte \<Rightarrow> bool" where
  "white b \<longleftrightarrow> b = 32 \<or> b = 10 \<or> b = 13 \<or> b = 9"

definition bytesTrimSpace :: "byte list \<Rightarrow> byte list" where
  "bytesTrimSpace b = rev (dropWhile white (rev (dropWhile white b)))"

datatype 'a outcome = Fatal string | Panics | Returned 'a

text \<open>
  \<open>json b\<close> is the field \<open>priv\<close> if \<open>b\<close> is a JSON object (empty when the field is missing), \<open>file\<close>
  the contents of the key file, \<open>gen\<close> what the key generator delivers. The length of a key that
  was read is not looked at.
\<close>

definition loadOrGenKey ::
  "(byte list \<Rightarrow> string option) \<Rightarrow> string \<Rightarrow> byte list option \<Rightarrow> byte list option \<Rightarrow> byte list outcome" where
  "loadOrGenKey json path file gen =
     (if path = [] then (case gen of None \<Rightarrow> Fatal ''gen key'' | Some priv \<Rightarrow> Returned priv)
      else case file of
          None \<Rightarrow> Fatal ''read priv''
        | Some b \<Rightarrow>
            (let v = (case json b of None \<Rightarrow> [] | Some p \<Rightarrow> p) in
             if v \<noteq> [] then
               (case b64_decode v of None \<Rightarrow> Fatal ''decode priv b64(json)'' | Some db \<Rightarrow> Returned db)
             else
               (case b64_decode (string_of (bytesTrimSpace b)) of
                  Some db \<Rightarrow> Returned db
                | None \<Rightarrow> Returned (bytesTrimSpace b))))"

text \<open>The worker's differs in what it trims.\<close>

definition worker_loadOrGenKey ::
  "(byte list \<Rightarrow> string option) \<Rightarrow> string \<Rightarrow> byte list option \<Rightarrow> byte list option \<Rightarrow> byte list outcome" where
  "worker_loadOrGenKey json path file gen =
     (if path = [] then (case gen of None \<Rightarrow> Fatal ''gen key'' | Some priv \<Rightarrow> Returned priv)
      else case file of
          None \<Rightarrow> Fatal ''read priv''
        | Some b \<Rightarrow>
            (let v = (case json b of None \<Rightarrow> [] | Some p \<Rightarrow> p) in
             if v \<noteq> [] then
               (case b64_decode v of None \<Rightarrow> Fatal ''decode priv b64(json)'' | Some db \<Rightarrow> Returned db)
             else
               (case b64_decode (TrimSpace (string_of b)) of
                  Some db \<Rightarrow> Returned db
                | None \<Rightarrow> Returned (bytes_of (TrimSpace (string_of b))))))"

section \<open>Dialling and saying Hello\<close>

text \<open>
  What the world answers: the file, the generator, the nonce, the link, which writes get out, and
  which of the closing methods a QUIC connection has.
\<close>

record world =
  wo_windows :: bool
  wo_json :: "byte list \<Rightarrow> string option"
  wo_file :: "byte list option"
  wo_gen :: "byte list option"
  wo_nonce :: "byte list option"
  wo_now :: int
  wo_dialled :: bool
  wo_opened :: bool
  wo_written :: "nat \<Rightarrow> bool"
  wo_closes :: "close_sig \<Rightarrow> bool"

definition client_hello :: "Hello \<Rightarrow> PbEnvelope" where
  "client_hello h = control_envelope (CHello \<lparr>he_NodeName = hl_NodeName h, he_Alg = hl_Alg h, he_Pubkey = hl_PubKey h,
     he_Nonce = hl_Nonce h, he_TsUnixMs = hl_Timestamp h, he_Sig = hl_Sig h, he_Meta = None\<rparr>)"

text \<open>
  The steps client and worker share: the bytes of the Hello and the peer id. A marshalling error
  of the Hello is ignored by the worker and the tool, which then send the nil slice.
\<close>

definition start_hello ::
  "ed25519 \<Rightarrow> pb_codec \<Rightarrow> world \<Rightarrow> string \<Rightarrow> string \<Rightarrow> byte list outcome \<Rightarrow> bool \<Rightarrow> (byte list \<times> PeerID) outcome" where
  "start_hello ed C W kind name key strict =
     (case NewByKind (wo_windows W) kind of
        Inl err \<Rightarrow> Fatal ''new transport''
      | Inr k \<Rightarrow>
          (case key of
             Fatal e \<Rightarrow> Fatal e
           | Panics \<Rightarrow> Panics
           | Returned priv \<Rightarrow>
               (case BuildHello ed name priv (wo_nonce W) (unixMilli (wo_now W)) of
                  None \<Rightarrow> Panics
                | Some (Inl err) \<Rightarrow> Fatal ''build hello''
                | Some (Inr (hello, peerID)) \<Rightarrow>
                    if \<not> wo_dialled W then Fatal ''dial''
                    else if \<not> wo_opened W then Fatal ''open stream''
                    else case pb_Marshal C (client_hello hello) of
                        None \<Rightarrow> if strict then Fatal ''marshal hello env''
                          else if wo_written W 0 then Returned ([], peerID) else Fatal ''send hello''
                      | Some b \<Rightarrow> if wo_written W 0 then Returned (b, peerID) else Fatal ''send hello'')))"

section \<open>The worker\<close>

text \<open>Contracts and policies are opaque in the messages: their encodings are parameters.\<close>

record descriptors =
  ds_analyze :: opaque
  ds_write :: opaque
  ds_auth :: opaque
  ds_features :: opaque

fun Split :: "char \<Rightarrow> string \<Rightarrow> string list" where
  "Split c [] = [[]]"
| "Split c (x # xs) =
     (if x = c then [] # Split c xs
      else case Split c xs of [] \<Rightarrow> [[x]] | w # ws \<Rightarrow> (x # w) # ws)"

definition enabled :: "string \<Rightarrow> string set" where
  "enabled cases = set (map (\<lambda>c. TrimSpace (ToLower c)) (Split CHR '','' cases))"

definition zero_task :: TaskDescriptor where
  "zero_task = \<lparr>td_Name = [], td_Version = [], td_StableId = [], td_HashAlg = [], td_Hash = [],
     td_StreamInput = False, td_StreamOutput = False, td_PriorityDefault = 0, td_MinReq = None,
     td_MaxConcurrency = 0, td_Contract = None, td_Auth = None, td_Meta = []\<rparr>"

definition analyze_task :: "descriptors \<Rightarrow> TaskDescriptor" where
  "analyze_task D = zero_task\<lparr>td_Name := ''ai.analyze'', td_Version := ''1.0.0'', td_StreamInput := False,
     td_StreamOutput := True, td_PriorityDefault := 100, td_Contract := Some (ds_analyze D), td_Meta := [(''lang'', ''go'')]\<rparr>"

definition write_task :: "descriptors \<Rightarrow> TaskDescriptor" where
  "write_task D = zero_task\<lparr>td_Name := ''storage.write'', td_Version := ''2024.09'', td_StreamInput := True,
     td_StreamOutput := False, td_PriorityDefault := 120, td_Contract := Some (ds_write D), td_Meta := [(''role'', ''ingest'')]\<rparr>"

definition compute_task :: "descriptors \<Rightarrow> TaskDescriptor" where
  "compute_task D = zero_task\<lparr>td_Name := ''private.compute'', td_Version := ''1.0'', td_StreamInput := False,
     td_StreamOutput := False, td_Auth := Some (ds_auth D)\<rparr>"

definition worker_tasks :: "descriptors \<Rightarrow> string \<Rightarrow> TaskDescriptor list" where
  "worker_tasks D cases =
     (let on = enabled cases;
          ts = (if ''basic'' \<in> on then [analyze_task D] else []);
          ts = (if ''stream'' \<in> on then ts @ [write_task D] else ts)
      in if ''auth'' \<in> on then ts @ [compute_task D] else ts)"

definition task_register :: "descriptors \<Rightarrow> PeerID \<Rightarrow> string \<Rightarrow> TaskRegister" where
  "task_register D peerID cases =
     \<lparr>tr_WorkerId = peerID, tr_Self = Some \<lparr>nr_Id = peerID, nr_Geohash = []\<rparr>, tr_Tasks = worker_tasks D cases,
      tr_Endpoints = [\<lparr>ne_Scheme = ''grpc+tcp'', ne_Address = ''127.0.0.1:50051'', ne_Params = []\<rparr>],
      tr_Features = Some (ds_features D), tr_Labels = [(''region'', ''local''), (''tier'', ''dev'')]\<rparr>"

text \<open>
  Waiting for an answer starts a goroutine that receives one message; when the timer fires first
  the goroutine stays. \<open>k\<close> goroutines are still receiving, in the order they were started, \<open>rs\<close>
  is what arrives before the timer: the result, the goroutines left and the arrivals left.
\<close>

datatype 'a awaited = TimedOut | RecvFailed | NotDecoded | NotControl | Answer "'a option"

definition read_answer :: "(ControlKind \<Rightarrow> 'a option) \<Rightarrow> pb_codec \<Rightarrow> link_error + byte list \<Rightarrow> 'a awaited" where
  "read_answer pick C r =
     (case r of
        Inl err \<Rightarrow> RecvFailed
      | Inr b \<Rightarrow>
          (case pb_Unmarshal C b of
             None \<Rightarrow> NotDecoded
           | Some env \<Rightarrow>
               (case GetControl env of
                  None \<Rightarrow> NotControl
                | Some ctrl \<Rightarrow> Answer (case ctrl of None \<Rightarrow> None | Some k \<Rightarrow> pick k))))"

definition await_answer ::
  "(ControlKind \<Rightarrow> 'a option) \<Rightarrow> pb_codec \<Rightarrow> nat \<Rightarrow> (link_error + byte list) list \<Rightarrow>
   'a awaited \<times> nat \<times> (link_error + byte list) list" where
  "await_answer pick C k rs =
     (if length rs \<le> k then (TimedOut, k + 1 - length rs, [])
      else (read_answer pick C (rs ! k), 0, drop (k + 1) rs))"

definition pick_hello_ack :: "ControlKind \<Rightarrow> PeerHelloAck option" where
  "pick_hello_ack k = (case k of CHelloAck a \<Rightarrow> Some a | _ \<Rightarrow> None)"

definition pick_register_ack :: "ControlKind \<Rightarrow> TaskRegisterAck option" where
  "pick_register_ack k = (case k of CTaskRegisterAck a \<Rightarrow> Some a | _ \<Rightarrow> None)"

definition awaitHelloAck where "awaitHelloAck = await_answer pick_hello_ack"
definition awaitRegisterAck where "awaitRegisterAck = await_answer pick_register_ack"

text \<open>
  The worker: what it sends and what it learns. \<open>rs1\<close> arrives before the first timer, \<open>rs2\<close>
  before the second; neither answer is looked at by the program.
\<close>

definition worker_main ::
  "ed25519 \<Rightarrow> pb_codec \<Rightarrow> descriptors \<Rightarrow> world \<Rightarrow> string \<Rightarrow> string \<Rightarrow> string \<Rightarrow> string \<Rightarrow>
   (link_error + byte list) list \<Rightarrow> (link_error + byte list) list \<Rightarrow>
   (PeerHelloAck awaited \<times> TaskRegisterAck awaited) outcome \<times> byte list list" where
  "worker_main ed C D W kind name privPath cases rs1 rs2 =
     (case start_hello ed C W kind name (worker_loadOrGenKey (wo_json W) privPath (wo_file W) (wo_gen W)) False of
        Fatal e \<Rightarrow> (Fatal e, [])
      | Panics \<Rightarrow> (Panics, [])
      | Returned (heB, peerID) \<Rightarrow>
          (case awaitHelloAck C 0 rs1 of
             (ha, k, left) \<Rightarrow>
               (case pb_Marshal C (control_envelope (CTaskRegister (task_register D peerID cases))) of
                  None \<Rightarrow> (Fatal ''marshal register'', [heB])
                | Some b \<Rightarrow>
                    if \<not> wo_written W 1 then (Fatal ''send register'', [heB])
                    else (case awaitRegisterAck C k (left @ rs2) of
                      (ra, _, _) \<Rightarrow> (Returned (ha, ra), [heB, b])))))"

section \<open>The test client\<close>

datatype client_ack = AckReceived PeerHelloAck | AckError | AckTimeout

text \<open>\<open>None\<close>: nothing arrives before the timer.\<close>

definition client_await :: "pb_codec \<Rightarrow> (link_error + byte list) option \<Rightarrow> client_ack" where
  "client_await C r =
     (case r of
        None \<Rightarrow> AckTimeout
      | Some r \<Rightarrow>
          (case read_answer pick_hello_ack C r of Answer (Some ack) \<Rightarrow> AckReceived ack | _ \<Rightarrow> AckError))"

text \<open>\<open>body\<close> is the JSON text of the test message.\<close>

definition test_envelope :: "string \<Rightarrow> string \<Rightarrow> byte list \<Rightarrow> PbEnvelope" where
  "test_envelope src dest body =
     (let h = zero_pb_header\<lparr>ph_Version := 1, ph_Type := MT_CONTROL, ph_Priority := 1,
            ph_Source := Some \<lparr>nr_Id = src, nr_Geohash = []\<rparr>\<rparr>;
          h = (if dest \<noteq> [] then h\<lparr>ph_Dest := Some \<lparr>nr_Id = dest, nr_Geohash = []\<rparr>\<rparr> else h)
      in \<lparr>pe_Header = Some h, pe_rest = [], pe_Body = Some (BRaw body)\<rparr>)"

definition client_main ::
  "ed25519 \<Rightarrow> pb_codec \<Rightarrow> world \<Rightarrow> string \<Rightarrow> string \<Rightarrow> string \<Rightarrow> string \<Rightarrow> string \<Rightarrow> byte list \<Rightarrow>
   (link_error + byte list) option \<Rightarrow> unit outcome \<times> byte list list" where
  "client_main ed C W kind name privPath src dest body r =
     (case start_hello ed C W kind name (loadOrGenKey (wo_json W) privPath (wo_file W) (wo_gen W)) True of
        Fatal e \<Rightarrow> (Fatal e, [])
      | Panics \<Rightarrow> (Panics, [])
      | Returned (heB, peerID) \<Rightarrow>
          (case client_await C r of
             AckTimeout \<Rightarrow> (Fatal ''hello/ack timeout'', [heB])
           | AckError \<Rightarrow> (Fatal ''hello/ack error'', [heB])
           | AckReceived ack \<Rightarrow>
               if \<not> ha_Accepted ack then (Fatal ''hello rejected'', [heB])
               else (case pb_Marshal C (test_envelope src dest body) of
                  None \<Rightarrow> (Fatal ''marshal test env'', [heB])
                | Some teB \<Rightarrow>
                    if wo_written W 1 then (Returned (), [heB, teB]) else (Fatal ''send test'', [heB]))))"

section \<open>The control tool\<close>

text \<open>A marshalling error is ignored; then the nil slice is sent.\<close>

definition sendCtl :: "pb_codec \<Rightarrow> bool \<Rightarrow> ControlKind \<Rightarrow> byte list list \<Rightarrow> byte list list" where
  "sendCtl C written c sent =
     (let b = (case pb_Marshal C (control_envelope c) of None \<Rightarrow> [] | Some b \<Rightarrow> b) in
      if written then sent @ [b] else sent)"

text \<open>
  The context given to \<open>Dial\<close> ends after the time-out of the tool, which closes the session. A
  receiver that waits then gets an error, unless the session is one of \<open>udp.go\<close>, whose \<open>Close\<close> does
  not reach the channel, or of \<open>quic.go\<close> over a connection none of whose methods it finds.
\<close>

definition expiry_wakes :: "(close_sig \<Rightarrow> bool) \<Rightarrow> Kind \<Rightarrow> bool" where
  "expiry_wakes closes k =
     (case k of
        KindUDP \<Rightarrow>
          (case udp_Dial (Inr []) None \<lparr>pi_ID = ''temp:ctl'', pi_Addr = [], pi_Reachable = False\<rparr> 0 of
             Inl err \<Rightarrow> True
           | Inr s \<Rightarrow> udpStream_RecvBytes (udp_Close s) 0 \<noteq> None)
      | KindQUICDirect \<Rightarrow> q_Close closes \<noteq> None
      | _ \<Rightarrow> True)"

text \<open>
  The loops that wait for a reply: \<open>t i\<close> is the clock at the \<open>i\<close>-th turn, \<open>rs\<close> what \<open>RecvBytes\<close> returns
  until nothing more comes; from then on it waits, until the session is closed if that wakes it.
\<close>

datatype 'a waited = Got 'a | Gone | Waiting

definition reply_in :: "(ControlKind \<Rightarrow> 'a option) \<Rightarrow> pb_codec \<Rightarrow> byte list \<Rightarrow> 'a option" where
  "reply_in pick C b =
     (case pb_Unmarshal C b of
        None \<Rightarrow> None
      | Some env \<Rightarrow> (case GetControl env of Some (Some k) \<Rightarrow> pick k | _ \<Rightarrow> None))"

fun wait_reply ::
  "(ControlKind \<Rightarrow> 'a option) \<Rightarrow> pb_codec \<Rightarrow> bool \<Rightarrow> int \<Rightarrow> (nat \<Rightarrow> int) \<Rightarrow> (link_error + byte list) list \<Rightarrow>
   'a waited \<times> (link_error + byte list) list" where
  "wait_reply pick C wakes deadline t [] =
     (if t 0 > deadline then Gone else if wakes then Gone else Waiting, [])"
| "wait_reply pick C wakes deadline t (r # rs) =
     (if t 0 > deadline then (Gone, r # rs)
      else case r of
          Inl err \<Rightarrow> (Gone, rs)
        | Inr b \<Rightarrow>
            (case reply_in pick C b of
               Some rep \<Rightarrow> (Got rep, rs)
             | None \<Rightarrow> wait_reply pick C wakes deadline (\<lambda>i. t (Suc i)) rs))"

definition pick_routes :: "ControlKind \<Rightarrow> RoutesReply option" where
  "pick_routes k = (case k of CRoutesReply r \<Rightarrow> Some r | _ \<Rightarrow> None)"

definition pick_workers :: "ControlKind \<Rightarrow> TaskListWorkersReply option" where
  "pick_workers k = (case k of CTaskListWorkersReply r \<Rightarrow> Some r | _ \<Rightarrow> None)"

definition pick_identity :: "ControlKind \<Rightarrow> IdentityReply option" where
  "pick_identity k = (case k of CIdentityReply r \<Rightarrow> Some r | _ \<Rightarrow> None)"

definition waitRoutes where "waitRoutes = wait_reply pick_routes"
definition waitListWorkers where "waitListWorkers = wait_reply pick_workers"

text \<open>\<open>waitIdentity\<close> takes at most five turns.\<close>

fun identity_turns ::
  "nat \<Rightarrow> pb_codec \<Rightarrow> bool \<Rightarrow> int \<Rightarrow> (nat \<Rightarrow> int) \<Rightarrow> (link_error + byte list) list \<Rightarrow>
   IdentityReply waited \<times> (link_error + byte list) list" where
  "identity_turns 0 C wakes deadline t rs = (Gone, rs)"
| "identity_turns (Suc n) C wakes deadline t rs =
     (if t 0 > deadline then (Gone, rs)
      else case rs of
          [] \<Rightarrow> (if wakes then Gone else Waiting, [])
        | Inl err # rs \<Rightarrow> (Gone, rs)
        | Inr b # rs \<Rightarrow>
            (case reply_in pick_identity C b of
               Some rep \<Rightarrow> (Got rep, rs)
             | None \<Rightarrow> identity_turns n C wakes deadline (\<lambda>i. t (Suc i)) rs))"

definition waitIdentity where "waitIdentity = identity_turns 5"

text \<open>
  The program of the control tool. Its \<open>fatalf\<close> prints and returns, so that it goes on with a nil
  transport, session or stream, or an empty Hello. Only the last reply is kept here, \<open>None\<close> when
  the tool prints an empty one after a time-out.
\<close>

datatype ctl_result = CtlPanics | CtlWaits | Workers "TaskListWorkersReply option" | Routes "RoutesReply option"

definition zero_hello :: Hello where
  "zero_hello = \<lparr>hl_Version = 0, hl_NodeName = [], hl_Alg = [], hl_PubKey = [], hl_Nonce = [], hl_Timestamp = 0, hl_Sig = []\<rparr>"

definition list_request :: TaskListWorkers where
  "list_request = \<lparr>tl_LabelFilter = [], tl_FunctionName = [], tl_Version = [], tl_IncludeTasks = True,
     tl_PageSize = 0, tl_PageToken = []\<rparr>"

definition last_reply :: "'a waited \<times> (link_error + byte list) list \<Rightarrow> ('a option \<Rightarrow> ctl_result) \<Rightarrow> ctl_result" where
  "last_reply w f = (case fst w of Got r \<Rightarrow> f (Some r) | Gone \<Rightarrow> f None | Waiting \<Rightarrow> CtlWaits)"

definition ctl_main ::
  "ed25519 \<Rightarrow> pb_codec \<Rightarrow> world \<Rightarrow> string \<Rightarrow> string \<Rightarrow> bool \<Rightarrow> int \<Rightarrow> (nat \<Rightarrow> int) \<Rightarrow> int \<Rightarrow> (nat \<Rightarrow> int) \<Rightarrow>
   (link_error + byte list) list \<Rightarrow> ctl_result \<times> byte list list" where
  "ctl_main ed C W kind name listWorkers d1 t1 d2 t2 rs =
     (let priv = (case wo_gen W of None \<Rightarrow> [] | Some k \<Rightarrow> k) in
      case BuildHello ed name priv (wo_nonce W) (unixMilli (wo_now W)) of
        None \<Rightarrow> (CtlPanics, [])
      | Some res \<Rightarrow>
          let hello = (case res of Inl err \<Rightarrow> zero_hello | Inr (h, pid) \<Rightarrow> h) in
          case NewByKind (wo_windows W) kind of
            Inl err \<Rightarrow> (CtlPanics, [])
          | Inr k \<Rightarrow>
              if \<not> wo_dialled W \<or> \<not> wo_opened W then (CtlPanics, [])
              else
                let heB = (case pb_Marshal C (client_hello hello) of None \<Rightarrow> [] | Some b \<Rightarrow> b);
                    sent = (if wo_written W 0 then [heB] else []);
                    sent = sendCtl C (wo_written W 1) CGetIdentity sent;
                    wakes = expiry_wakes (wo_closes W) k
                in case waitIdentity C wakes d1 t1 rs of
                     (Waiting, _) \<Rightarrow> (CtlWaits, sent)
                   | (_, rs) \<Rightarrow>
                       if listWorkers then
                         (last_reply (waitListWorkers C wakes d2 t2 rs) Workers,
                          sendCtl C (wo_written W 2) (CTaskListWorkers list_request) sent)
                       else
                         (last_reply (waitRoutes C wakes d2 t2 rs) Routes, sendCtl C (wo_written W 2) CGetRoutes sent))"

section \<open>Lemmas\<close>

lemma white_not_b64: "white b \<Longrightarrow> b \<notin> set (bytes_of (b64_encode key))"
proof
  assume w: "white b" and "b \<in> set (bytes_of (b64_encode key))"
  then obtain c where c: "c \<in> set (b64_encode key)" "b = of_char c" by (auto simp: bytes_of_def)
  then have "33 \<le> (of_char c :: nat)" using b64_encode_chars [of c key] by (simp add: printable_def)
  moreover have "(of_char c :: nat) = unat b" by (simp add: c(2) unat_of_char_byte)
  ultimately show False using w by (auto simp: white_def)
qed

lemma bytesTrimSpace_padded:
  assumes "\<forall>b \<in> set pre. white b" "\<forall>b \<in> set post. white b" "\<forall>b \<in> set mid. \<not> white b"
  shows "bytesTrimSpace (pre @ mid @ post) = mid"
proof -
  have none: "dropWhile white xs = []" if "\<forall>b \<in> set xs. white b" for xs using that by simp
  have cut: "dropWhile white (xs @ ys) = dropWhile white ys" if "\<forall>b \<in> set xs. white b" for xs ys
    using that by (simp add: dropWhile_append2)
  have keep: "dropWhile white (xs @ ys) = xs @ ys" if "xs \<noteq> []" "\<forall>b \<in> set xs. \<not> white b" for xs ys
    using that by (cases xs) simp_all
  show ?thesis
  proof (cases "mid = []")
    case True
    then show ?thesis using none [of "pre @ post"] assms(1,2) unfolding bytesTrimSpace_def by (auto dest: set_dropWhileD)
  next
    case False
    then show ?thesis
      using cut [OF assms(1), of "mid @ post"] keep [OF False assms(3), of post] cut [of "rev post" "rev mid"]
        keep [of "rev mid" "[]"] assms(2,3) by (simp add: bytesTrimSpace_def)
  qed
qed

lemma length_bytesTrimSpace: "length (bytesTrimSpace b) \<le> length b"
  unfolding bytesTrimSpace_def by (metis length_dropWhile_le length_rev order_trans)

lemma bytesTrimSpace_shrinks:
  assumes "b \<noteq> []" "white (last b)"
  shows "length (bytesTrimSpace b) < length b"
proof -
  have "length (dropWhile white (rev (dropWhile white b))) < length b"
  proof (cases "dropWhile white b = []")
    case False
    then have "last (dropWhile white b) = last b" by (metis last_appendR takeWhile_dropWhile_id)
    then have "white (hd (rev (dropWhile white b)))" using assms False by (simp add: hd_rev)
    then have "length (dropWhile white (rev (dropWhile white b))) < length (rev (dropWhile white b))"
      using False by (cases "rev (dropWhile white b)") (auto intro: le_imp_less_Suc length_dropWhile_le)
    then show ?thesis using length_dropWhile_le [of white b] by simp
  next
    case True
    then show ?thesis using assms(1) by (simp only: rev.simps dropWhile.simps list.size) simp
  qed
  then show ?thesis by (simp add: bytesTrimSpace_def)
qed

lemma BuildHello_short: "length priv < PrivateKeySize \<Longrightarrow> BuildHello ed name priv (Some nonce) now = None"
  by (simp add: BuildHello_def SignEd25519_def Let_def split: option.split)

lemma BuildHello_version: "BuildHello ed name priv nonce now = Some (Inr (h, pid)) \<Longrightarrow> hl_Version h = 1"
  by (auto simp: BuildHello_def Let_def split: option.splits)

lemma loadOrGenKey_file:
  "path \<noteq> [] \<Longrightarrow> json b = None \<Longrightarrow> loadOrGenKey json path (Some b) gen =
     Returned (case b64_decode (string_of (bytesTrimSpace b)) of Some db \<Rightarrow> db | None \<Rightarrow> bytesTrimSpace b)"
  by (simp add: loadOrGenKey_def split: option.split)

text \<open>The first message of a list that fails or answers, and what the loops make of it.\<close>

definition first_reply ::
  "(ControlKind \<Rightarrow> 'a option) \<Rightarrow> pb_codec \<Rightarrow> (link_error + byte list) list \<Rightarrow> 'a waited option" where
  "first_reply pick C rs =
     (case dropWhile (\<lambda>r. case r of Inl err \<Rightarrow> False | Inr b \<Rightarrow> reply_in pick C b = None) rs of
        [] \<Rightarrow> None
      | Inl err # _ \<Rightarrow> Some Gone
      | Inr b # _ \<Rightarrow> Some (Got (the (reply_in pick C b))))"

lemma first_reply_simps [simp]:
  "first_reply pick C [] = None"
  "first_reply pick C (Inl err # rs) = Some Gone"
  "first_reply pick C (Inr b # rs) =
     (case reply_in pick C b of None \<Rightarrow> first_reply pick C rs | Some rep \<Rightarrow> Some (Got rep))"
  by (simp_all add: first_reply_def split: option.split)

text \<open>\<open>in_time\<close>: of the looks at the clock, the first \<open>n\<close> are in time, the next is not or there is none.\<close>

definition in_time :: "nat \<Rightarrow> int \<Rightarrow> (nat \<Rightarrow> int) \<Rightarrow> 'r list \<Rightarrow> bool" where
  "in_time n deadline t rs \<longleftrightarrow>
     n \<le> length rs \<and> (\<forall>i < n. t i \<le> deadline) \<and> (n = length rs \<or> deadline < t n)"

lemma in_time_step:
  assumes "in_time (Suc n) deadline t (r # rs)"
  shows "t 0 \<le> deadline" "in_time n deadline (\<lambda>i. t (Suc i)) rs"
  using assms by (auto simp: in_time_def)

lemma wait_reply_first:
  "in_time n deadline t rs \<Longrightarrow> fst (wait_reply pick C wakes deadline t rs) =
    (case first_reply pick C (take n rs) of
       Some r \<Rightarrow> r
     | None \<Rightarrow> if t n \<le> deadline \<and> \<not> wakes then Waiting else Gone)"
proof (induction rs arbitrary: t n)
  case Nil
  then show ?case by (auto simp: in_time_def)
next
  case (Cons r rs)
  show ?case
  proof (cases n)
    case 0
    then show ?thesis using Cons.prems by (simp add: in_time_def)
  next
    case (Suc k)
    note s = in_time_step [OF Cons.prems [unfolded Suc]]
    show ?thesis using Cons.IH [OF s(2)] s(1) Suc by (auto split: sum.split option.split)
  qed
qed

lemma identity_turns_first:
  "in_time n deadline t rs \<Longrightarrow> fst (identity_turns k C wakes deadline t rs) =
    (case first_reply pick_identity C (take (min n k) rs) of
       Some r \<Rightarrow> r
     | None \<Rightarrow> if n < k \<and> t n \<le> deadline \<and> \<not> wakes then Waiting else Gone)"
proof (induction k arbitrary: t n rs)
  case (Suc k)
  show ?case
  proof (cases n)
    case 0
    then show ?thesis using Suc.prems by (auto simp: in_time_def split: list.split)
  next
    case (Suc l)
    then obtain r rs' where rs: "rs = r # rs'" using Suc.prems by (cases rs) (simp_all add: in_time_def)
    note s = in_time_step [OF Suc.prems [unfolded \<open>n = Suc l\<close> rs]]
    show ?thesis using Suc.IH [OF s(2)] s(1) by (auto simp: rs \<open>n = Suc l\<close> split: sum.split option.split)
  qed
qed simp

lemma expiry_wakes_kinds [simp]:
  "\<not> expiry_wakes closes KindUDP" "expiry_wakes closes KindTCPDirect" "expiry_wakes closes KindMem"
  "expiry_wakes closes KindWinPipe" "expiry_wakes closes KindQUICDirect \<longleftrightarrow> q_Close closes \<noteq> None"
  by (simp_all add: expiry_wakes_def udp_Dial_def udp_sess_defs make_chan_def)

lemma dedup_distinct:
  assumes "distinct (map taskKeyOf ts)"
  shows "mset (dedupTasks ts) = mset ts"
proof -
  let ?m = "put_tasks [] ts"
  have k: "keyed ?m" "map_of ?m = last_task ts" using keyed_put [of "[]" ts] by (simp_all add: keyed_def)
  have "distinct (map fst (rev (map (\<lambda>t. (taskKeyOf t, t)) ts)))" using assms by (simp add: rev_map [symmetric] o_def)
  then have "last_task ts (taskKeyOf t) = Some t \<longleftrightarrow> t \<in> set ts" for t
    unfolding last_task_def by (subst map_of_eq_Some_iff) auto
  then have "set (sort_tasks ?m) = set ts" using sort_tasks_keyed(3) [OF k(1)] k(2) by auto
  moreover have "distinct (sort_tasks ?m)" "distinct ts"
    using sort_tasks_keyed(2) [OF k(1)] assms by (simp_all add: distinct_map)
  ultimately show ?thesis by (auto simp: dedupTasks_def set_eq_iff_mset_eq_distinct)
qed

lemma worker_task_keys:
  "taskKeyOf (analyze_task D) = ''ai.analyze@1.0.0''" "taskKeyOf (write_task D) = ''storage.write@2024.09''"
  "taskKeyOf (compute_task D) = ''private.compute@1.0''"
  by (simp_all add: taskKeyOf_def analyze_task_def write_task_def compute_task_def zero_task_def TrimSpace_printable printable_def)

lemma worker_doc_tasks: "mset (wd_Tasks (register_doc (task_register D pid cases) now)) = mset (worker_tasks D cases)"
  using dedup_distinct [of "worker_tasks D cases"]
  by (simp add: register_doc_def task_register_def) (simp add: worker_tasks_def Let_def worker_task_keys)

section \<open>Properties\<close>

text \<open>
  C39: a key stored as base64 text is loaded whatever white space surrounds it, but a key stored
  as raw bytes is trimmed like a text: when the last of its 64 bytes happens to be a white space
  byte the key loaded is too short and signing the Hello with it panics.
\<close>

theorem key_file_forms:
  assumes "path \<noteq> []" "\<forall>b \<in> set pre. white b" "\<forall>b \<in> set post. white b"
    and "json (pre @ bytes_of (b64_encode key) @ post) = None"
    and "length raw = PrivateKeySize" "white (last raw)" "json raw = None"
    and "b64_decode (string_of (bytesTrimSpace raw)) = None"
  shows "loadOrGenKey json path (Some (pre @ bytes_of (b64_encode key) @ post)) gen = Returned key \<and>
    (\<exists>k. loadOrGenKey json path (Some raw) gen = Returned k \<and> BuildHello ed name k (Some nonce) now = None)"
proof
  have "\<forall>b \<in> set (bytes_of (b64_encode key)). \<not> white b" using white_not_b64 by blast
  then show "loadOrGenKey json path (Some (pre @ bytes_of (b64_encode key) @ post)) gen = Returned key"
    using assms(1-4) by (simp add: loadOrGenKey_file bytesTrimSpace_padded b64_decode_encode)
  have "raw \<noteq> []" using assms(5) by (auto simp: PrivateKeySize_def)
  then show "\<exists>k. loadOrGenKey json path (Some raw) gen = Returned k \<and> BuildHello ed name k (Some nonce) now = None"
    using assms bytesTrimSpace_shrinks [of raw] by (simp add: loadOrGenKey_file BuildHello_short)
qed


text \<open>
  Which tasks a worker registers depends only on the set of the names in its argument, read
  without case and surrounding space: each of the three at most once, in a fixed order, and under
  different keys, so that the registry keeps them all.
\<close>

theorem worker_registers_enabled:
  "map td_Name (worker_tasks D cases) =
     (if ''basic'' \<in> enabled cases then [''ai.analyze''] else []) @
     (if ''stream'' \<in> enabled cases then [''storage.write''] else []) @
     (if ''auth'' \<in> enabled cases then [''private.compute''] else []) \<and>
   distinct (map taskKeyOf (worker_tasks D cases)) \<and>
   mset (wd_Tasks (register_doc (task_register D pid cases) now)) = mset (worker_tasks D cases)"
proof (intro conjI)
  show d: "distinct (map taskKeyOf (worker_tasks D cases))"
    by (simp add: worker_tasks_def Let_def worker_task_keys)
  show "mset (wd_Tasks (register_doc (task_register D pid cases) now)) = mset (worker_tasks D cases)"
    by (rule worker_doc_tasks)
qed (simp add: worker_tasks_def Let_def analyze_task_def write_task_def compute_task_def)

text \<open>
  A client with a key of 64 bytes that says Hello to a node is identified by the node and
  accepted: the session runs under the id of the client's key, the node's answer is the first
  thing it writes, and the client reads it as an acceptance of that id.
\<close>

theorem client_accepted_by_node:
  assumes "ed_law (ev_ed E)" "length priv = PrivateKeySize"
    and "\<bar>unixMilli (av_now a) - unixMilli (wo_now W)\<bar> \<le> 300000"
    and "NewByKind (wo_windows W) kind = Inr k" "wo_nonce W = Some nonce" "wo_dialled W" "wo_opened W" "wo_written W 0"
    and "BuildHello (ev_ed E) name priv (Some nonce) (unixMilli (wo_now W)) = Some (Inr (h, pid))"
    and "pb_keeps (ev_pb E) (client_hello h) (av_buf a)"
    and "pb_keeps (ev_pb E) (control_envelope (CHelloAck (hello_ack E pid h (av_now a)))) b" "av_written a"
    and "GetSession (nd_mgr n) (session_peer n s) = Some s" "GetSession (nd_mgr n) pid = None" "pid \<noteq> session_peer n s"
  shows "pid = CanonicalPeerIDFromPubKey ''ed25519'' (drop 32 priv) \<and>
    start_hello (ev_ed E) (ev_pb E) W kind name (Returned priv) strict = Returned (av_buf a, pid) \<and>
    fst (session_first E s raddr a n) = pid \<and>
    nd_out (snd (session_first E s raddr a n)) = nd_out n @ [(s, b)] \<and>
    (\<exists>ack. client_await (ev_pb E) (Some (Inr b)) = AckReceived ack \<and> ha_Accepted ack \<and> ha_PeerId ack = pid)"
proof -
  have h: "VerifyHello (ev_ed E) h 0 (unixMilli (av_now a)) = Inr pid"
      "pid = CanonicalPeerIDFromPubKey ''ed25519'' (drop 32 priv)"
    using hello_accepted [OF assms(1-3), of name nonce] assms(9) by auto
  let ?he = "\<lparr>he_NodeName = hl_NodeName h, he_Alg = hl_Alg h, he_Pubkey = hl_PubKey h,
     he_Nonce = hl_Nonce h, he_TsUnixMs = hl_Timestamp h, he_Sig = hl_Sig h, he_Meta = None\<rparr>"
  have same: "hello_of ?he = h" using BuildHello_version [OF assms(9)] by (simp add: hello_of_def)
  have buf: "pb_Unmarshal (ev_pb E) (av_buf a) = Some (control_envelope (CHello ?he))"
    using assms(10) by (simp add: client_hello_def pb_keeps_def)
  have pid: "pid \<noteq> []" using h(2) by (simp add: CanonicalPeerIDFromPubKey_def Let_def)
  let ?ack = "hello_ack E pid h (av_now a)"
  have b: "pb_Marshal (ev_pb E) (control_envelope (CHelloAck ?ack)) = Some b"
      "pb_Unmarshal (ev_pb E) b = Some (control_envelope (CHelloAck ?ack))"
    using assms(11) by (simp_all add: pb_keeps_def)
  note first = first_Hello [OF buf, unfolded same, OF h(1) pid assms(15,13,14) b(1) assms(12)]
  have "start_hello (ev_ed E) (ev_pb E) W kind name (Returned priv) strict = Returned (av_buf a, pid)"
    using assms(4-10) by (simp add: start_hello_def pb_keeps_def)
  moreover have "client_await (ev_pb E) (Some (Inr b)) = AckReceived ?ack"
    using b(2) by (simp add: client_await_def read_answer_def pick_hello_ack_def)
  ultimately show ?thesis using h(2) first by (auto simp: hello_ack_def)
qed

section \<open>Witnesses\<close>

definition raw_key :: "byte list" where "raw_key = replicate 63 255 @ [10]"

lemma raw_key_trimmed: "bytesTrimSpace raw_key = replicate 63 255"
  using bytesTrimSpace_padded [of "[]" "[10]" "replicate 63 255"] by (simp add: raw_key_def white_def)

lemma raw_key_no_text: "b64_decode (string_of (bytesTrimSpace raw_key)) = None"
proof -
  have r: "replicate 63 (255 :: byte) = 255 # replicate 62 255" by (simp flip: replicate_Suc)
  have i: "b64_index (char_of (255 :: nat)) = None" by code_simp
  show ?thesis unfolding raw_key_trimmed r by (simp add: b64_decode_def string_of_def i)
qed

theorem key_file_forms_witness:
  "loadOrGenKey (\<lambda>b. None) ''key'' (Some ([32] @ bytes_of (b64_encode [1, 2, 3]) @ [10])) None = Returned [1, 2, 3] \<and>
   (\<exists>k. loadOrGenKey (\<lambda>b. None) ''key'' (Some raw_key) None = Returned k \<and>
     BuildHello sample_ed ''A'' k (Some [1]) 0 = None)"
  by (rule key_file_forms) (simp_all add: white_def raw_key_no_text, simp_all add: raw_key_def PrivateKeySize_def)

definition sample_world :: world where
  "sample_world = \<lparr>wo_windows = False, wo_json = (\<lambda>b. None), wo_file = None, wo_gen = Some key_a, wo_nonce = Some [1],
     wo_now = 5, wo_dialled = True, wo_opened = True, wo_written = (\<lambda>i. True), wo_closes = (\<lambda>c. False)\<rparr>"

definition built :: "Hello \<times> PeerID" where
  "built = (case BuildHello sample_ed ''A'' key_a (Some [1]) (unixMilli 5) of
     Some (Inr x) \<Rightarrow> x | _ \<Rightarrow> (zero_hello, []))"

lemma built_eq:
  "BuildHello sample_ed ''A'' key_a (Some [1]) (unixMilli 5) = Some (Inr (fst built, id_a))"
proof -
  have k: "length key_a = PrivateKeySize" by (simp add: key_a_def PrivateKeySize_def)
  show ?thesis using hello_accepted [OF sample_ed_law k, of "unixMilli 5" "unixMilli 5" "''A''" "[1]"]
    by (auto simp: built_def id_a_def)
qed

text \<open>
  The third look at the clock is too late, so the third message, an answer, is not read; and over
  UDP no answer at all is an endless wait.
\<close>

definition routes_codec :: "RoutesReply \<Rightarrow> pb_codec" where
  "routes_codec r = \<lparr>pb_Marshal = (\<lambda>e. None),
     pb_Unmarshal = (\<lambda>b. if b = [7] then Some (control_envelope (CRoutesReply r)) else None)\<rparr>"


definition node_for_client :: NodeEnv where
  "node_for_client = node_b\<lparr>ev_pb := two_envelopes (client_hello (fst built))
     (control_envelope (CHelloAck (hello_ack node_b id_a (fst built) 5)))\<rparr>"

theorem client_accepted_by_node_witness:
  "fst (session_first node_for_client 0 ''addr'' (arrives [1]) one_session) = id_a"
proof -
  let ?ack = "hello_ack node_b id_a (fst built) 5"
  have k: "length key_a = PrivateKeySize" by (simp add: key_a_def PrivateKeySize_def)
  have ed: "ev_ed node_for_client = sample_ed" by (simp add: node_for_client_def node_b_def)
  have ack: "hello_ack node_for_client id_a (fst built) 5 = ?ack" by (simp add: hello_ack_def node_for_client_def)
  have "client_hello (fst built) \<noteq> control_envelope (CHelloAck ?ack)"
    by (simp add: client_hello_def control_envelope_def)
  then have c: "pb_keeps (ev_pb node_for_client) (client_hello (fst built)) [1]"
      "pb_keeps (ev_pb node_for_client) (control_envelope (CHelloAck ?ack)) [2]"
    by (simp_all add: node_for_client_def two_envelopes_keep)
  have a: "av_buf (arrives b) = b" "av_now (arrives b) = 5" "av_written (arrives b)" for b by (simp_all add: arrives_def)
  show ?thesis
    by (rule conjunct1 [OF conjunct2 [OF conjunct2 [OF client_accepted_by_node [where priv = key_a and W = sample_world
          and kind = "''udp''" and k = KindUDP and nonce = "[1]" and name = "''A''" and h = "fst built" and b = "[2]"]]]])
      (simp_all add: ed a ack c k sample_ed_law sample_world_def NewByKind_def built_eq one_session_peer
        one_session_canonical id_a_not)
qed

end
