(* ===== verification/Directory.thy ===== *)
theory Directory
  imports Clients
begin

text \<open>
  The worker registry as its clients see it: the messages a node handles, on any of its sessions
  and in any order, act on the registry as the operations they carry, although the registry
  shares its key-value store with the peer documents the same messages change. From it, the path
  of a registration: a worker's message, the node, and the listing the control tool reads.
\<close>

section \<open>The registry inside a node\<close>

definition node_reg_rel :: "NodeEnv \<Rightarrow> Node \<Rightarrow> reg_abs \<Rightarrow> bool" where
  "node_reg_rel E n a \<longleftrightarrow>
     (\<exists>ws. so_workers (nd_stores n) = Some ws \<and> reg_rel (ev_reg E) (reg_view (so_kv (nd_stores n)) ws) a)"

text \<open>The registry operation a message carries, if it is not passed on to another node.\<close>

definition carried :: "NodeEnv \<Rightarrow> arrival \<Rightarrow> reg_op list" where
  "carried E x =
     (case pb_Unmarshal (ev_pb E) (av_buf x) of
        None \<Rightarrow> []
      | Some m \<Rightarrow>
          if forwards E m then []
          else (case GetControl m of
             Some (Some (CTaskRegister tr)) \<Rightarrow> [RRegister tr (av_clks x 1)]
           | Some (Some (CTaskUpdate tu)) \<Rightarrow> [RUpdate tu (av_clks x 1)]
           | Some (Some (CTaskDeregister td)) \<Rightarrow> [RDeregister td (av_clks x 1)]
           | _ \<Rightarrow> []))"

text \<open>Operations on keys that are not the registry's leave its records alone.\<close>

definition spares :: "Store \<Rightarrow> Store \<Rightarrow> bool" where
  "spares kv kv' \<longleftrightarrow> (kv_plain kv \<longrightarrow> kv_plain kv' \<and> (\<forall>w. kv_map kv' (reg_key w) = kv_map kv (reg_key w)))"

lemma spares_refl [simp]: "spares kv kv"
  by (simp add: spares_def)

lemma spares_trans: "spares a b \<Longrightarrow> spares b c \<Longrightarrow> spares a c"
  by (simp add: spares_def)

lemma spares_Update: "\<forall>w. k \<noteq> reg_key w \<Longrightarrow> spares kv (snd (Update kv k f now))"
  using plain_Update [of kv k f now] by (auto simp: spares_def)

lemma spares_Get: "\<forall>w. k \<noteq> reg_key w \<Longrightarrow> spares kv (snd (Get kv k now now2))"
  using plain_Get [of kv k now now2] by (auto simp: spares_def purge_def split: option.split)

lemma reg_rel_spares:
  "reg_rel J (reg_view kv ws) a \<Longrightarrow> spares kv kv' \<Longrightarrow> reg_rel J (reg_view kv' ws) a"
  by (simp add: reg_rel_def spares_def reg_view_def)

lemma spares_RecordExchange: "spares (pst_kv ps) (pst_kv (RecordExchange J ps p a b c d clk))"
  by (simp add: RecordExchange_def kv_update_def spares_Update)

lemma spares_exchange:
  "spares kv (pst_kv (RecordExchange J \<lparr>pst_kv = kv, pst_peerIndex = i, pst_routeIndex = j\<rparr> p a b c d clk))"
  using spares_RecordExchange [of "\<lparr>pst_kv = kv, pst_peerIndex = i, pst_routeIndex = j\<rparr>"] by simp

lemma spares_routes_peers: "spares (pst_kv ps) (pst_kv (snd (routes_peers J ps ids clks out)))"
proof (induction J ps ids clks out rule: routes_peers.induct)
  case (2 J ps i ids clks out)
  obtain r t where g: "peers_Get J ps i (clks 0) = (r, t)" by (cases "peers_Get J ps i (clks 0)")
  have "pst_kv t = snd (Get (pst_kv ps) (keyPeer i) (clks 0 0) (clks 0 1))"
    using g by (auto simp: peers_Get_def split: prod.splits option.splits)
  then have "spares (pst_kv ps) (pst_kv t)" by (simp add: spares_Get)
  then show ?case
    using "2.IH"(1) [OF g [symmetric]] "2.IH"(2) [OF g [symmetric]] spares_trans g by (cases r) auto
qed simp

lemma spares_routes_candidates: "spares (pst_kv ps) (pst_kv (snd (routes_candidates J ps ts clks out)))"
proof (induction J ps ts clks out rule: routes_candidates.induct)
  case (2 J ps i ids clks out)
  obtain r t where g: "GetRouteCandidates J ps i (clks 0) = (r, t)" by (cases "GetRouteCandidates J ps i (clks 0)")
  have "pst_kv t = snd (Get (pst_kv ps) (keyRouteCands i) (clks 0 1) (clks 0 2))"
    using g by (auto simp: GetRouteCandidates_def Let_def split: prod.splits option.splits)
  then have "spares (pst_kv ps) (pst_kv t)" by (simp add: spares_Get)
  then show ?case using "2.IH" [OF g [symmetric]] spares_trans g by auto
qed simp

lemma spares_buildRoutesReply: "spares (so_kv S) (so_kv (snd (buildRoutesReply J S ids targets clks)))"
proof (cases "so_peers S")
  case (Some ix)
  obtain out ps where r: "routes_peers J (peers_view (so_kv S) ix) ids clks empty_reply = (out, ps)"
    by (cases "routes_peers J (peers_view (so_kv S) ix) ids clks empty_reply")
  have "spares (so_kv S) (pst_kv ps)"
    using spares_routes_peers [of "peers_view (so_kv S) ix" J ids clks empty_reply] r by (simp add: peers_view_def)
  from spares_trans [OF this spares_routes_candidates] show ?thesis
    using r by (auto simp: buildRoutesReply_def Some split: prod.split) (metis prod.sel(2))
qed (simp add: buildRoutesReply_def)

lemma workers_buildRoutesReply [simp]: "so_workers (snd (buildRoutesReply J S ids targets clks)) = so_workers S"
  by (simp add: buildRoutesReply_def split: option.split prod.split)

lemma node_reg_rel_stores:
  "nd_stores n' = nd_stores n \<Longrightarrow> node_reg_rel E n' a = node_reg_rel E n a"
  by (simp add: node_reg_rel_def)

lemma node_reg_rel_spares:
  assumes "node_reg_rel E n a" "so_workers (nd_stores n') = so_workers (nd_stores n)"
    and "spares (so_kv (nd_stores n)) (so_kv (nd_stores n'))"
  shows "node_reg_rel E n' a"
  using assms unfolding node_reg_rel_def by (metis reg_rel_spares)

lemma node_reg_exchange:
  "node_reg_rel E n a \<Longrightarrow> node_reg_rel E (on_stores (on_peers (\<lambda>ps. RecordExchange J ps p b c d e clk)) n) a"
  by (erule node_reg_rel_spares)
    (auto simp: on_peers_def peers_view_def Let_def spares_exchange split: option.split)

lemma stores_enqueue_ack [simp]: "nd_stores (enqueueDirectStatusAck E p m st now n) = nd_stores n"
  by (simp add: enqueueDirectStatusAck_def Let_def split: option.split)

lemma stores_ack_unless [simp]: "nd_stores (ack_unless_status E s m now n) = nd_stores n"
  by (simp add: ack_unless_status_def split: option.split)

lemma view_of_reg [simp]: "reg_view (rg_kv r) (rg_workers r) = r"
  by (simp add: reg_view_def)

lemma node_reg_with:
  "reg_rel (ev_reg E) r a \<Longrightarrow> node_reg_rel E (on_stores (\<lambda>S. with_reg S r) n) a"
  by (simp add: node_reg_rel_def with_reg_def)

lemma node_reg_send: "node_reg_rel E (snd (sendProto E s w env n)) a = node_reg_rel E n a"
  by (rule node_reg_rel_stores) simp

lemma node_reg_routes:
  "node_reg_rel E n a \<Longrightarrow>
   node_reg_rel E (n\<lparr>nd_stores := snd (buildRoutesReply J (nd_stores n) ids targets clks)\<rparr>) a"
  by (erule node_reg_rel_spares) (simp_all add: spares_buildRoutesReply)

definition request_op :: "Control \<Rightarrow> clock \<Rightarrow> reg_op list" where
  "request_op ctrl clk =
     (case ctrl of
        Some (CTaskRegister tr) \<Rightarrow> [RRegister tr clk]
      | Some (CTaskUpdate tu) \<Rightarrow> [RUpdate tu clk]
      | Some (CTaskDeregister td) \<Rightarrow> [RDeregister td clk]
      | _ \<Rightarrow> [])"

lemma node_reg_request:
  assumes "node_reg_rel E n a" "all_kept (ev_reg E) a (request_op ctrl (clks 0))"
  shows "node_reg_rel E (snd (handleControlRequest E s w ids targets clks ctrl n))
    (reg_spec_run a (request_op ctrl (clks 0)))"
proof (cases ctrl)
  case None
  then show ?thesis using assms(1) by (simp add: handleControlRequest_def request_op_def)
next
  case (Some k)
  obtain ws where ws: "so_workers (nd_stores n) = Some ws"
    and r: "reg_rel (ev_reg E) (reg_view (so_kv (nd_stores n)) ws) a" using assms(1) by (auto simp: node_reg_rel_def)
  note step = reg_step [OF r]
  show ?thesis
  proof (cases k)
    case CGetRoutes
    then show ?thesis
      using node_reg_routes [OF assms(1), of "ev_peers E" ids targets clks] Some
      by (simp add: handleControlRequest_def request_op_def node_reg_send split: prod.split) (metis prod.sel(2))
  next
    case (CTaskRegister tr)
    then have "reg_rel (ev_reg E) (snd (Register (ev_reg E) (reg_view (so_kv (nd_stores n)) ws) tr (clks 0)))
        (reg_spec a (RRegister tr (clks 0)))"
      using step [of "RRegister tr (clks 0)"] assms(2) Some by (simp add: request_op_def)
    from node_reg_with [OF this, of n] show ?thesis using CTaskRegister Some ws
      by (simp add: handleControlRequest_def request_op_def node_reg_send split: prod.split) (metis prod.sel(2))
  next
    case (CTaskUpdate tu)
    then have "reg_rel (ev_reg E) (reg_Update (ev_reg E) (reg_view (so_kv (nd_stores n)) ws) tu (clks 0))
        (reg_spec a (RUpdate tu (clks 0)))"
      using step [of "RUpdate tu (clks 0)"] assms(2) Some by (simp add: request_op_def)
    from node_reg_with [OF this, of n] show ?thesis using CTaskUpdate Some ws
      by (simp add: handleControlRequest_def request_op_def)
  next
    case (CTaskDeregister td)
    then have "reg_rel (ev_reg E) (Deregister (ev_reg E) (reg_view (so_kv (nd_stores n)) ws) td (clks 0))
        (reg_spec a (RDeregister td (clks 0)))"
      using step [of "RDeregister td (clks 0)"] assms(2) Some by (simp add: request_op_def)
    from node_reg_with [OF this, of n] show ?thesis using CTaskDeregister Some ws
      by (simp add: handleControlRequest_def request_op_def)
  next
    case (CTaskListWorkers req)
    obtain m W where a: "a = (m, W)" by (cases a)
    have "reg_rel (ev_reg E) (snd (ListWorkers (ev_reg E) (reg_view (so_kv (nd_stores n)) ws) req (clks 0))) a"
      using ListWorkers_spec [of "ev_reg E" "reg_view (so_kv (nd_stores n)) ws" m W req "clks 0"] r a by blast
    from node_reg_with [OF this, of n] show ?thesis using CTaskListWorkers Some ws
      by (simp add: handleControlRequest_def request_op_def node_reg_send split: prod.split) (metis prod.sel(2))
  qed (use assms(1) in \<open>simp_all add: Some handleControlRequest_def request_op_def node_reg_send\<close>)
qed

lemma node_reg_message:
  assumes "node_reg_rel E n a" "all_kept (ev_reg E) a (carried E x)"
  shows "node_reg_rel E (session_message E s x n) (reg_spec_run a (carried E x))"
proof -
  let ?n = "on_stores (on_peers (\<lambda>ps. RecordExchange (ev_peers E) ps (session_peer n s)
        (of_nat (length (av_buf x))) 0 1 0 (av_clks x 0))) n"
  have r: "node_reg_rel E ?n a" by (rule node_reg_exchange [OF assms(1)])
  show ?thesis
  proof (cases "pb_Unmarshal (ev_pb E) (av_buf x)")
    case None
    then show ?thesis using r by (simp add: session_message_def carried_def Let_def)
  next
    case (Some m)
    have ack: "node_reg_rel E (ack_unless_status E s m now n') b = node_reg_rel E n' b" for now n' b
      by (rule node_reg_rel_stores) simp
    show ?thesis
    proof (cases "forwards E m")
      case True
      have "node_reg_rel E (?n\<lparr>nd_fwd := f\<rparr>) a" for f using r by (simp add: node_reg_rel_def)
      then show ?thesis using True Some
        by (simp only: session_message_def carried_def Let_def option.case if_True ack reg_spec_run.simps)
    next
      case False
      show ?thesis
      proof (cases "GetControl m")
        case None
        then show ?thesis using False Some r
          by (simp only: session_message_def carried_def Let_def option.case if_False ack reg_spec_run.simps)
      next
        case (Some ctrl)
        have c: "carried E x = request_op ctrl (av_clks x 1)"
          using False \<open>pb_Unmarshal (ev_pb E) (av_buf x) = Some m\<close> Some
          by (simp add: carried_def request_op_def split: option.split ControlKind.split)
        have "node_reg_rel E (snd (handleControlRequest E s (av_written x) (av_ids x) (av_targets x)
            (\<lambda>k. av_clks x (Suc k)) ctrl ?n)) (reg_spec_run a (carried E x))"
          using node_reg_request [OF r, of ctrl "\<lambda>k. av_clks x (Suc k)"] assms(2) by (simp add: c)
        then show ?thesis using False Some \<open>pb_Unmarshal (ev_pb E) (av_buf x) = Some m\<close>
          by (simp only: session_message_def Let_def option.case if_False ack)
      qed
    qed
  qed
qed

text \<open>Messages of several sessions, in any order.\<close>

fun carried_all :: "NodeEnv \<Rightarrow> (sid \<times> arrival) list \<Rightarrow> reg_op list" where
  "carried_all E [] = []"
| "carried_all E ((s, x) # xs) = carried E x @ carried_all E xs"

lemma reg_spec_run_append: "reg_spec_run a (xs @ ys) = reg_spec_run (reg_spec_run a xs) ys"
  by (induction xs arbitrary: a) simp_all

lemma all_kept_append: "all_kept J a (xs @ ys) \<longleftrightarrow> all_kept J a xs \<and> all_kept J (reg_spec_run a xs) ys"
  by (induction xs arbitrary: a) simp_all

lemma node_reg_messages:
  "node_reg_rel E n a \<Longrightarrow> all_kept (ev_reg E) a (carried_all E xs) \<Longrightarrow>
   node_reg_rel E (foldl (\<lambda>n (s, x). session_message E s x n) n xs) (reg_spec_run a (carried_all E xs))"
proof (induction xs arbitrary: n a)
  case (Cons y xs)
  obtain s x where y: "y = (s, x)" by (cases y)
  have k: "all_kept (ev_reg E) a (carried E x)" "all_kept (ev_reg E) (reg_spec_run a (carried E x)) (carried_all E xs)"
    using Cons.prems(2) by (simp_all add: y all_kept_append)
  show ?case using Cons.IH [OF node_reg_message [OF Cons.prems(1) k(1)] k(2)] by (simp add: y reg_spec_run_append)
qed simp

section \<open>A listing\<close>

lemma forwards_control [simp]: "\<not> forwards E (control_envelope k)"
  by (simp add: forwards_def control_envelope_def zero_pb_header_def)

lemma out_ack_unless [simp]: "nd_out (ack_unless_status E s m now n) = nd_out n"
  by (simp add: ack_unless_status_def enqueueDirectStatusAck_def Let_def split: option.split)

text \<open>The first page of a listing: as many of the workers picked as fit, by id.\<close>

definition listing :: "TaskListWorkers \<Rightarrow> (string \<Rightarrow> workerDoc option) \<Rightarrow> string set \<Rightarrow> TaskListWorkersReply" where
  "listing req m W =
     (let shown = take (page_size req) (page_ids m req W 0) in
      \<lparr>lr_Workers = map (worker_record (tl_IncludeTasks req) \<circ> the \<circ> m) shown,
       lr_NextPageToken = (if length shown < card W then Itoa (int (length shown)) else [])\<rparr>)"

lemma list_request_parts:
  "selected list_request d" "page_start list_request = 0" "page_size list_request = 100" "tl_IncludeTasks list_request"
  "picked m list_request i \<longleftrightarrow> m i \<noteq> None"
  by (auto simp: list_request_def selected_def labelsMatch_def page_start_def page_size_def picked_def split: option.split)

lemma node_lists:
  assumes "node_reg_rel E n (m, W)"
    and "pb_Unmarshal (ev_pb E) (av_buf x) = Some (control_envelope (CTaskListWorkers list_request))" "av_written x"
    and "pb_Marshal (ev_pb E) (control_envelope (CTaskListWorkersReply (listing list_request m W))) = Some b"
  shows "nd_out (session_message E s x n) = nd_out n @ [(s, b)]"
proof -
  let ?n = "on_stores (on_peers (\<lambda>ps. RecordExchange (ev_peers E) ps (session_peer n s)
        (of_nat (length (av_buf x))) 0 1 0 (av_clks x 0))) n"
  have "node_reg_rel E ?n (m, W)" by (rule node_reg_exchange [OF assms(1)])
  then obtain ws where ws: "so_workers (nd_stores ?n) = Some ws"
    and r: "reg_rel (ev_reg E) (reg_view (so_kv (nd_stores ?n)) ws) (m, W)"
    unfolding node_reg_rel_def by blast
  have "fst (ListWorkers (ev_reg E) (reg_view (so_kv (nd_stores ?n)) ws) list_request (av_clks x 1)) = listing list_request m W"
    using page_of [OF r, of list_request 0 "av_clks x 1"]
    by (simp add: list_request_parts listing_def next_start_def Let_def min.commute)
  then obtain rs where l: "ListWorkers (ev_reg E) (reg_view (so_kv (nd_stores ?n)) ws) list_request (av_clks x 1) =
      (listing list_request m W, rs)" by (metis prod.collapse)
  have "nd_out (snd (handleControlRequest E s (av_written x) (av_ids x) (av_targets x) (\<lambda>k. av_clks x (Suc k))
      (Some (CTaskListWorkers list_request)) ?n)) = nd_out n @ [(s, b)]"
    using ws l assms(3,4) by (simp add: handleControlRequest_def sendProto_def)
  then show ?thesis
    by (simp only: session_message_def assms(2) Let_def option.case forwards_control if_False control_parts out_ack_unless)
qed

text \<open>An element of a sorted list is among the first \<open>n\<close> exactly when fewer than \<open>n\<close> precede it.\<close>

lemma take_sorted:
  fixes xs :: "'a :: linorder list"
  assumes "sorted xs" "distinct xs" "x \<in> set xs"
  shows "x \<in> set (take n xs) \<longleftrightarrow> card {y \<in> set xs. y < x} < n"
proof -
  obtain i where i: "i < length xs" "xs ! i = x" using assms(3) by (auto simp: in_set_conv_nth)
  have less: "xs ! j < x \<longleftrightarrow> j < i" if "j < length xs" for j
    using that i assms(1,2) sorted_nth_mono [OF assms(1)] nth_eq_iff_index_eq [OF assms(2)]
    by (metis leD leI le_less linorder_neqE_nat order_less_imp_le)
  have "{y \<in> set xs. y < x} = (!) xs ` {..<i}"
    using less i(1) by (auto simp: in_set_conv_nth image_iff intro: less_trans)
  then have "card {y \<in> set xs. y < x} = i"
    using i(1) assms(2) by (simp add: card_image inj_on_nth)
  moreover have "x \<in> set (take n xs) \<longleftrightarrow> i < n"
    using i assms(2) by (auto simp: in_set_conv_nth nth_eq_iff_index_eq)
  ultimately show ?thesis by simp
qed

abbreviation recorded :: "(string \<Rightarrow> workerDoc option) \<Rightarrow> string set \<Rightarrow> string list" where
  "recorded m W \<equiv> filter (\<lambda>i. m i \<noteq> None) (sorted_list_of_set W)"

lemma listing_workers:
  "lr_Workers (listing list_request m W) = map (worker_record True \<circ> the \<circ> m) (take 100 (recorded m W))"
proof -
  have "picked m list_request = (\<lambda>i. m i \<noteq> None)" by (simp add: fun_eq_iff list_request_parts)
  then show ?thesis by (simp add: listing_def Let_def list_request_parts)
qed

lemma listed_iff:
  assumes "finite W" "pid \<in> W" "m pid \<noteq> None"
  shows "pid \<in> set (take 100 (recorded m W)) \<longleftrightarrow> card {i \<in> W. m i \<noteq> None \<and> i < pid} < 100"
proof -
  have "sorted (recorded m W)" "distinct (recorded m W)"
    by (simp_all add: sorted_filter [where f = id, simplified])
  from take_sorted [OF this, of pid 100] show ?thesis using assms by (simp add: conj_assoc)
qed

section \<open>Properties\<close>

text \<open>
  C20: the registry of a node is the specification's: after any messages on any sessions, in any
  order, among them requests for routes, listings and messages passed on, the records and the
  index are those the specification on a map gives for the registrations, updates and
  deregistrations the messages carry.
\<close>

theorem node_registry_refines:
  assumes "node_reg_rel E n a" "all_kept (ev_reg E) a (carried_all E xs)"
  shows "node_reg_rel E (foldl (\<lambda>n (s, x). session_message E s x n) n xs) (reg_spec_run a (carried_all E xs))"
  using assms by (rule node_reg_messages)

text \<open>
  C21: a registration is seen: when a worker's TaskRegister, under a non-empty id without surrounding
  space, has been handled on one session, and
  then any messages that carry no registry operation, the listing the control tool asks for on
  any session is answered with one reply, the first page of the registry, which the tool's
  waiting loop returns. The worker is on it exactly when fewer than 100 workers with a record have
  smaller ids, 100 being the default size of a page and the tool asking for no other, and then
  under its id with exactly the tasks it registered. Nothing relates the worker id to the session
  it came on: no Hello is needed. Protobuf is relied upon for the messages and JSON for the records.
\<close>

theorem registered_worker_listed:
  assumes "node_reg_rel E n (m, W)" "finite W"
    and "TrimSpace pid = pid" "pid \<noteq> []"
    and "pb_Unmarshal (ev_pb E) (av_buf x1) = Some (control_envelope (CTaskRegister (task_register D pid cases)))"
    and "m' = m(pid \<mapsto> register_doc (task_register D pid cases) (unixMilli (av_clks x1 1 0)))"
    and "kept_docs (ev_reg E) (m', insert pid W)" "carried_all E xs = []"
    and "pb_Unmarshal (ev_pb E) (av_buf x2) = Some (control_envelope (CTaskListWorkers list_request))" "av_written x2"
    and "rep = listing list_request m' (insert pid W)"
    and "pb_keeps (ev_pb E) (control_envelope (CTaskListWorkersReply rep)) b" "t 0 \<le> deadline"
    and "n' = foldl (\<lambda>n (s, x). session_message E s x n) (session_message E s1 x1 n) xs"
  shows "nd_out (session_message E s2 x2 n') = nd_out n' @ [(s2, b)] \<and>
    waitListWorkers (ev_pb E) wakes deadline t [Inr b] = (Got rep, []) \<and>
    lr_Workers rep = map (worker_record True \<circ> the \<circ> m') (take 100 (recorded m' (insert pid W))) \<and>
    (pid \<in> set (take 100 (recorded m' (insert pid W))) \<longleftrightarrow>
      card {i \<in> insert pid W. m' i \<noteq> None \<and> i < pid} < 100) \<and>
    (card {i \<in> insert pid W. m' i \<noteq> None \<and> i < pid} < 100 \<longrightarrow>
      (\<exists>w \<in> set (lr_Workers rep). wr_WorkerId w = pid \<and> mset (wr_Tasks w) = mset (worker_tasks D cases)))"
proof (intro conjI impI)
  let ?tr = "task_register D pid cases" and ?W = "insert pid W"
  have c: "carried_all E ((s1, x1) # xs) = [RRegister ?tr (av_clks x1 1)]" using assms(5,8) by (simp add: carried_def)
  have spec: "reg_spec_run (m, W) [RRegister ?tr (av_clks x1 1)] = (m', ?W)"
    using assms(3,4,6) by (simp add: task_register_def Let_def)
  have "all_kept (ev_reg E) (m, W) (carried_all E ((s1, x1) # xs))" unfolding c using assms(7) spec by simp
  from node_reg_messages [OF assms(1) this] have rel: "node_reg_rel E n' (m', ?W)"
    unfolding c spec using assms(14) by simp
  have b: "pb_Marshal (ev_pb E) (control_envelope (CTaskListWorkersReply (listing list_request m' ?W))) = Some b"
    using assms(11,12) by (simp add: pb_keeps_def)
  show "nd_out (session_message E s2 x2 n') = nd_out n' @ [(s2, b)]"
    by (rule node_lists [OF rel assms(9,10) b])
  show "waitListWorkers (ev_pb E) wakes deadline t [Inr b] = (Got rep, [])"
    using assms(12,13) by (simp add: waitListWorkers_def reply_in_def pick_workers_def pb_keeps_def)
  show workers: "lr_Workers rep = map (worker_record True \<circ> the \<circ> m') (take 100 (recorded m' ?W))"
    unfolding assms(11) by (rule listing_workers)
  show listed: "pid \<in> set (take 100 (recorded m' ?W)) \<longleftrightarrow> card {i \<in> ?W. m' i \<noteq> None \<and> i < pid} < 100"
    by (rule listed_iff) (simp_all add: assms(2,6))
  assume "card {i \<in> ?W. m' i \<noteq> None \<and> i < pid} < 100"
  with listed have "pid \<in> set (take 100 (recorded m' ?W))" by blast
  then have "(worker_record True \<circ> the \<circ> m') pid \<in> set (lr_Workers rep)"
    unfolding workers set_map by (rule imageI)
  then have "worker_record True (register_doc ?tr (unixMilli (av_clks x1 1 0))) \<in> set (lr_Workers rep)" by (simp add: assms(6))
  moreover have "wr_WorkerId (worker_record True (register_doc ?tr now)) = pid" for now
    using assms(3) by (simp add: worker_record_def register_doc_def task_register_def)
  moreover have "mset (wr_Tasks (worker_record True (register_doc ?tr now))) = mset (worker_tasks D cases)" for now
    using worker_doc_tasks by (simp add: worker_record_def)
  ultimately show "\<exists>w \<in> set (lr_Workers rep). wr_WorkerId w = pid \<and> mset (wr_Tasks w) = mset (worker_tasks D cases)" by blast
qed

section \<open>Witnesses\<close>

lemma one_session_registry: "node_reg_rel E one_session (Map.empty, {})"
  using reg_rel_New [of "ev_reg E"]
  by (simp add: node_reg_rel_def one_session_def reg_view_def node_reg_def reg_NewStore_def)

definition registry_node :: NodeEnv where
  "registry_node = node_b\<lparr>ev_reg := two_docs, ev_pb := one_envelope (control_envelope (CTaskRegister (registration ''a'')))\<rparr>"

lemma registry_node_carries:
  "carried_all registry_node [(0, arrives [1])] = [RRegister (registration ''a'') (\<lambda>j. 5)]"
  by (simp add: carried_def registry_node_def one_envelope_def arrives_def)

theorem node_registry_refines_witness:
  "node_reg_rel registry_node (session_message registry_node 0 (arrives [1]) one_session)
     ([''a'' \<mapsto> register_doc (registration ''a'') 0], {''a''})"
proof -
  have spec: "reg_spec_run (Map.empty, {}) [RRegister (registration ''a'') (\<lambda>j. 5)] =
      ([''a'' \<mapsto> register_doc (registration ''a'') 0], {''a''})"
    by (simp add: registration_def trim_ab Let_def unixMilli_def)
  have "all_kept two_docs (Map.empty, {}) [RRegister (registration ''a'') (\<lambda>j. 5)]"
    by (simp add: registration_def trim_ab Let_def unixMilli_def kept_docs_def two_docs_def pair_json_keeps)
  then show ?thesis
    using node_registry_refines [OF one_session_registry, of registry_node "[(0, arrives [1])]"]
    by (simp add: registry_node_carries spec del: reg_spec_run.simps all_kept.simps carried_all.simps)
      (simp add: registry_node_def)
qed

definition three_envelopes :: "PbEnvelope \<Rightarrow> PbEnvelope \<Rightarrow> PbEnvelope \<Rightarrow> pb_codec" where
  "three_envelopes e f g =
     \<lparr>pb_Marshal = (\<lambda>x. if x = e then Some [1] else if x = f then Some [2] else if x = g then Some [3] else None),
      pb_Unmarshal = (\<lambda>b. if b = [1] then Some e else if b = [2] then Some f else if b = [3] then Some g else None)\<rparr>"

definition sample_D :: descriptors where
  "sample_D = \<lparr>ds_analyze = [1], ds_write = [2], ds_auth = [3], ds_features = [4]\<rparr>"

definition worker_doc :: workerDoc where
  "worker_doc = register_doc (task_register sample_D ''a'' ''basic'') 0"

definition worker_reply :: TaskListWorkersReply where
  "worker_reply = listing list_request [''a'' \<mapsto> worker_doc] {''a''}"

definition listing_node :: NodeEnv where
  "listing_node = node_b\<lparr>ev_reg := pair_json worker_doc worker_doc,
     ev_pb := three_envelopes (control_envelope (CTaskRegister (task_register sample_D ''a'' ''basic'')))
       (control_envelope (CTaskListWorkers list_request)) (control_envelope (CTaskListWorkersReply worker_reply))\<rparr>"

theorem registered_worker_listed_witness:
  "waitListWorkers (ev_pb listing_node) False 9 (\<lambda>i. 1) [Inr [3]] = (Got worker_reply, []) \<and>
   (\<exists>w \<in> set (lr_Workers worker_reply). wr_WorkerId w = ''a'' \<and>
     mset (wr_Tasks w) = mset (worker_tasks sample_D ''basic''))"
proof -
  have e: "control_envelope (CTaskListWorkersReply r) \<noteq> control_envelope (CTaskRegister q)"
    "control_envelope (CTaskListWorkersReply r) \<noteq> control_envelope (CTaskListWorkers l)" for r q l
    by (simp_all add: control_envelope_def)
  have t: "unixMilli (av_clks (arrives [1]) 1 0) = 0" by (simp add: arrives_def unixMilli_def)
  note listed = registered_worker_listed [of listing_node one_session Map.empty "{}" "''a''"
      "arrives [1]" sample_D "''basic''" "[''a'' \<mapsto> worker_doc]" "[]" "arrives [2]"
      worker_reply "[3]" "\<lambda>i. 1" 9 _ 0 0 False]
  have none: "{i \<in> {''a''}. [''a'' \<mapsto> worker_doc] i \<noteq> None \<and> i < ''a''} = {}" by auto
  show ?thesis
    by (rule conjI [OF conjunct1 [OF conjunct2 [OF listed]]
          conjunct2 [OF conjunct2 [OF conjunct2 [OF conjunct2 [OF listed]]], rule_format]])
      (simp_all add: one_session_registry trim_ab listing_node_def three_envelopes_def arrives_def worker_reply_def
        pb_keeps_def e worker_doc_def unixMilli_def kept_docs_def pair_json_keeps none)
qed

end
