(* ===== verification/App.thy ===== *)
theory App
  imports Directory
begin

text \<open>
  Starting a node (\<open>cmd/ttmesh-node\<close>): the command line, and \<open>run\<close>, which puts the parts
  together: configuration, logger, identity, the stores over one key-value store, router,
  pipeline and transports. What the machine provides is the record \<open>machine\<close>.
\<close>

text \<open>\<open>flag.StringVar\<close>: the last \<open>-config\<close> wins. A flag that is not known ends the program: \<open>None\<close>.\<close>

fun ParseFlags_from :: "string \<Rightarrow> string list \<Rightarrow> string option" where
  "ParseFlags_from path [] = Some path"
| "ParseFlags_from path (a # as) =
     (if a = ''-'' \<or> \<not> HasPrefix a ''-'' then Some path
      else if a = ''--'' then Some path
      else if HasPrefix a ''-config='' then ParseFlags_from (drop 8 a) as
      else if HasPrefix a ''--config='' then ParseFlags_from (drop 9 a) as
      else if a = ''-config'' \<or> a = ''--config'' then (case as of [] \<Rightarrow> None | v # as \<Rightarrow> ParseFlags_from v as)
      else None)"

definition ParseFlags :: "string list \<Rightarrow> string option" where
  "ParseFlags args = ParseFlags_from [] args"

record machine =
  ma_viper :: viper
  ma_envPath :: string
  ma_home :: "string option"
  ma_openable :: "string \<Rightarrow> string \<Rightarrow> bool"
  ma_keyFile :: "byte list option"
  ma_genKey :: "byte list option"
  ma_windows :: bool
  ma_listens :: "Kind \<Rightarrow> string \<Rightarrow> bool"
  ma_ed :: ed25519
  ma_peers :: peers_json
  ma_reg :: "workerDoc json"
  ma_hello :: "byte list \<Rightarrow> Hello option"
  ma_pb :: pb_codec
  ma_sess :: "sid \<Rightarrow> SessInfo"

record running =
  rn_cfg :: Config
  rn_loggers :: "(Encoder \<times> Sink \<times> Level) list"
  rn_env :: NodeEnv
  rn_node :: Node
  rn_pipeline :: Pipeline
  rn_opts :: net_Options
  rn_net :: net_Manager

datatype start_result = ExitCode int | StartPanics | Running running

definition millis :: "int \<Rightarrow> int" where "millis ms = i64 (ms * 1000000)"

definition dial_options :: "NetConfig \<Rightarrow> net_Options" where
  "dial_options c = \<lparr>no_BackoffInitial = millis (nc_DialBackoffInitialMS c),
     no_BackoffMax = millis (nc_DialBackoffMaxMS c), no_BackoffJitter = millis (nc_DialBackoffJitterMS c)\<rparr>"

definition run :: "machine \<Rightarrow> string \<Rightarrow> start_result" where
  "run M configPath =
     (case Load (ma_viper M) configPath (ma_envPath M) (ma_home M) of
        Inl err \<Rightarrow> ExitCode 1
      | Inr cfg \<Rightarrow>
          let loggers = SetupLogger (ma_openable M) (cf_Log cfg) in
          (case LoadOrGenEd25519 (cf_Identity cfg) (ma_keyFile M) (ma_genKey M) of
             None \<Rightarrow> StartPanics
           | Some None \<Rightarrow> ExitCode 1
           | Some (Some (priv, canonicalID)) \<Rightarrow>
               (case ed_Public priv of
                  None \<Rightarrow> StartPanics
                | Some pub \<Rightarrow>
                    let cfg = run_node_id cfg canonicalID;
                        kv = New node_opts;
                        ps = peers_NewStore kv; reg = reg_NewStore kv;
                        pl = pl_New (Some ps)
                    in Running \<lparr>rn_cfg = cfg, rn_loggers = loggers,
                         rn_env = \<lparr>ev_ed = ma_ed M, ev_peers = ma_peers M, ev_reg = ma_reg M, ev_hello = ma_hello M, ev_pb = ma_pb M,
                           ev_router = True, ev_localID = cf_NodeID cfg, ev_nodeName = cf_AppName cfg, ev_pubKey = pub\<rparr>,
                         rn_node = \<lparr>nd_mgr = NewManager (ma_sess M),
                           nd_stores = \<lparr>so_kv = kv, so_peers = Some (pst_peerIndex ps, pst_routeIndex ps),
                             so_workers = Some (rg_workers reg)\<rparr>,
                           nd_fwd = newForwarder (Some ps) (Some pl), nd_out = []\<rparr>,
                         rn_pipeline = pl, rn_opts = dial_options (cf_Net cfg),
                         rn_net = StartFromConfig (ma_windows M) (ma_listens M) (cf_Transports cfg)\<rparr>)))"

section \<open>Lemmas\<close>

lemma Load_valid: "Load V p e h = Inr c \<Longrightarrow> TrimSpace (cf_NodeID c) \<noteq> []"
  using normal_NodeID by (auto simp: Load_def validate_normal Let_def split: read_result.splits sum.splits if_splits)

lemma run_parts:
  assumes "run M p = Running r"
  shows "\<exists>c priv pub id. Load (ma_viper M) p (ma_envPath M) (ma_home M) = Inr c \<and>
    LoadOrGenEd25519 (cf_Identity c) (ma_keyFile M) (ma_genKey M) = Some (Some (priv, id)) \<and>
    id = CanonicalPeerIDFromPubKey ''ed25519'' pub \<and> ed_Public priv = Some pub \<and> ev_pubKey (rn_env r) = pub \<and>
    ev_localID (rn_env r) = (if cf_NodeID c = ''node-1'' then id else cf_NodeID c) \<and>
    rn_node r = start_node node_opts (ma_sess M) (nd_fwd (rn_node r)) \<and>
    rn_opts r = dial_options (cf_Net c) \<and> ev_peers (rn_env r) = ma_peers M"
proof -
  obtain c where c: "Load (ma_viper M) p (ma_envPath M) (ma_home M) = Inr c"
    using assms by (auto simp: run_def split: sum.splits)
  obtain priv id where k: "LoadOrGenEd25519 (cf_Identity c) (ma_keyFile M) (ma_genKey M) = Some (Some (priv, id))"
    using assms c by (auto simp: run_def Let_def split: option.splits)
  then obtain pub where pub: "ed_Public priv = Some pub" "id = CanonicalPeerIDFromPubKey ''ed25519'' pub"
    by (auto simp: LoadOrGenEd25519_def Let_def split: option.splits)
  have "cf_NodeID c \<noteq> []" using Load_valid [OF c] by auto
  then show ?thesis using assms c k pub
    by (auto simp: run_def Let_def run_node_id_def start_node_def peers_NewStore_def reg_NewStore_def)
qed

lemma start_registry: "node_reg_rel E (start_node node_opts sess fwd) (Map.empty, {})"
  using reg_rel_New [of "ev_reg E"]
  by (simp add: node_reg_rel_def start_node_def reg_view_def node_reg_def reg_NewStore_def)

section \<open>Properties\<close>

text \<open>
  C40: a node that starts has an id: the configured one unless that is the default, else the
  canonical id of its key. Its registry starts empty and stays the specification's under the
  messages of its sessions, and its dial loops wait a positive time first.
\<close>

theorem run_starts_node:
  assumes "run M p = Running r" "all_kept (ev_reg (rn_env r)) (Map.empty, {}) (carried_all (rn_env r) xs)"
  shows "ev_localID (rn_env r) \<noteq> [] \<and> 0 < initial_backoff (rn_opts r) \<and>
    (\<exists>c. Load (ma_viper M) p (ma_envPath M) (ma_home M) = Inr c \<and>
      ev_localID (rn_env r) = (if cf_NodeID c = ''node-1''
        then CanonicalPeerIDFromPubKey ''ed25519'' (ev_pubKey (rn_env r)) else cf_NodeID c)) \<and>
    node_reg_rel (rn_env r) (foldl (\<lambda>n (s, x). session_message (rn_env r) s x n) (rn_node r) xs)
      (reg_spec_run (Map.empty, {}) (carried_all (rn_env r) xs))"
proof -
  obtain c priv id where c: "Load (ma_viper M) p (ma_envPath M) (ma_home M) = Inr c"
      "id = CanonicalPeerIDFromPubKey ''ed25519'' (ev_pubKey (rn_env r))"
      "ev_localID (rn_env r) = (if cf_NodeID c = ''node-1'' then id else cf_NodeID c)"
      "rn_node r = start_node node_opts (ma_sess M) (nd_fwd (rn_node r))"
    using run_parts [OF assms(1)] by blast
  have "cf_NodeID c \<noteq> []" using Load_valid [OF c(1)] by auto
  then have "ev_localID (rn_env r) \<noteq> []" by (simp add: c(2,3) CanonicalPeerIDFromPubKey_def Let_def)
  moreover have "node_reg_rel (rn_env r) (rn_node r) (Map.empty, {})" by (subst c(4)) (rule start_registry)
  ultimately show ?thesis using c node_reg_messages [OF _ assms(2)] initial_backoff_pos by blast
qed

definition sample_machine :: machine where
  "sample_machine = \<lparr>ma_viper = \<lparr>vp_ReadInConfig = (\<lambda>s. NotFound), vp_Unmarshal = (\<lambda>d s c. Inr c)\<rparr>, ma_envPath = [],
     ma_home = None, ma_openable = (\<lambda>d f. True), ma_keyFile = None, ma_genKey = Some key_a, ma_windows = False,
     ma_listens = (\<lambda>k a. True), ma_ed = sample_ed, ma_peers = ev_peers node_b, ma_reg = two_docs,
     ma_hello = (\<lambda>b. None), ma_pb = one_envelope (control_envelope (CTaskRegister (registration ''a''))), ma_sess = sample_info\<rparr>"

lemma sample_runs: "\<exists>r. run sample_machine [] = Running r"
proof -
  have t: "TrimSpace ''info'' = ''info''" by (rule TrimSpace_printable) (simp_all add: printable_def)
  have "Load (ma_viper sample_machine) [] [] None = Inr (normal Default)"
    by (simp add: Load_def sample_machine_def validate_normal Default_def t ToLower_def lower_char_def level_names_def Let_def)
  moreover have "ed_Public key_a = Some (drop 32 key_a)" by (rule ed_Public_key) (simp add: key_a_def PrivateKeySize_def)
  moreover have "cf_Identity (normal Default) = \<lparr>idc_Alg = ''ed25519'', idc_PrivateKey = [], idc_PrivateKeyFile = []\<rparr>"
    by (simp add: normal_def Default_def)
  ultimately show ?thesis by (simp add: run_def sample_machine_def LoadOrGenEd25519_def Let_def)
qed

text \<open>The sample node handles one registration on its first session.\<close>

theorem run_starts_node_witness:
  "\<exists>r. run sample_machine [] = Running r \<and> ev_localID (rn_env r) \<noteq> [] \<and>
     node_reg_rel (rn_env r) (session_message (rn_env r) 0 (arrives [1]) (rn_node r))
       ([''a'' \<mapsto> register_doc (registration ''a'') 0], {''a''})"
proof -
  obtain r where r: "run sample_machine [] = Running r" using sample_runs by blast
  have "ev_reg (rn_env r) = ma_reg sample_machine" "ev_pb (rn_env r) = ma_pb sample_machine"
    using r by (auto simp: run_def Let_def split: sum.splits option.splits)
  then have E: "ev_reg (rn_env r) = two_docs"
      "ev_pb (rn_env r) = one_envelope (control_envelope (CTaskRegister (registration ''a'')))"
    by (simp_all add: sample_machine_def)
  then have c: "carried_all (rn_env r) [(0, arrives [1])] = [RRegister (registration ''a'') (\<lambda>j. 5)]"
    by (simp add: carried_def one_envelope_def arrives_def)
  have spec: "reg_spec_run (Map.empty, {}) [RRegister (registration ''a'') (\<lambda>j. 5)] =
      ([''a'' \<mapsto> register_doc (registration ''a'') 0], {''a''})"
    by (simp add: registration_def trim_ab Let_def unixMilli_def)
  have k: "all_kept (ev_reg (rn_env r)) (Map.empty, {}) (carried_all (rn_env r) [(0, arrives [1])])"
    unfolding c E(1) by (simp add: registration_def trim_ab Let_def unixMilli_def kept_docs_def two_docs_def pair_json_keeps)
  from run_starts_node [OF r k] r show ?thesis unfolding c spec by auto
qed

end
