(* ===== verification/Codec.thy ===== *)
theory Codec
  imports Wire
begin

text \<open>
  Payload encodings: the codec registry of \<open>pkg/protocol/codec/codec.go\<close>, the format byte and
  the body encoding of \<open>pkg/protocol/body.go\<close>, and the envelope helpers of \<open>helpers.go\<close>. The
  marshalling functions of \<open>encoding/json\<close>, \<open>fxamacker/cbor\<close> and \<open>google.golang.org/protobuf\<close>
  are not part of the repository: the built-in codecs made from them are the parameter
  \<open>builtins\<close>, and what the code relies on, that unmarshalling inverts marshalling, is the law
  \<open>codec_law\<close>. A value decoded into is returned, not written through a pointer.
\<close>

section \<open>Codecs and the registry\<close>

datatype codec_error = UnknownFormat uint8 | EmptyPayload | CodecInit | NotAMessage | Library string

record 'v Codec =
  cdc_ContentType :: string
  cdc_Marshal :: "'v \<Rightarrow> codec_error + byte list"
  cdc_Unmarshal :: "byte list \<Rightarrow> codec_error + 'v"

type_synonym 'v CodecRegistry = "string \<Rightarrow> 'v Codec option"

text \<open>What the libraries provide; protobuf works only on values that are messages.\<close>

record 'v builtins =
  json_Marshal :: "'v \<Rightarrow> codec_error + byte list"
  json_Unmarshal :: "byte list \<Rightarrow> codec_error + 'v"
  cbor_modes :: "codec_error option"
  cbor_Marshal :: "'v \<Rightarrow> codec_error + byte list"
  cbor_Unmarshal :: "byte list \<Rightarrow> codec_error + 'v"
  is_message :: "'v \<Rightarrow> bool"
  proto_Marshal :: "'v \<Rightarrow> codec_error + byte list"
  proto_Unmarshal :: "byte list \<Rightarrow> codec_error + 'v"

definition ContentUnknown :: string where "ContentUnknown = ''application/octet-stream''"
definition ContentCBOR :: string where "ContentCBOR = ''application/cbor''"
definition ContentJSON :: string where "ContentJSON = ''application/json''"
definition ContentProto :: string where "ContentProto = ''application/x-protobuf''"

definition JSON :: "'v builtins \<Rightarrow> 'v Codec" where
  "JSON L = \<lparr>cdc_ContentType = ''application/json'', cdc_Marshal = json_Marshal L,
     cdc_Unmarshal = json_Unmarshal L\<rparr>"

definition CBOR :: "'v builtins \<Rightarrow> codec_error + 'v Codec" where
  "CBOR L =
     (case cbor_modes L of
        Some err \<Rightarrow> Inl err
      | None \<Rightarrow> Inr \<lparr>cdc_ContentType = ''application/cbor'', cdc_Marshal = cbor_Marshal L,
          cdc_Unmarshal = cbor_Unmarshal L\<rparr>)"

definition protoCodec_Marshal :: "'v builtins \<Rightarrow> 'v \<Rightarrow> codec_error + byte list" where
  "protoCodec_Marshal L v = (if \<not> is_message L v then Inl NotAMessage else proto_Marshal L v)"

definition Proto :: "'v builtins \<Rightarrow> 'v Codec" where
  "Proto L = \<lparr>cdc_ContentType = ''application/x-protobuf'', cdc_Marshal = protoCodec_Marshal L,
     cdc_Unmarshal = proto_Unmarshal L\<rparr>"

definition Codec_Register :: "'v CodecRegistry \<Rightarrow> 'v Codec \<Rightarrow> 'v CodecRegistry" where
  "Codec_Register r c = r(cdc_ContentType c \<mapsto> c)"

definition Codec_Get :: "'v CodecRegistry \<Rightarrow> string \<Rightarrow> 'v Codec option" where
  "Codec_Get r contentType = r contentType"

definition NewRegistry :: "'v builtins \<Rightarrow> 'v CodecRegistry" where
  "NewRegistry L =
     (let r = Map.empty; r = Codec_Register r (JSON L); r = Codec_Register r (Proto L) in r)"

section \<open>Formats and bodies\<close>

datatype Format = FormatUnknown | FormatJSON | FormatCBOR | FormatProto | FormatOther uint8

fun format_code :: "Format \<Rightarrow> uint8" where
  "format_code FormatUnknown = 0"
| "format_code FormatJSON = 1"
| "format_code FormatCBOR = 2"
| "format_code FormatProto = 3"
| "format_code (FormatOther b) = b"

definition to_format :: "uint8 \<Rightarrow> Format" where
  "to_format b = (if b = 0 then FormatUnknown else if b = 1 then FormatJSON
     else if b = 2 then FormatCBOR else if b = 3 then FormatProto else FormatOther b)"

fun Format_String :: "Format \<Rightarrow> string" where
  "Format_String FormatJSON = ContentJSON"
| "Format_String FormatCBOR = ContentCBOR"
| "Format_String FormatProto = ContentProto"
| "Format_String _ = ContentUnknown"

fun CodecFor :: "'v builtins \<Rightarrow> 'v CodecRegistry \<Rightarrow> Format \<Rightarrow> codec_error + 'v Codec" where
  "CodecFor L r FormatJSON = (case Codec_Get r ContentJSON of Some c \<Rightarrow> Inr c | None \<Rightarrow> Inr (JSON L))"
| "CodecFor L r FormatCBOR = (case Codec_Get r ContentCBOR of Some c \<Rightarrow> Inr c | None \<Rightarrow> CBOR L)"
| "CodecFor L r FormatProto = (case Codec_Get r ContentProto of Some c \<Rightarrow> Inr c | None \<Rightarrow> Inr (Proto L))"
| "CodecFor L r f = Inl (UnknownFormat (format_code f))"

definition EncodeBody :: "'v builtins \<Rightarrow> 'v CodecRegistry \<Rightarrow> Format \<Rightarrow> 'v \<Rightarrow> codec_error + byte list" where
  "EncodeBody L r f v =
     (case CodecFor L r f of
        Inl err \<Rightarrow> Inl err
      | Inr c \<Rightarrow>
          (case cdc_Marshal c v of
             Inl err \<Rightarrow> Inl err
           | Inr b \<Rightarrow>
               let out = replicate (1 + length b) 0; out = out[0 := format_code f];
                   out = put_at out 1 b
               in Inr out))"

definition DecodeBody ::
  "'v builtins \<Rightarrow> 'v CodecRegistry \<Rightarrow> byte list \<Rightarrow> Format \<times> (codec_error + 'v)" where
  "DecodeBody L r payload =
     (if payload = [] then (FormatUnknown, Inl EmptyPayload)
      else let f = to_format (payload ! 0) in
        case CodecFor L r f of
          Inl err \<Rightarrow> (f, Inl err)
        | Inr c \<Rightarrow> (f, cdc_Unmarshal c (drop 1 payload)))"

definition NewEnvelopeWithBody ::
  "'v builtins \<Rightarrow> Header \<Rightarrow> Format \<Rightarrow> 'v \<Rightarrow> 'v CodecRegistry \<Rightarrow> codec_error + Envelope" where
  "NewEnvelopeWithBody L h format v reg =
     (case EncodeBody L reg format v of
        Inl err \<Rightarrow> Inl err
      | Inr b \<Rightarrow> Inr \<lparr>env_Header = h\<lparr>hdr_PayloadLen := of_nat (length b)\<rparr>, env_Payload = b\<rparr>)"

definition DecodeEnvelopeBody ::
  "'v builtins \<Rightarrow> Envelope \<Rightarrow> 'v CodecRegistry \<Rightarrow> Format \<times> (codec_error + 'v)" where
  "DecodeEnvelopeBody L e reg = DecodeBody L reg (env_Payload e)"

section \<open>Lemmas\<close>

definition codec_law :: "'v Codec \<Rightarrow> 'v \<Rightarrow> bool" where
  "codec_law c v \<longleftrightarrow> (\<forall>b. cdc_Marshal c v = Inr b \<longrightarrow> cdc_Unmarshal c b = Inr v)"

lemma to_format_code: "f \<in> {FormatJSON, FormatCBOR, FormatProto} \<Longrightarrow> to_format (format_code f) = f"
  by (auto simp: to_format_def)

lemma CodecFor_known: "CodecFor L r f = Inr c \<Longrightarrow> f \<in> {FormatJSON, FormatCBOR, FormatProto}"
  by (cases f) auto

lemma EncodeBody_bytes:
  "EncodeBody L r f v = Inr out \<longleftrightarrow>
     (\<exists>c b. CodecFor L r f = Inr c \<and> cdc_Marshal c v = Inr b \<and> out = format_code f # b)"
  by (auto simp: EncodeBody_def Let_def put_at_def split: sum.splits)

lemma body_roundtrip_aux:
  assumes "EncodeBody L r f v = Inr out" "\<And>c. CodecFor L r f = Inr c \<Longrightarrow> codec_law c v"
  shows "DecodeBody L r out = (f, Inr v)"
proof -
  obtain c b where c: "CodecFor L r f = Inr c" "cdc_Marshal c v = Inr b" "out = format_code f # b"
    using assms(1) by (auto simp: EncodeBody_bytes)
  have "cdc_Unmarshal c b = Inr v" using assms(2) [OF c(1)] c(2) by (simp add: codec_law_def)
  moreover have "to_format (format_code f) = f" using CodecFor_known [OF c(1)] by (rule to_format_code)
  ultimately show ?thesis using c by (simp add: DecodeBody_def)
qed

section \<open>Properties\<close>

text \<open>
  An envelope built with \<open>NewEnvelopeWithBody\<close>, sent as a frame and decoded by the peer,
  yields the format it was encoded with and the same value, whichever codec the peer's registry
  names for the format (the same one on both sides), when that codec can decode what it encodes.
\<close>

theorem body_over_wire:
  assumes "NewEnvelopeWithBody L h f v reg = Inr e" "wf_header h" "length (env_Payload e) < 2 ^ 32"
    and "\<And>c. CodecFor L reg f = Inr c \<Longrightarrow> codec_law c v"
  shows "DecodeEnvelopeBody L (fst (DecodeFrame e0 (snd (EncodeFrame e)))) reg = (f, Inr v) \<and>
    env_Header (fst (DecodeFrame e0 (snd (EncodeFrame e)))) = env_Header e"
proof (rule conjI)
  obtain b where b: "EncodeBody L reg f v = Inr b"
      "e = \<lparr>env_Header = h\<lparr>hdr_PayloadLen := of_nat (length b)\<rparr>, env_Payload = b\<rparr>"
    using assms(1) by (auto simp: NewEnvelopeWithBody_def split: sum.splits)
  have wf: "wf_envelope e" using assms(2) b by (simp add: wf_envelope_def wf_header_def)
  have d: "DecodeFrame e0 (snd (EncodeFrame e)) = (set_PayloadLen e, None)"
    using DecodeFrame_frame [OF wf assms(3), of e0 "[]"] by (simp add: EncodeFrame_frame wf)
  show "DecodeEnvelopeBody L (fst (DecodeFrame e0 (snd (EncodeFrame e)))) reg = (f, Inr v)"
    unfolding d DecodeEnvelopeBody_def using body_roundtrip_aux [OF b(1) assms(4)] b(2) by simp
  show "env_Header (fst (DecodeFrame e0 (snd (EncodeFrame e)))) = env_Header e"
    unfolding d using b(2) by (simp add: set_PayloadLen_def)
qed

text \<open>A library whose three encodings are the identity on byte lists.\<close>

definition plain_builtins :: "byte list builtins" where
  "plain_builtins = \<lparr>json_Marshal = Inr, json_Unmarshal = Inr, cbor_modes = None, cbor_Marshal = Inr,
     cbor_Unmarshal = Inr, is_message = (\<lambda>_. True), proto_Marshal = Inr, proto_Unmarshal = Inr\<rparr>"

theorem body_over_wire_witness:
  "\<exists>e. NewEnvelopeWithBody plain_builtins zero_header FormatProto [1, 2] (NewRegistry plain_builtins) = Inr e \<and>
    DecodeEnvelopeBody plain_builtins (fst (DecodeFrame zero_envelope (snd (EncodeFrame e))))
      (NewRegistry plain_builtins) = (FormatProto, Inr [1, 2])"
proof -
  let ?e = "\<lparr>env_Header = zero_header\<lparr>hdr_PayloadLen := 3\<rparr>, env_Payload = [3, 1, 2]\<rparr>"
  have e: "NewEnvelopeWithBody plain_builtins zero_header FormatProto [1, 2] (NewRegistry plain_builtins) = Inr ?e"
    by (simp add: NewEnvelopeWithBody_def EncodeBody_def NewRegistry_def Codec_Get_def Codec_Register_def
        Proto_def JSON_def ContentProto_def plain_builtins_def protoCodec_Marshal_def put_at_def)
  have law: "codec_law c [1, 2]" if "CodecFor plain_builtins (NewRegistry plain_builtins) FormatProto = Inr c" for c
    using that by (auto simp: codec_law_def NewRegistry_def Codec_Get_def Codec_Register_def
        Proto_def JSON_def ContentProto_def plain_builtins_def protoCodec_Marshal_def)
  have wf: "wf_header zero_header" by (simp add: wf_header_def zero_header_def)
  show ?thesis using body_over_wire [OF e wf _ law] e by fastforce
qed

text \<open>
  A body is refused with an error, never decoded by the wrong codec: an empty payload, or a
  first byte that names none of the three formats, gives the corresponding error and no codec
  runs.
\<close>

theorem body_format_refused:
  "DecodeBody L r [] = (FormatUnknown, Inl EmptyPayload) \<and>
   (DecodeBody L r (b # bs) = (f, res) \<longrightarrow> b = 0 \<or> 3 < b \<longrightarrow> res = Inl (UnknownFormat b) \<and> format_code f = b) \<and>
   (DecodeBody L r (b # bs) = (f, Inr v) \<longrightarrow>
     (\<exists>c. format_code f = b \<and> b \<in> {1, 2, 3} \<and> CodecFor L r f = Inr c \<and> cdc_Unmarshal c bs = Inr v))"
proof (rule conjI [OF _ conjI])
  show "DecodeBody L r [] = (FormatUnknown, Inl EmptyPayload)" by (simp add: DecodeBody_def)
  show "DecodeBody L r (b # bs) = (f, res) \<longrightarrow> b = 0 \<or> 3 < b \<longrightarrow> res = Inl (UnknownFormat b) \<and> format_code f = b"
    by (auto simp: DecodeBody_def to_format_def Let_def split: if_splits)
  show "DecodeBody L r (b # bs) = (f, Inr v) \<longrightarrow>
     (\<exists>c. format_code f = b \<and> b \<in> {1, 2, 3} \<and> CodecFor L r f = Inr c \<and> cdc_Unmarshal c bs = Inr v)"
  proof
  assume d: "DecodeBody L r (b # bs) = (f, Inr v)"
  then obtain c where "CodecFor L r f = Inr c" "cdc_Unmarshal c bs = Inr v" "f = to_format b"
    by (auto simp: DecodeBody_def Let_def split: sum.splits)
  with CodecFor_known [OF this(1)]
  show "\<exists>c. format_code f = b \<and> b \<in> {1, 2, 3} \<and> CodecFor L r f = Inr c \<and> cdc_Unmarshal c bs = Inr v"
    by (auto simp: to_format_def split: if_splits)
  qed
qed

theorem body_format_refused_witness:
  "DecodeBody plain_builtins Map.empty [9, 1] = (FormatOther 9, Inl (UnknownFormat 9))"
proof -
  have "DecodeBody plain_builtins Map.empty [9, 1] =
      (fst (DecodeBody plain_builtins Map.empty [9, 1]), snd (DecodeBody plain_builtins Map.empty [9, 1]))" by simp
  then have "snd (DecodeBody plain_builtins Map.empty [9, 1]) = Inl (UnknownFormat 9)"
    using body_format_refused [of plain_builtins Map.empty 9 "[1]"
        "fst (DecodeBody plain_builtins Map.empty [9, 1])" "snd (DecodeBody plain_builtins Map.empty [9, 1])"]
    by (auto simp del: fun_upd_apply)
  then show ?thesis by (simp add: prod_eq_iff) (simp add: DecodeBody_def to_format_def)
qed

end
