(* ===== verification/Tools.thy ===== *)
theory Tools
  imports Codec Messages
begin

text \<open>
  The generator of sample frames (\<open>cmd/ttmesh-genframe\<close>) and the helpers it shares with the
  generator of sample messages (\<open>cmd/ttmesh-genproto\<close>): what is written to the files, and the
  hexadecimal heads both print.
\<close>

section \<open>Hexadecimal heads\<close>

definition hex_char :: "nat \<Rightarrow> char" where
  "hex_char d = char_of (if d < 10 then 48 + d else 87 + d)"

definition hex_EncodeToString :: "byte list \<Rightarrow> string" where
  "hex_EncodeToString bs = concat (map (\<lambda>b. [hex_char (unat b div 16), hex_char (unat b mod 16)]) bs)"

text \<open>The ellipsis takes three bytes in UTF-8.\<close>

definition ellipsis :: string where
  "ellipsis = map char_of [226 :: nat, 128, 166]"

fun groups :: "string \<Rightarrow> string list" where
  "groups (a # b # c # d # rest) = [a, b, c, d] # groups rest"
| "groups [] = []"
| "groups s = [s]"

fun Join :: "string list \<Rightarrow> string \<Rightarrow> string" where
  "Join [] sep = []"
| "Join [w] sep = w"
| "Join (w # ws) sep = w @ sep @ Join ws sep"

definition shortHex :: "byte list \<Rightarrow> nat \<Rightarrow> string" where
  "shortHex b n =
     (if b = [] then []
      else
        let n = (if n > length b then length b else n);
            enc = hex_EncodeToString (take n b);
            enc = (if length b > n then enc @ ellipsis else enc)
        in Join (groups enc) '' '')"

definition genproto_shortHex :: "byte list \<Rightarrow> nat \<Rightarrow> string" where
  "genproto_shortHex = shortHex"

text \<open>\<open>fnv.New32a\<close>: FNV-1a on 32 bits.\<close>

definition fnv32 :: "string \<Rightarrow> uint32" where
  "fnv32 s = foldl (\<lambda>h c. (xor h (of_nat (of_char c))) * 16777619) 2166136261 s"

section \<open>Sample frames\<close>

definition mustFrame :: "Envelope \<Rightarrow> byte list" where
  "mustFrame e = snd (EncodeFrame e)"

definition sample_header :: "byte list \<Rightarrow> Header" where
  "sample_header corr = zero_header\<lparr>hdr_Version := 1, hdr_Type := msg_code MsgResult, hdr_Priority := 2,
     hdr_Correlation := corr, hdr_Source := 1001, hdr_Dest := 2002, hdr_DagID := 0xdeadbeef, hdr_DagStep := 3\<rparr>"

definition counting :: "byte list" where
  "counting = map of_nat [0 ..< 40]"

text \<open>
  The files in the order they are written, with their contents. \<open>payload\<close> is the JSON body
  \<open>EncodeBody\<close> gives; encoding the first envelope stores its payload length in the header the
  second one copies.
\<close>

definition two_digits :: "nat \<Rightarrow> string" where
  "two_digits i = [char_of (48 + i div 10), char_of (48 + i mod 10)]"

definition genframe :: "byte list \<Rightarrow> byte list \<Rightarrow> (string \<times> byte list) list option" where
  "genframe corr payload =
     (let h = sample_header corr;
          env = \<lparr>env_Header = h, env_Payload = payload\<rparr>;
          (env, frame) = EncodeFrame env;
          env2 = env\<lparr>env_Payload := counting\<rparr>
      in case Fragments env2 8 of
           Inl err \<Rightarrow> None
         | Inr frags \<Rightarrow>
             Some ([(''frame_json.bin'', frame)] @
               map (\<lambda>(i, f). (''frame_frag_'' @ two_digits i @ ''.bin'', mustFrame f)) (zip [0 ..< length frags] frags) @
               [(''frame_control_empty.bin'', mustFrame \<lparr>env_Header = h\<lparr>hdr_Type := msg_code MsgControl\<rparr>, env_Payload = []\<rparr>)]))"

section \<open>Sample messages\<close>

text \<open>
  The messages \<open>genproto\<close> writes, by file name. What the messages of this development keep as
  encoded bytes (the bus header, contracts, references, metrics, leases, sessions) is the record
  \<open>encodings\<close>; \<open>corr\<close>, \<open>mid\<close> and \<open>tid\<close> are the random ids.
\<close>

record encodings =
  en_bus :: opaque
  en_bus0 :: opaque
  en_params :: "opaque list"
  en_result :: opaque
  en_blob :: opaque
  en_init :: opaque
  en_tiny1 :: opaque
  en_tiny2 :: opaque
  en_flow :: opaque
  en_ack :: opaque
  en_lease_req :: opaque
  en_lease_rep :: opaque
  en_close :: opaque

definition node_ref :: "string \<Rightarrow> NodeRef option" where
  "node_ref i = Some \<lparr>nr_Id = i, nr_Geohash = []\<rparr>"

definition base_header :: "byte list \<Rightarrow> byte list \<Rightarrow> byte list \<Rightarrow> PbHeader" where
  "base_header corr mid tid = zero_pb_header\<lparr>ph_Version := 1, ph_Type := MT_TASK, ph_Flags := 0, ph_Priority := 2,
     ph_CorrelationId := corr, ph_Source := node_ref ''ingress'', ph_Dest := node_ref ''workerA'',
     ph_ReplyTo := node_ref ''nodeIngress'', ph_FragIndex := 0, ph_FragTotal := 0, ph_MessageId := mid, ph_TraceId := tid,
     ph_CreatedUnixMs := 0, ph_Tags := [(''tenant'', ''demo'')], ph_Codec := 1, ph_Compression := 0\<rparr>"

definition genproto :: "encodings \<Rightarrow> byte list \<Rightarrow> byte list \<Rightarrow> byte list \<Rightarrow> (string \<times> PbEnvelope) list" where
  "genproto D corr mid tid =
     (let base = base_header corr mid tid;
          mk = (\<lambda>t b. \<lparr>pe_Header = Some (base\<lparr>ph_Type := t\<rparr>), pe_rest = en_bus D, pe_Body = Some b\<rparr>);
          res = \<lparr>rs_Outputs = [\<lparr>ou_Name = ''json'', ou_Payload = Some (PInline (bytes_of ''{\"ok\":true}''))\<rparr>],
                 rs_rest = en_result D\<rparr>;
          blob = res\<lparr>rs_Outputs := [\<lparr>ou_Name = ''blob'', ou_Payload = Some (PBlob (en_blob D))\<rparr>]\<rparr>
      in [(''envelope_raw.bin'', mk MT_RESULT (BRaw (bytes_of ''hello-raw''))),
          (''envelope_invoke.bin'', mk MT_TASK (BInvoke \<lparr>in_Params = en_params D,
             in_InlineArgs = [(''prompt'', bytes_of ''find cats'')], in_Blobs = []\<rparr>)),
          (''envelope_result_inline.bin'', mk MT_RESULT (BResult res)),
          (''envelope_result_blob.bin'', mk (ph_Type base) (BResult blob)),
          (''envelope_session_init.bin'', mk MT_CONTROL (BSessionInit (en_init D))),
          (''envelope_tiny_inline.bin'', mk MT_RESULT (BTinyResult
             \<lparr>tn_Payload = Some (PInline [0xde, 0xad, 0xbe, 0xef]), tn_rest = en_tiny1 D\<rparr>)),
          (''envelope_tiny_blobid.bin'', mk (ph_Type base) (BTinyResult
             \<lparr>tn_Payload = Some (PBlob [1, 2, 3, 4, 5, 6, 7, 8]), tn_rest = en_tiny2 D\<rparr>)),
          (''envelope_control_flow.bin'', \<lparr>pe_Header = Some (base\<lparr>ph_Type := MT_CONTROL, ph_Priority := 0\<rparr>),
             pe_rest = en_bus0 D, pe_Body = Some (BControl (Some (CFlow (en_flow D))))\<rparr>),
          (''envelope_ack_ok.bin'', \<lparr>pe_Header = None, pe_rest = [], pe_Body = Some (BAck (en_ack D))\<rparr>),
          (''envelope_lease_req.bin'', mk MT_CONTROL (BLeaseReq (en_lease_req D))),
          (''envelope_lease_rep.bin'', mk MT_CONTROL (BLeaseRep (en_lease_rep D))),
          (''envelope_session_close.bin'', mk MT_CONTROL (BSessionClose (en_close D)))])"

text \<open>A result in an envelope that is not of the type of results.\<close>

definition mislabelled :: "PbEnvelope \<Rightarrow> bool" where
  "mislabelled e \<longleftrightarrow> (case pe_Body e of Some (BResult r) \<Rightarrow> True | Some (BTinyResult t) \<Rightarrow> True | _ \<Rightarrow> False) \<and>
     ph_Type (GetHeader e) \<noteq> MT_RESULT"

section \<open>Lemmas\<close>

lemma concat_groups [simp]: "concat (groups s) = s"
  by (induction s rule: groups.induct) simp_all

lemma groups_short: "w \<in> set (groups s) \<Longrightarrow> w \<noteq> [] \<and> length w \<le> 4"
  by (induction s rule: groups.induct) auto

lemma hex_char_printed: "d < 16 \<Longrightarrow> hex_char d \<noteq> CHR '' ''"
proof -
  have "list_all (\<lambda>d. hex_char d \<noteq> CHR '' '') [0 ..< 16]" by code_simp
  then show "d < 16 \<Longrightarrow> hex_char d \<noteq> CHR '' ''" by (simp add: list_all_iff)
qed

lemma filter_Join: "\<forall>w \<in> set ws. CHR '' '' \<notin> set w \<Longrightarrow> filter (\<lambda>c. c \<noteq> CHR '' '') (Join ws '' '') = concat ws"
proof (induction ws "'' ''" rule: Join.induct)
  case (2 w)
  then show ?case by (auto simp: filter_id_conv)
next
  case (3 w v ws)
  then have "filter (\<lambda>c. c \<noteq> CHR '' '') w = w" by (auto simp: filter_id_conv)
  then show ?case using 3 by simp
qed simp

lemma set_groups: "w \<in> set (groups s) \<Longrightarrow> set w \<subseteq> set s"
  by (metis UN_upper concat_groups set_concat)

lemma hex_printed: "CHR '' '' \<notin> set (hex_EncodeToString bs)"
proof -
  have "unat b div 16 < 16" "unat b mod 16 < 16" for b :: byte using unat_byte_less [of b] by simp_all
  then have "CHR '' '' \<notin> set [hex_char (unat b div 16), hex_char (unat b mod 16)]" for b :: byte
    using hex_char_printed [of "unat b div 16"] hex_char_printed [of "unat b mod 16"] by simp
  then show ?thesis by (simp add: hex_EncodeToString_def)
qed

section \<open>Properties\<close>

text \<open>
  The head printed for a file is the hexadecimal text of its first bytes, an ellipsis when
  there are more, with spaces put in; between spaces there are at most four characters.
\<close>

theorem shortHex_reads_back:
  assumes "b \<noteq> []"
  shows "filter (\<lambda>c. c \<noteq> CHR '' '') (shortHex b n) =
    hex_EncodeToString (take n b) @ (if n < length b then ellipsis else [])"
proof -
  have e: "CHR '' '' \<notin> set ellipsis" by code_simp
  have f: "filter (\<lambda>c. c \<noteq> CHR '' '') (Join (groups s) '' '') = s" if "CHR '' '' \<notin> set s" for s
    using filter_Join [of "groups s"] set_groups [of _ s] that by fastforce
  show ?thesis
    using assms f [of "hex_EncodeToString (take n b) @ ellipsis"] f [of "hex_EncodeToString b"] hex_printed e
    by (auto simp: shortHex_def Let_def)
qed

text \<open>
  The files the generator writes can be read: the first holds a frame that decodes to the
  sample envelope with its body, the fragment files decode and reassemble to the forty bytes that
  were cut, and the last one decodes to an empty control envelope.
\<close>

theorem genframe_decodes:
  assumes "length corr = 16" "length payload < 2 ^ 32"
  shows "\<exists>json frags ctl e. genframe corr payload = Some (json # frags @ [ctl]) \<and>
    DecodeFrame zero_envelope (snd json) =
      (\<lparr>env_Header = (sample_header corr)\<lparr>hdr_PayloadLen := of_nat (length payload)\<rparr>, env_Payload = payload\<rparr>, None) \<and>
    Reassemble (map (\<lambda>f. fst (DecodeFrame zero_envelope (snd f))) frags) = Inr e \<and> env_Payload e = counting \<and>
    DecodeFrame zero_envelope (snd ctl) =
      (\<lparr>env_Header = (sample_header corr)\<lparr>hdr_Type := msg_code MsgControl\<rparr>, env_Payload = []\<rparr>, None)"
proof -
  let ?h = "sample_header corr"
  let ?env = "\<lparr>env_Header = ?h, env_Payload = payload\<rparr>"
  let ?env2 = "(set_PayloadLen ?env)\<lparr>env_Payload := counting\<rparr>"
  let ?ctl = "\<lparr>env_Header = ?h\<lparr>hdr_Type := msg_code MsgControl\<rparr>, env_Payload = []\<rparr>"
  have wf: "wf_envelope ?env" "wf_envelope ?env2" "wf_envelope ?ctl"
    using assms(1) by (simp_all add: wf_envelope_def wf_header_def sample_header_def set_PayloadLen_def)
  have c: "length counting = 40" by (simp add: counting_def)
  obtain fs e where fs: "Fragments ?env2 8 = Inr fs"
      "Reassemble (map (\<lambda>f. fst (DecodeFrame zero_envelope (snd (EncodeFrame f)))) fs) = Inr e" "env_Payload e = counting"
    using frames_reassemble [of 8 ?env2] wf(2) c by auto
  let ?names = "map (\<lambda>(i, f). (''frame_frag_'' @ two_digits i @ ''.bin'', mustFrame f)) (zip [0 ..< length fs] fs)"
  have "map (\<lambda>f. fst (DecodeFrame zero_envelope (snd f))) ?names =
      map (\<lambda>f. fst (DecodeFrame zero_envelope (snd (EncodeFrame f)))) fs"
    by (rule nth_equalityI) (simp_all add: mustFrame_def)
  moreover have "DecodeFrame zero_envelope (frame ?env) = (set_PayloadLen ?env, None)"
    "DecodeFrame zero_envelope (frame ?ctl) = (set_PayloadLen ?ctl, None)"
    using DecodeFrame_frame [OF wf(1), of zero_envelope "[]"] DecodeFrame_frame [OF wf(3), of zero_envelope "[]"] assms(2) by simp_all
  moreover have "genframe corr payload =
      Some ((''frame_json.bin'', frame ?env) # ?names @ [(''frame_control_empty.bin'', frame ?ctl)])"
    using fs(1) wf by (simp add: genframe_def EncodeFrame_frame mustFrame_def Let_def)
  moreover have "set_PayloadLen ?env = \<lparr>env_Header = ?h\<lparr>hdr_PayloadLen := of_nat (length payload)\<rparr>, env_Payload = payload\<rparr>"
    "set_PayloadLen ?ctl = ?ctl"
    by (simp_all add: set_PayloadLen_def sample_header_def zero_header_def)
  ultimately show ?thesis using fs(2,3) by (metis snd_conv)
qed

theorem genframe_decodes_witness:
  "\<exists>json frags ctl. genframe (replicate 16 7) [123, 125] = Some (json # frags @ [ctl])"
  using genframe_decodes [of "replicate 16 7" "[123, 125]"] by auto

theorem shortHex_reads_back_witness:
  "filter (\<lambda>c. c \<noteq> CHR '' '') (shortHex [222, 173, 190] 2) = hex_EncodeToString [222, 173] @ ellipsis"
  using shortHex_reads_back [of "[222, 173, 190]" 2] by simp

text \<open>Two of the sample results keep the type of a task.\<close>

theorem genproto_mislabels:
  "map fst (filter (mislabelled \<circ> snd) (genproto D corr mid tid)) =
     [''envelope_result_blob.bin'', ''envelope_tiny_blobid.bin'']"
  by (simp add: genproto_def base_header_def mislabelled_def GetHeader_def MT_TASK_def MT_RESULT_def Let_def)

end
