(* ===== verification/Gateway.thy ===== *)
theory Gateway
  imports Codec Messages
begin

text \<open>
  The gRPC gateway (\<open>pkg/gateway/grpc/grpc.go\<close>): the conversion between the envelopes of the wire
  protocol (theory Wire) and the protobuf envelopes (theory Messages), and the client stream. The
  message bodies are encoded with the codecs of theory Codec, whose libraries are the parameter
  \<open>L\<close>. A gRPC stream is the list of envelopes sent on it and the list still to be received.
  The definitions take an envelope: the first line of both conversions, which maps a nil pointer
  to a nil or zero envelope without an error, is left out.
  Lemmas: what a conversion there and back preserves, and how bodies and ids arrive.
\<close>

section \<open>Conversions\<close>

definition u64ToStr :: "uint64 \<Rightarrow> string" where
  "u64ToStr v = FormatUint v"

definition strToU64 :: "string \<Rightarrow> uint64" where
  "strToU64 s = (if s = [] then 0 else fst (ParseUint s))"

definition CODEC_RAW :: int where "CODEC_RAW = 0"
definition CODEC_PROTOBUF :: int where "CODEC_PROTOBUF = 1"

definition ToProtoEnvelope :: "Envelope \<Rightarrow> PbEnvelope" where
  "ToProtoEnvelope e =
     (let eh = env_Header e;
          h = zero_pb_header\<lparr>
            ph_Version := ucast (hdr_Version eh),
            ph_Type := uint (hdr_Type eh),
            ph_Flags := hdr_Flags eh,
            ph_Priority := ucast (hdr_Priority eh),
            ph_CorrelationId := hdr_Correlation eh,
            ph_Source := Some \<lparr>nr_Id = u64ToStr (hdr_Source eh), nr_Geohash = []\<rparr>,
            ph_Dest := Some \<lparr>nr_Id = u64ToStr (hdr_Dest eh), nr_Geohash = []\<rparr>,
            ph_ReplyTo := Some \<lparr>nr_Id = [], nr_Geohash = []\<rparr>,
            ph_FragIndex := ucast (hdr_FragIndex eh),
            ph_FragTotal := ucast (hdr_FragTotal eh)\<rparr>;
          h = (if env_Payload e \<noteq> [] then
                 h\<lparr>ph_Codec := (case to_format (env_Payload e ! 0) of FormatProto \<Rightarrow> CODEC_PROTOBUF | _ \<Rightarrow> CODEC_RAW)\<rparr>
               else h)
      in \<lparr>pe_Header = Some h, pe_rest = [], pe_Body = Some (BRaw (env_Payload e))\<rparr>)"

definition proto_body :: "Body builtins \<Rightarrow> Body \<Rightarrow> codec_error + byte list" where
  "proto_body L b = EncodeBody L (Codec_Register (NewRegistry L) (Proto L)) FormatProto b"

text \<open>The message type a body that is not raw gives the header.\<close>

fun body_type :: "Body \<Rightarrow> MessageType" where
  "body_type (BInvoke i) = MT_TASK"
| "body_type (BChunk c) = MT_DAG_FRAGMENT"
| "body_type (BResult r) = MT_RESULT"
| "body_type (BTinyResult t) = MT_RESULT"
| "body_type _ = MT_CONTROL"

definition from_header :: "PbHeader \<Rightarrow> Header" where
  "from_header p = zero_header\<lparr>
     hdr_Version := ucast (ph_Version p),
     hdr_Type := of_int (ph_Type p),
     hdr_Flags := ph_Flags p,
     hdr_Priority := ucast (ph_Priority p),
     hdr_Correlation := take 16 (ph_CorrelationId p @ replicate 16 0),
     hdr_Source := strToU64 (GetId (ph_Source p)),
     hdr_Dest := strToU64 (GetId (ph_Dest p)),
     hdr_FragTotal := ucast (ph_FragTotal p),
     hdr_FragIndex := ucast (ph_FragIndex p)\<rparr>"

definition FromProtoEnvelope :: "Body builtins \<Rightarrow> PbEnvelope \<Rightarrow> codec_error + Envelope" where
  "FromProtoEnvelope L pe =
     (let h = from_header (GetHeader pe);
          done = (\<lambda>h payload. Inr \<lparr>env_Header = h\<lparr>hdr_PayloadLen := of_nat (length payload)\<rparr>, env_Payload = payload\<rparr>)
      in case pe_Body pe of
           None \<Rightarrow> done h []
         | Some (BRaw b) \<Rightarrow> done h b
         | Some b \<Rightarrow>
             (case proto_body L b of
                Inl err \<Rightarrow> Inl err
              | Inr eb \<Rightarrow> done (h\<lparr>hdr_Type := of_int (body_type b)\<rparr>) eb))"

section \<open>The client stream\<close>

record clientStream =
  cs_sent :: "PbEnvelope list"
  cs_inbox :: "PbEnvelope list"
  cs_closed :: bool

datatype stream_error = StreamError | ConvertError codec_error

text \<open>\<open>ok\<close>: the outcome of sending on the gRPC stream.\<close>

definition cs_Send :: "clientStream \<Rightarrow> Envelope \<Rightarrow> bool \<Rightarrow> stream_error option \<times> clientStream" where
  "cs_Send s e ok =
     (let pe = ToProtoEnvelope e in
      if ok then (None, s\<lparr>cs_sent := cs_sent s @ [pe]\<rparr>) else (Some StreamError, s))"

definition cs_Recv :: "Body builtins \<Rightarrow> clientStream \<Rightarrow> (stream_error + Envelope) \<times> clientStream" where
  "cs_Recv L s =
     (case cs_inbox s of
        [] \<Rightarrow> (Inl StreamError, s)
      | pe # rest \<Rightarrow>
          (case FromProtoEnvelope L pe of
             Inl err \<Rightarrow> (Inl (ConvertError err), s\<lparr>cs_inbox := rest\<rparr>)
           | Inr e \<Rightarrow> (Inr e, s\<lparr>cs_inbox := rest\<rparr>)))"

definition cs_Close :: "clientStream \<Rightarrow> clientStream" where
  "cs_Close s = s\<lparr>cs_closed := True\<rparr>"

fun cs_Send_all :: "clientStream \<Rightarrow> Envelope list \<Rightarrow> clientStream" where
  "cs_Send_all s [] = s"
| "cs_Send_all s (e # es) = cs_Send_all (snd (cs_Send s e True)) es"

fun cs_Recv_all :: "Body builtins \<Rightarrow> clientStream \<Rightarrow> nat \<Rightarrow> Envelope list" where
  "cs_Recv_all L s 0 = []"
| "cs_Recv_all L s (Suc n) =
     (case cs_Recv L s of (Inl err, s) \<Rightarrow> [] | (Inr e, s) \<Rightarrow> e # cs_Recv_all L s n)"

section \<open>Lemmas\<close>

lemma strToU64_u64ToStr [simp]: "strToU64 (u64ToStr v) = v"
proof -
  have "FormatUint v \<noteq> []" by (simp add: FormatUint_def)
  then show ?thesis by (simp add: strToU64_def u64ToStr_def ParseUint_FormatUint)
qed

lemma ucast_back8: "ucast (ucast (w :: uint8) :: uint32) = w"
  by transfer (simp add: take_bit_take_bit)

lemma ucast_back16: "ucast (ucast (w :: uint16) :: uint32) = w"
  by transfer (simp add: take_bit_take_bit)

text \<open>What a trip through the gateway leaves of an envelope.\<close>

definition gateway_view :: "Envelope \<Rightarrow> Envelope" where
  "gateway_view e = e\<lparr>env_Header := (env_Header e)\<lparr>hdr_PayloadLen := of_nat (length (env_Payload e)),
     hdr_DagID := 0, hdr_DagStep := 0\<rparr>\<rparr>"

lemma there_and_back:
  assumes "wf_header (env_Header e)"
  shows "FromProtoEnvelope L (ToProtoEnvelope e) = Inr (gateway_view e)"
proof -
  have c: "take 16 (hdr_Correlation (env_Header e) @ replicate 16 0) = hdr_Correlation (env_Header e)"
    using assms by (simp add: wf_header_def)
  show ?thesis
    by (cases e, cases "env_Header e")
      (use c in \<open>simp add: FromProtoEnvelope_def ToProtoEnvelope_def gateway_view_def from_header_def zero_header_def
        GetHeader_def GetId_def zero_pb_header_def Let_def ucast_back8 ucast_back16\<close>)
qed

lemma cs_Send_all_sent: "cs_sent (cs_Send_all s es) = cs_sent s @ map ToProtoEnvelope es"
  by (induction es arbitrary: s) (simp_all add: cs_Send_def Let_def)

lemma cs_Recv_all_inbox:
  assumes "list_all (\<lambda>e. wf_header (env_Header e)) es" "cs_inbox s = map ToProtoEnvelope es @ rest"
  shows "cs_Recv_all L s (length es) = map gateway_view es"
  using assms by (induction es arbitrary: s) (simp_all add: cs_Recv_def there_and_back)

lemma CodecFor_proto: "CodecFor L (Codec_Register (NewRegistry L) (Proto L)) FormatProto = Inr (Proto L)"
  by (simp add: Codec_Get_def Codec_Register_def Proto_def ContentProto_def)

lemma proto_body_eq:
  "proto_body L b = (case cdc_Marshal (Proto L) b of Inl err \<Rightarrow> Inl err | Inr x \<Rightarrow> Inr (3 # x))"
  unfolding proto_body_def EncodeBody_def CodecFor_proto sum.case by (simp add: Let_def put_at_def split: sum.split)

lemma EncodeBody_proto:
  "CodecFor L reg FormatProto = Inr (Proto L) \<Longrightarrow> EncodeBody L reg FormatProto b = proto_body L b"
  unfolding proto_body_def EncodeBody_def CodecFor_proto by (simp del: CodecFor.simps)

lemma strToU64_no_digit: "digit_val c = None \<Longrightarrow> strToU64 (c # cs) = 0"
  by (simp add: strToU64_def ParseUint_def)

section \<open>Properties\<close>

text \<open>
  C34: the envelopes a client sends over the gateway arrive, in order, at a gateway that receives what
  was sent, each with the payload and all header fields, except that the payload length is made to
  fit and the DAG id and step are lost: they are 0 at the receiver.
\<close>

theorem gateway_stream_roundtrip:
  assumes "list_all (\<lambda>e. wf_header (env_Header e)) es" "cs_inbox r = cs_sent (cs_Send_all s es)" "cs_sent s = []"
  shows "cs_Recv_all L r (length es) = map gateway_view es"
  using cs_Recv_all_inbox [OF assms(1), of r "[]" L] assms(2,3) by (simp add: cs_Send_all_sent)

text \<open>
  A protobuf envelope with a message as its body becomes an envelope of the type of that message
  whose body decodes, with any registry that has the protobuf codec, to the same message; it fails
  exactly when the message cannot be encoded. The protobuf library is relied upon for the message.
\<close>

theorem gateway_bodies_decode:
  assumes "pe_Body pe = Some b" "\<And>x. b \<noteq> BRaw x" "codec_law (Proto L) b"
    and "CodecFor L reg FormatProto = Inr (Proto L)"
  shows "case FromProtoEnvelope L pe of
      Inl err \<Rightarrow> cdc_Marshal (Proto L) b = Inl err
    | Inr e \<Rightarrow> hdr_Type (env_Header e) = of_int (body_type b) \<and> DecodeEnvelopeBody L e reg = (FormatProto, Inr b)"
proof -
  have raw: "\<forall>x. b \<noteq> BRaw x" using assms(2) by blast
  show ?thesis
  proof (cases "proto_body L b")
    case (Inl err)
    then have "cdc_Marshal (Proto L) b = Inl err"
      by (simp add: proto_body_eq split: sum.splits)
    then show ?thesis using assms(1) raw Inl by (cases b) (simp_all add: FromProtoEnvelope_def Let_def)
  next
    case (Inr eb)
    then have "EncodeBody L reg FormatProto b = Inr eb" using EncodeBody_proto [OF assms(4)] by simp
    then have "DecodeBody L reg eb = (FormatProto, Inr b)"
      by (rule body_roundtrip_aux) (use assms(3,4) in \<open>simp del: CodecFor.simps\<close>)
    then show ?thesis using assms(1) raw Inr by (cases b) (simp_all add: FromProtoEnvelope_def DecodeEnvelopeBody_def Let_def)
  qed
qed

text \<open>
  The gateway forgets whom an envelope is for: the header of the wire protocol has a number for
  source and destination, and every canonical peer id, of whatever key, becomes the number 0.
\<close>

theorem gateway_loses_canonical_ids:
  assumes "GetId (ph_Dest (GetHeader pe)) = CanonicalPeerIDFromPubKey alg pub" "FromProtoEnvelope L pe = Inr e"
  shows "hdr_Dest (env_Header e) = 0"
proof -
  have "strToU64 (CanonicalPeerIDFromPubKey alg pub) = 0"
    by (simp add: CanonicalPeerIDFromPubKey_def Let_def strToU64_no_digit digit_val_def)
  then have h: "hdr_Dest (from_header (GetHeader pe)) = 0" using assms(1) by (simp add: from_header_def)
  show ?thesis using assms(2) h by (auto simp: FromProtoEnvelope_def Let_def split: option.splits Body.splits sum.splits)
qed

section \<open>The properties at work\<close>

definition plain_envelope :: Envelope where
  "plain_envelope = \<lparr>env_Header = zero_header\<lparr>hdr_Dest := 7, hdr_DagID := 9\<rparr>, env_Payload = [3, 1, 2]\<rparr>"

definition sample_builtins :: "Body builtins" where
  "sample_builtins = \<lparr>json_Marshal = (\<lambda>v. Inl CodecInit), json_Unmarshal = (\<lambda>b. Inl CodecInit), cbor_modes = None,
     cbor_Marshal = (\<lambda>v. Inl CodecInit), cbor_Unmarshal = (\<lambda>b. Inl CodecInit), is_message = (\<lambda>v. True),
     proto_Marshal = (\<lambda>v. case v of BAck b \<Rightarrow> Inr b | _ \<Rightarrow> Inl NotAMessage), proto_Unmarshal = (\<lambda>b. Inr (BAck b))\<rparr>"

lemma gateway_stream_roundtrip_witness:
  "map (hdr_DagID \<circ> env_Header) (cs_Recv_all sample_builtins
     \<lparr>cs_sent = [], cs_inbox = cs_sent (cs_Send_all \<lparr>cs_sent = [], cs_inbox = [], cs_closed = False\<rparr> [plain_envelope]), cs_closed = False\<rparr> 1) = [0]"
  using gateway_stream_roundtrip [of "[plain_envelope]"
      "\<lparr>cs_sent = [], cs_inbox = cs_sent (cs_Send_all \<lparr>cs_sent = [], cs_inbox = [], cs_closed = False\<rparr> [plain_envelope]), cs_closed = False\<rparr>"
      "\<lparr>cs_sent = [], cs_inbox = [], cs_closed = False\<rparr>" sample_builtins]
  by (simp add: plain_envelope_def wf_header_def zero_header_def gateway_view_def del: cs_Recv_all.simps)

definition ack_message :: PbEnvelope where
  "ack_message = \<lparr>pe_Header = Some (zero_pb_header\<lparr>ph_Dest := Some \<lparr>nr_Id = CanonicalPeerIDFromPubKey ''ed25519'' [1], nr_Geohash = []\<rparr>\<rparr>),
     pe_rest = [], pe_Body = Some (BAck [5])\<rparr>"

lemma ack_message_converted:
  "FromProtoEnvelope sample_builtins ack_message = Inr \<lparr>env_Header = (from_header (GetHeader ack_message))\<lparr>hdr_Type := 3, hdr_PayloadLen := 2\<rparr>,
     env_Payload = [3, 5]\<rparr>"
  by (simp add: FromProtoEnvelope_def ack_message_def proto_body_eq Let_def Proto_def
      protoCodec_Marshal_def sample_builtins_def MT_CONTROL_def)

lemma gateway_bodies_decode_witness:
  "DecodeEnvelopeBody sample_builtins \<lparr>env_Header = (from_header (GetHeader ack_message))\<lparr>hdr_Type := 3, hdr_PayloadLen := 2\<rparr>, env_Payload = [3, 5]\<rparr>
     (NewRegistry sample_builtins) = (FormatProto, Inr (BAck [5]))"
proof -
  have l: "codec_law (Proto sample_builtins) (BAck [5])"
    by (simp add: codec_law_def Proto_def protoCodec_Marshal_def sample_builtins_def)
  have c: "CodecFor sample_builtins (NewRegistry sample_builtins) FormatProto = Inr (Proto sample_builtins)"
    by (simp add: Codec_Get_def NewRegistry_def Codec_Register_def Proto_def JSON_def ContentProto_def Let_def)
  have "pe_Body ack_message = Some (BAck [5])" by (simp add: ack_message_def)
  from gateway_bodies_decode [OF this _ l c] show ?thesis by (simp add: ack_message_converted)
qed

lemma gateway_loses_canonical_ids_witness:
  "hdr_Dest (env_Header \<lparr>env_Header = (from_header (GetHeader ack_message))\<lparr>hdr_Type := 3, hdr_PayloadLen := 2\<rparr>, env_Payload = [3, 5]\<rparr>) = 0"
proof -
  have "GetId (ph_Dest (GetHeader ack_message)) = CanonicalPeerIDFromPubKey ''ed25519'' [1]"
    by (simp add: ack_message_def GetHeader_def GetId_def)
  from gateway_loses_canonical_ids [OF this ack_message_converted] show ?thesis .
qed

end
