(* ===== verification/Pipes.thy ===== *)
theory Pipes
  imports Transport
begin

text \<open>
  The sessions of the in-memory and named-pipe transports (\<open>mem.go\<close>, \<open>winpipe_windows.go\<close>) with
  their buffers made explicit, because both read the length prefix with a single \<open>Read\<close>. A
  connection delivers what the other end wrote in chunks, one per \<open>Write\<close>, as \<open>net.Pipe\<close> does: a
  \<open>Read\<close> returns bytes of one chunk only. \<open>bufio.Reader\<close> and \<open>bufio.Writer\<close> are the standard
  library's, with their default size. \<open>net.Pipe\<close> makes a writer wait until its bytes are read; here the
  chunks wait instead, in the same order.
\<close>

section \<open>Buffers and chunks\<close>

definition defaultBufSize :: nat where "defaultBufSize = 4096"

type_synonym chunks = "byte list list"

text \<open>No chunk left means that the other end is closed.\<close>

fun conn_Read :: "nat \<Rightarrow> chunks \<Rightarrow> (byte list \<times> chunks) option" where
  "conn_Read k [] = None"
| "conn_Read k (c # cs) = Some (take k c, if length c \<le> k then cs else drop k c # cs)"

record Reader =
  br_buf :: "byte list"
  br_src :: chunks

definition br_Read :: "nat \<Rightarrow> Reader \<Rightarrow> (byte list \<times> Reader) option" where
  "br_Read n r =
     (if br_buf r \<noteq> [] then Some (take n (br_buf r), r\<lparr>br_buf := drop n (br_buf r)\<rparr>)
      else if n \<ge> defaultBufSize then
        (case conn_Read n (br_src r) of None \<Rightarrow> None | Some (got, cs) \<Rightarrow> Some (got, r\<lparr>br_src := cs\<rparr>))
      else
        (case conn_Read defaultBufSize (br_src r) of
           None \<Rightarrow> None
         | Some (got, cs) \<Rightarrow> Some (take n got, \<lparr>br_buf = drop n got, br_src = cs\<rparr>)))"

lemma conn_Read_chunks: "conn_Read k cs = Some (got, cs') \<Longrightarrow>
    length got \<le> k \<and> length cs' \<le> length cs \<and> (got = [] \<longrightarrow> 0 < k \<longrightarrow> length cs' < length cs)"
  by (cases cs) (auto split: if_splits)

lemma br_Read_progress:
  "br_Read n r = Some (got, r') \<Longrightarrow> 0 < n \<Longrightarrow>
     length got \<le> n \<and> length (br_src r') \<le> length (br_src r) \<and>
     (got = [] \<longrightarrow> length (br_src r') < length (br_src r))"
  by (auto simp: br_Read_def defaultBufSize_def split: if_splits option.splits dest!: conn_Read_chunks)

text \<open>\<open>io.ReadFull\<close>: reads until \<open>n\<close> bytes have come; \<open>seen\<close> are those read so far.\<close>

function ReadFull_from :: "byte list \<Rightarrow> nat \<Rightarrow> Reader \<Rightarrow> wire_error option \<times> byte list \<times> Reader" where
  "ReadFull_from seen n r =
     (if n = 0 then (None, seen, r)
      else case br_Read n r of
          None \<Rightarrow> (Some (if seen = [] then EOF else ErrUnexpectedEOF), seen, r)
        | Some (got, r) \<Rightarrow> ReadFull_from (seen @ got) (n - length got) r)"
  by pat_completeness auto
termination
proof (relation "measure (\<lambda>(seen, n, r). n + length (br_src r))", goal_cases)
  case (2 seen n r p got r')
  then have "length got \<le> n \<and> length (br_src r') \<le> length (br_src r) \<and>
      (got = [] \<longrightarrow> length (br_src r') < length (br_src r))"
    by (intro br_Read_progress) simp_all
  then show ?case using 2 by (cases got) auto
qed simp

declare ReadFull_from.simps [simp del]

record Writer =
  bw_buf :: "byte list"
  bw_err :: bool

text \<open>\<open>closed\<close> says whether the connection has been closed; what is written becomes a chunk.\<close>

definition bw_Flush :: "bool \<Rightarrow> Writer \<Rightarrow> chunks \<Rightarrow> wire_error option \<times> Writer \<times> chunks" where
  "bw_Flush closed w out =
     (if bw_err w then (Some ErrWrite, w, out)
      else if bw_buf w = [] then (None, w, out)
      else if closed then (Some ErrWrite, w\<lparr>bw_err := True\<rparr>, out)
      else (None, w\<lparr>bw_buf := []\<rparr>, out @ [bw_buf w]))"

function bw_Write :: "bool \<Rightarrow> byte list \<Rightarrow> Writer \<Rightarrow> chunks \<Rightarrow> wire_error option \<times> Writer \<times> chunks" where
  "bw_Write closed p w out =
     (let avail = defaultBufSize - length (bw_buf w) in
      if bw_err w then (Some ErrWrite, w, out)
      else if length p \<le> avail then (None, w\<lparr>bw_buf := bw_buf w @ p\<rparr>, out)
      else if bw_buf w = [] then
        (if closed then (Some ErrWrite, w\<lparr>bw_err := True\<rparr>, out) else (None, w, out @ [p]))
      else
        (case bw_Flush closed (w\<lparr>bw_buf := bw_buf w @ take avail p\<rparr>) out of
           (_, w, out) \<Rightarrow> bw_Write closed (drop avail p) w out))"
  by pat_completeness auto
termination
  by (relation "measure (\<lambda>(closed, p, w, out). length p + length (bw_buf w) + (if bw_err w then 0 else 1))")
    (auto simp: bw_Flush_def simp flip: length_greater_0_conv split: if_splits)

declare bw_Write.simps [simp del]

section \<open>Sessions\<close>

text \<open>Reader and writer are created by the first use.\<close>

record pipe_session =
  pp_peer :: PeerInfo
  pp_kind :: Kind
  pp_br :: "byte list option"
  pp_bw :: "Writer option"
  pp_in :: chunks
  pp_out :: chunks
  pp_closed :: bool
  pp_establishedAt :: int
  pp_lastSeen :: int

definition new_writer :: Writer where
  "new_writer = \<lparr>bw_buf = [], bw_err = False\<rparr>"

definition mem_OpenStream :: "pipe_session \<Rightarrow> pipe_session" where
  "mem_OpenStream s =
     (if pp_br s = None \<or> pp_bw s = None then s\<lparr>pp_br := Some [], pp_bw := Some new_writer\<rparr> else s)"

definition mem_AcceptStream :: "pipe_session \<Rightarrow> pipe_session" where
  "mem_AcceptStream s = mem_OpenStream s"

definition mem_SendBytes :: "pipe_session \<Rightarrow> byte list \<Rightarrow> int \<Rightarrow> pipe_session \<times> link_error option" where
  "mem_SendBytes s b now =
     (let w = (case pp_bw s of None \<Rightarrow> new_writer | Some w \<Rightarrow> w);
          lenbuf = put32 (of_nat (length b)) in
      case bw_Write (pp_closed s) lenbuf w (pp_out s) of
        (Some err, w, out) \<Rightarrow> (s\<lparr>pp_bw := Some w, pp_out := out\<rparr>, Some (LinkIO err))
      | (None, w, out) \<Rightarrow>
          (case bw_Write (pp_closed s) b w out of
             (Some err, w, out) \<Rightarrow> (s\<lparr>pp_bw := Some w, pp_out := out\<rparr>, Some (LinkIO err))
           | (None, w, out) \<Rightarrow>
               (case bw_Flush (pp_closed s) w out of
                  (Some err, w, out) \<Rightarrow> (s\<lparr>pp_bw := Some w, pp_out := out\<rparr>, Some (LinkIO err))
                | (None, w, out) \<Rightarrow> (s\<lparr>pp_bw := Some w, pp_out := out, pp_lastSeen := now\<rparr>, None))))"

definition reader :: "pipe_session \<Rightarrow> Reader" where
  "reader s = \<lparr>br_buf = (case pp_br s of None \<Rightarrow> [] | Some b \<Rightarrow> b), br_src = pp_in s\<rparr>"

definition set_reader :: "Reader \<Rightarrow> pipe_session \<Rightarrow> pipe_session" where
  "set_reader r s = s\<lparr>pp_br := Some (br_buf r), pp_in := br_src r\<rparr>"

text \<open>The prefix is read with one \<open>Read\<close>: the bytes it does not deliver stay zero.\<close>

definition mem_RecvBytes :: "pipe_session \<Rightarrow> int \<Rightarrow> pipe_session \<times> (link_error + byte list)" where
  "mem_RecvBytes s now =
     (case br_Read 4 (reader s) of
        None \<Rightarrow> (set_reader (reader s) s, Inl (LinkIO EOF))
      | Some (got, r) \<Rightarrow>
          let lenbuf = put_at (replicate 4 0) 0 got; n = unat (get32 lenbuf) in
          if n > maxFrame then (set_reader r s, Inl InvalidFrameSize)
          else (case ReadFull_from [] n r of
             (Some err, _, r) \<Rightarrow> (set_reader r s, Inl (LinkIO err))
           | (None, buf, r) \<Rightarrow> ((set_reader r s)\<lparr>pp_lastSeen := now\<rparr>, Inr buf)))"

definition mem_Close :: "pipe_session \<Rightarrow> pipe_session" where
  "mem_Close s = s\<lparr>pp_closed := True\<rparr>"

section \<open>What is written\<close>

text \<open>The chunks one message is written in: the first holds at least the whole prefix.\<close>

definition chunks_of :: "byte list \<Rightarrow> chunks" where
  "chunks_of b =
     (let p = packet b in
      if length p \<le> defaultBufSize then [p] else [take defaultBufSize p, drop defaultBufSize p])"

lemma length_packet: "length (packet b) = 4 + length b"
  by (simp add: packet_def length_puts)

lemma concat_chunks_of: "concat (chunks_of b) = packet b"
  by (simp add: chunks_of_def Let_def)

lemma chunks_of_nonempty: "[] \<notin> set (chunks_of b)"
proof -
  have "packet b \<noteq> []" using length_packet [of b] by auto
  then show ?thesis by (auto simp: chunks_of_def Let_def defaultBufSize_def)
qed

lemma chunks_of_first: "\<exists>c cs. chunks_of b = c # cs \<and> 4 \<le> length c"
  by (auto simp: chunks_of_def Let_def length_packet defaultBufSize_def)

definition flushed :: "pipe_session \<Rightarrow> bool" where
  "flushed s \<longleftrightarrow> \<not> pp_closed s \<and> (case pp_bw s of None \<Rightarrow> True | Some w \<Rightarrow> w = new_writer)"

lemma bw_Write_fits:
  "\<not> bw_err w \<Longrightarrow> length p \<le> defaultBufSize - length (bw_buf w) \<Longrightarrow>
   bw_Write closed p w out = (None, w\<lparr>bw_buf := bw_buf w @ p\<rparr>, out)"
  by (subst bw_Write.simps) simp

lemma bw_Write_direct:
  "\<not> bw_err w \<Longrightarrow> bw_buf w = [] \<Longrightarrow> defaultBufSize < length p \<Longrightarrow>
   bw_Write False p w out = (None, w, out @ [p])"
  by (subst bw_Write.simps) simp

lemma bw_Write_full:
  "\<not> bw_err w \<Longrightarrow> bw_buf w \<noteq> [] \<Longrightarrow> avail = defaultBufSize - length (bw_buf w) \<Longrightarrow> avail < length p \<Longrightarrow>
   bw_Write False p w out = bw_Write False (drop avail p) (w\<lparr>bw_buf := []\<rparr>) (out @ [bw_buf w @ take avail p])"
  by (subst bw_Write.simps) (simp add: bw_Flush_def Let_def)

text \<open>The prefix and the message, written and flushed.\<close>

lemma mem_SendBytes_ok:
  assumes "flushed s"
  shows "mem_SendBytes s b now =
    (s\<lparr>pp_bw := Some new_writer, pp_out := pp_out s @ chunks_of b, pp_lastSeen := now\<rparr>, None)"
proof -
  let ?l = "put32 (of_nat (length b))"
  have w: "(case pp_bw s of None \<Rightarrow> new_writer | Some w \<Rightarrow> w) = new_writer" and open': "\<not> pp_closed s"
    using assms by (auto simp: flushed_def split: option.splits)
  have l: "length ?l = 4" by (simp add: length_puts)
  have pre: "bw_Write False ?l new_writer out = (None, \<lparr>bw_buf = ?l, bw_err = False\<rparr>, out)" for out
    using bw_Write_fits [of new_writer ?l] l by (simp add: new_writer_def defaultBufSize_def)
  have ne: "?l \<noteq> []" using l by (metis list.size(3) zero_neq_numeral)
  have out: "\<exists>w out'. bw_Write False b \<lparr>bw_buf = ?l, bw_err = False\<rparr> out = (None, w, out') \<and>
      bw_Flush False w out' = (None, new_writer, out @ chunks_of b)" for out
  proof (cases "length b \<le> defaultBufSize - 4")
    case True
    then show ?thesis using ne l
      by (simp add: bw_Write_fits bw_Flush_def new_writer_def chunks_of_def length_packet defaultBufSize_def packet_def)
  next
    case False
    have "bw_Write False b \<lparr>bw_buf = ?l, bw_err = False\<rparr> out =
        bw_Write False (drop (defaultBufSize - 4) b) new_writer (out @ [?l @ take (defaultBufSize - 4) b])"
      using False ne l bw_Write_full [of "\<lparr>bw_buf = ?l, bw_err = False\<rparr>" "defaultBufSize - 4" b out]
      by (simp add: new_writer_def)
    moreover have "take defaultBufSize (packet b) = ?l @ take (defaultBufSize - 4) b"
      "drop defaultBufSize (packet b) = drop (defaultBufSize - 4) b" "drop (defaultBufSize - 4) b \<noteq> []"
      "chunks_of b = [take defaultBufSize (packet b), drop defaultBufSize (packet b)]"
      using False l by (simp_all add: packet_def defaultBufSize_def chunks_of_def length_puts)
    ultimately show ?thesis
      by (cases "length (drop (defaultBufSize - 4) b) \<le> defaultBufSize")
        (simp_all add: bw_Write_fits bw_Write_direct bw_Flush_def new_writer_def del: length_drop)
  qed
  obtain w out' where "bw_Write False b \<lparr>bw_buf = ?l, bw_err = False\<rparr> (pp_out s) = (None, w, out')"
    "bw_Flush False w out' = (None, new_writer, pp_out s @ chunks_of b)" using out by blast
  then show ?thesis using open' by (simp add: mem_SendBytes_def w pre)
qed

section \<open>What is read\<close>

text \<open>As long as the chunks of one message are not mixed with others, reading it takes all of them.\<close>

lemma ReadFull_from_chunks:
  assumes "[] \<notin> set cs" "length (concat cs) = n"
  shows "ReadFull_from seen n \<lparr>br_buf = [], br_src = cs @ rest\<rparr> =
    (None, seen @ concat cs, \<lparr>br_buf = [], br_src = rest\<rparr>)"
  using assms
proof (induction cs arbitrary: seen n)
  case Nil
  then show ?case by (simp add: ReadFull_from.simps)
next
  case (Cons c cs)
  have c: "c \<noteq> []" "length c \<le> n" "0 < n" using Cons.prems by auto
  have "br_Read n \<lparr>br_buf = [], br_src = (c # cs) @ rest\<rparr> = Some (c, \<lparr>br_buf = [], br_src = cs @ rest\<rparr>)"
    using c by (simp add: br_Read_def)
  then have "ReadFull_from seen n \<lparr>br_buf = [], br_src = (c # cs) @ rest\<rparr> =
      ReadFull_from (seen @ c) (n - length c) \<lparr>br_buf = [], br_src = cs @ rest\<rparr>"
    using c by (subst ReadFull_from.simps) simp
  then show ?case using Cons by simp
qed

lemma ReadFull_from_take:
  assumes "[] \<notin> set cs" "length (buf @ concat cs) = n"
  shows "ReadFull_from seen n \<lparr>br_buf = buf, br_src = cs @ rest\<rparr> =
    (None, seen @ buf @ concat cs, \<lparr>br_buf = [], br_src = rest\<rparr>)"
proof (cases "buf = []")
  case True
  then show ?thesis using ReadFull_from_chunks [of cs n seen rest] assms by simp
next
  case False
  then have "0 < n" using assms by auto
  then have "ReadFull_from seen n \<lparr>br_buf = buf, br_src = cs @ rest\<rparr> =
      ReadFull_from (seen @ buf) (n - length buf) \<lparr>br_buf = [], br_src = cs @ rest\<rparr>"
    using assms False by (subst ReadFull_from.simps) (simp add: br_Read_def)
  then show ?thesis using ReadFull_from_chunks [of cs "n - length buf" "seen @ buf" rest] assms by simp
qed

text \<open>The first chunk of a message holds its prefix, so one \<open>Read\<close> delivers it.\<close>

lemma br_Read_prefix:
  assumes "4 \<le> length c"
  shows "\<exists>buf cs'. br_Read 4 \<lparr>br_buf = [], br_src = c # cs\<rparr> = Some (take 4 c, \<lparr>br_buf = buf, br_src = cs' @ cs\<rparr>) \<and>
    [] \<notin> set cs' \<and> buf @ concat cs' = drop 4 c"
proof (intro exI conjI)
  let ?cs' = "if length c \<le> defaultBufSize then [] else [drop defaultBufSize c]"
  show "br_Read 4 \<lparr>br_buf = [], br_src = c # cs\<rparr> =
      Some (take 4 c, \<lparr>br_buf = drop 4 (take defaultBufSize c), br_src = ?cs' @ cs\<rparr>)"
    by (simp add: br_Read_def defaultBufSize_def min_def)
  show "[] \<notin> set ?cs'" by simp
  show "drop 4 (take defaultBufSize c) @ concat ?cs' = drop 4 c"
  proof (cases "length c \<le> defaultBufSize")
    case False
    then show ?thesis using drop_append [of 4 "take defaultBufSize c" "drop defaultBufSize c"]
      by (simp add: defaultBufSize_def)
  qed simp
qed

lemma mem_RecvBytes_message:
  assumes "pp_br s \<in> {None, Some []}" "pp_in s = chunks_of b @ rest" "length b \<le> maxFrame"
  shows "mem_RecvBytes s now = (s\<lparr>pp_br := Some [], pp_in := rest, pp_lastSeen := now\<rparr>, Inr b)"
proof -
  let ?l = "put32 (of_nat (length b))"
  have l: "length ?l = 4" by (simp add: length_puts)
  obtain c cs where c: "chunks_of b = c # cs" "4 \<le> length c" using chunks_of_first by blast
  obtain buf cs' where r: "br_Read 4 \<lparr>br_buf = [], br_src = c # cs @ rest\<rparr> =
      Some (take 4 c, \<lparr>br_buf = buf, br_src = cs' @ cs @ rest\<rparr>)"
    and cs': "[] \<notin> set cs'" "buf @ concat cs' = drop 4 c"
    using br_Read_prefix [OF c(2), of "cs @ rest"] by auto
  have all: "c @ concat cs = ?l @ b" using concat_chunks_of [of b] c(1) by (simp add: packet_def)
  have "take 4 (c @ concat cs) = take 4 (?l @ b)" "drop 4 (c @ concat cs) = drop 4 (?l @ b)"
    by (simp_all only: all)
  then have p: "take 4 c = ?l" "drop 4 c @ concat cs = b" using c(2) l by simp_all
  have z: "put_at (replicate 4 0) 0 ?l = ?l" using l by (simp add: put_at_def)
  have "ReadFull_from [] (length b) \<lparr>br_buf = buf, br_src = (cs' @ cs) @ rest\<rparr> =
      (None, [] @ buf @ concat (cs' @ cs), \<lparr>br_buf = [], br_src = rest\<rparr>)"
    using cs' p chunks_of_nonempty [of b] c(1) by (intro ReadFull_from_take) (auto simp flip: append_assoc)
  then have "ReadFull_from [] (length b) \<lparr>br_buf = buf, br_src = cs' @ cs @ rest\<rparr> =
      (None, b, \<lparr>br_buf = [], br_src = rest\<rparr>)"
    using cs' p by (simp flip: append_assoc)
  moreover have "reader s = \<lparr>br_buf = [], br_src = c # cs @ rest\<rparr>"
    using assms(1,2) c(1) by (auto simp: reader_def)
  ultimately show ?thesis using assms(3)
    by (simp add: mem_RecvBytes_def r p(1) z unat_len_small set_reader_def)
qed

interpretation mem_stream: message_stream "\<lambda>s b. fst (mem_SendBytes s b now)"
    "\<lambda>s. received_or_none (mem_RecvBytes s later)" pp_out pp_in flushed "\<lambda>s. pp_br s \<in> {None, Some []}"
    chunks_of "\<lambda>b. length b \<le> maxFrame"
    for now later
  by unfold_locales (simp_all add: mem_SendBytes_ok flushed_def mem_RecvBytes_message)

section \<open>The in-memory transport over these sessions\<close>

text \<open>
  \<open>Dial\<close> makes the two ends of a \<open>net.Pipe\<close>; readers and writers are created later. The server's
  end goes to the accept queue of the listener, of capacity 8, or is closed at once.
\<close>

definition fresh_pipe :: "PeerInfo \<Rightarrow> Kind \<Rightarrow> int \<Rightarrow> pipe_session" where
  "fresh_pipe peer kind now = \<lparr>pp_peer = peer, pp_kind = kind, pp_br = None, pp_bw = None, pp_in = [], pp_out = [],
     pp_closed = False, pp_establishedAt = now, pp_lastSeen = 0\<rparr>"

definition mem_Dial_sessions :: "string \<Rightarrow> PeerInfo \<Rightarrow> int \<Rightarrow> pipe_session \<times> pipe_session" where
  "mem_Dial_sessions name peer now =
     (let srv = fresh_pipe \<lparr>pi_ID = pi_ID peer, pi_Addr = name, pi_Reachable = False\<rparr> KindMem now;
          cli = fresh_pipe peer KindMem now
      in (srv, cli))"

section \<open>Named pipes\<close>

text \<open>
  \<open>winpipe_windows.go\<close> has the operations of \<open>mem.go\<close> on its own session type; the chunks are
  what the operating system delivers per read.
\<close>

definition winpipe_OpenStream :: "pipe_session \<Rightarrow> pipe_session" where
  "winpipe_OpenStream s =
     (if pp_br s = None \<or> pp_bw s = None then s\<lparr>pp_br := Some [], pp_bw := Some new_writer\<rparr> else s)"

definition winpipe_SendBytes :: "pipe_session \<Rightarrow> byte list \<Rightarrow> int \<Rightarrow> pipe_session \<times> link_error option" where
  "winpipe_SendBytes = mem_SendBytes"

definition winpipe_RecvBytes :: "pipe_session \<Rightarrow> int \<Rightarrow> pipe_session \<times> (link_error + byte list)" where
  "winpipe_RecvBytes = mem_RecvBytes"

text \<open>\<open>dialled\<close> and \<open>bound\<close> are what \<open>DialPipeContext\<close> and \<open>ListenPipe\<close> return.\<close>

definition winpipe_Dial :: "(link_error + chunks) \<Rightarrow> PeerInfo \<Rightarrow> int \<Rightarrow> link_error + pipe_session" where
  "winpipe_Dial dialled peer now =
     (case dialled of
        Inl err \<Rightarrow> Inl err
      | Inr input \<Rightarrow> Inr ((fresh_pipe peer KindWinPipe now)\<lparr>pp_in := input\<rparr>))"

record pipe_listener =
  wl_addr :: string
  wl_newCh :: "pipe_session list"
  wl_closed :: bool

definition winpipe_Listen :: "(link_error + string) \<Rightarrow> link_error + pipe_listener" where
  "winpipe_Listen bound =
     (case bound of
        Inl err \<Rightarrow> Inl err
      | Inr a \<Rightarrow> Inr \<lparr>wl_addr = a, wl_newCh = [], wl_closed = False\<rparr>)"

definition winpipe_inbound :: "string \<Rightarrow> chunks \<Rightarrow> int \<Rightarrow> pipe_session" where
  "winpipe_inbound raddr input now =
     (fresh_pipe \<lparr>pi_ID = TempPeerID KindWinPipe (Some raddr), pi_Addr = raddr, pi_Reachable = False\<rparr> KindWinPipe now)
       \<lparr>pp_in := input\<rparr>"

text \<open>
  The accept loop ends with the first error; the sessions it refuses because the queue is full
  are closed, and returned here.
\<close>

fun winpipe_acceptLoop ::
  "pipe_listener \<Rightarrow> (link_error + string \<times> chunks \<times> int) list \<Rightarrow> pipe_listener \<times> pipe_session list" where
  "winpipe_acceptLoop l [] = (l, [])"
| "winpipe_acceptLoop l (Inl err # as) = (l, [])"
| "winpipe_acceptLoop l (Inr (raddr, input, now) # as) =
     (let s = winpipe_inbound raddr input now in
      if length (wl_newCh l) < 8 then winpipe_acceptLoop (l\<lparr>wl_newCh := wl_newCh l @ [s]\<rparr>) as
      else (case winpipe_acceptLoop l as of (l, refused) \<Rightarrow> (l, mem_Close s # refused)))"

inductive winpipe_Accept :: "bool \<Rightarrow> pipe_listener \<Rightarrow> link_error + pipe_session \<Rightarrow> pipe_listener \<Rightarrow> bool"
  for ctx_done where
  "ctx_done \<Longrightarrow> winpipe_Accept ctx_done l (Inl CtxDone) l"
| "wl_closed l \<Longrightarrow> winpipe_Accept ctx_done l (Inl ListenerClosed) l"
| "wl_newCh l = s # ss \<Longrightarrow> winpipe_Accept ctx_done l (Inr s) (l\<lparr>wl_newCh := ss\<rparr>)"

definition winpipe_listener_Close :: "pipe_listener \<Rightarrow> pipe_listener" where
  "winpipe_listener_Close l = l\<lparr>wl_closed := True\<rparr>"

section \<open>Properties\<close>

text \<open>
  C8: over an in-memory session every sequence of messages of at most 16 MiB is received as
  sent, although the receiver reads each length prefix with one \<open>Read\<close> that may come up short:
  the chunks the buffered writer passes on begin with a whole prefix at every message.
\<close>

theorem mem_stream_roundtrip:
  assumes "mem_Dial_sessions name peer now = (r, s)" "\<forall>b \<in> set bs. length b \<le> maxFrame"
  shows "receive_all (\<lambda>r. received_or_none (mem_RecvBytes r later)) (length bs)
    (r\<lparr>pp_in := pp_out (foldl (\<lambda>s b. fst (mem_SendBytes s b at)) s bs)\<rparr>) = bs"
  using assms
  by (intro mem_stream.delivered [where s = s and now = at and rest = "[]"])
    (auto simp: mem_Dial_sessions_def fresh_pipe_def flushed_def)

theorem mem_stream_roundtrip_witness:
  "case mem_Dial_sessions ''n'' \<lparr>pi_ID = ''p'', pi_Addr = ''n'', pi_Reachable = True\<rparr> 1 of (r, s) \<Rightarrow>
     receive_all (\<lambda>r. received_or_none (mem_RecvBytes r 3)) (length [[7, 8], [], [9 :: byte]])
       (r\<lparr>pp_in := pp_out (foldl (\<lambda>s b. fst (mem_SendBytes s b 2)) s [[7, 8], [], [9]])\<rparr>) = [[7, 8], [], [9]]"
proof (cases "mem_Dial_sessions ''n'' \<lparr>pi_ID = ''p'', pi_Addr = ''n'', pi_Reachable = True\<rparr> 1")
  case (Pair r s)
  show ?thesis unfolding Pair prod.case by (rule mem_stream_roundtrip [OF Pair]) (simp add: maxFrame_def)
qed

text \<open>
  The same bytes delivered in other chunks are not received as sent: when the first byte of the
  prefix of a message of 256 bytes comes alone, an empty message is returned and the message is
  lost. Only the writer's chunking protects the in-memory sessions; a named pipe in byte mode
  promises none.
\<close>

theorem split_prefix_misread:
  assumes "length b = 256"
  shows "let s = winpipe_inbound raddr [[0], [1, 0, 0] @ b] now in
    concat (pp_in s) = packet b \<and>
    snd (winpipe_RecvBytes s later) = Inr [] \<and>
    snd (mem_RecvBytes ((fresh_pipe peer KindMem now)\<lparr>pp_in := chunks_of b\<rparr>) later) = Inr b"
proof -
  have p: "put32 256 = [0, 1, 0, 0]" by code_simp
  have z: "get32 (put_at (replicate 4 0) 0 [0]) = 0" by code_simp
  have "snd (mem_RecvBytes ((fresh_pipe peer KindMem now)\<lparr>pp_in := chunks_of b\<rparr>) later) = Inr b"
    by (subst mem_RecvBytes_message [where b = b and rest = "[]"])
      (simp_all add: assms fresh_pipe_def maxFrame_def)
  then show ?thesis using z
    by (simp add: winpipe_inbound_def fresh_pipe_def winpipe_RecvBytes_def mem_RecvBytes_def reader_def br_Read_def
        defaultBufSize_def packet_def p assms ReadFull_from.simps Let_def)
qed

theorem split_prefix_misread_witness:
  "concat (pp_in (winpipe_inbound ''a'' [[0], [1, 0, 0] @ replicate 256 5] 1)) = packet (replicate 256 5)"
  using split_prefix_misread [of "replicate 256 5" "''a''" 1 2 "\<lparr>pi_ID = ''p'', pi_Addr = ''n'', pi_Reachable = True\<rparr>"] by (simp add: Let_def)

end
