(* ===== verification/Spec2Isabelle.thy ===== *)
theory Spec2Isabelle
  imports App Tools Codec Memkv SessionManager Priocq Handshake Router Registry Pipeline Netstack Config Gateway
    Pipes Links Quic
begin

text \<open>
  ttmesh is a mesh node written in Go: peers open sessions over several transports, identify
  themselves with signed Hello messages, keep what they know of each other in an expiring
  key-value store, route messages over the links they know, and keep a registry of workers and
  the tasks these offer. This development translates the program's own code, package by package,
  into HOL definitions and proves what makes each part correct, and where it is not, what it does
  instead. All paths below are relative to the module root \<open>src/ttmesh\<close>.

  \<^bold>\<open>Parts of the program and the theories that model them.\<close>

  \<^item> \<open>Prelude\<close> (64-bit wrap-around, byte buffers, little-endian integers, the orders of Go's maps),
    \<open>GoStd\<close> (what the code uses of \<open>strings\<close>, \<open>strconv\<close>, \<open>encoding/base64\<close>) and \<open>GoHeap\<close>
    (\<open>container/heap\<close>, with a locale for a priority queue) are shared.
  \<^item> \<open>Wire\<close>: \<open>pkg/protocol\<close>, the 64-byte header, frames, fragments, and \<open>stream.Conn\<close>. \<open>Codec\<close>:
    \<open>pkg/protocol/codec\<close> and the format byte of a body.
  \<^item> \<open>Transport\<close>: \<open>pkg/transport\<close>, kinds and ids, length-prefixed messages over TCP, accept queues,
    in-memory listeners, the demultiplexer of datagrams, and the contract of a message stream (locale
    \<open>message_stream\<close>). \<open>Pipes\<close>: the sessions of \<open>mem.go\<close> and \<open>winpipe_windows.go\<close> with their
    buffers. \<open>Links\<close>: dialling, listening and the datagram sessions of \<open>udp.go\<close>. \<open>Quic\<close>: \<open>quic.go\<close>.
    \<open>SessionManager\<close>: \<open>manager.go\<close>, the election of the canonical session of a peer.
  \<^item> \<open>Memkv\<close>: \<open>pkg/memkv/store.go\<close>, the sharded key-value store with deadlines, an expiry heap,
    a byte limit and counters.
  \<^item> \<open>Handshake\<close>: \<open>pkg/handshake\<close>, \<open>pkg/crypto/sign\<close>, \<open>pkg/identity\<close>. \<open>Peers\<close>: \<open>pkg/peers\<close>, the
    documents of peers and routes in the key-value store. \<open>Router\<close>: \<open>pkg/router\<close>. \<open>Registry\<close>:
    \<open>pkg/registry\<close>. \<open>Messages\<close>: the fields of the protobuf messages the code reads.
  \<^item> \<open>Priocq\<close>: \<open>pkg/core/priocq\<close>, deficit round robin and the token bucket. \<open>Pipeline\<close>:
    \<open>pkg/pipeline\<close> and \<open>forward.go\<close>. \<open>Peering\<close>: \<open>pkg/core/peering\<close>, one session of a node, message
    by message. \<open>Netstack\<close>: \<open>pkg/core/netstack\<close>, accepting, dialling, and a node as a run of events.
  \<^item> \<open>Config\<close>: \<open>pkg/config\<close> and \<open>pkg/observability\<close>. \<open>Gateway\<close>: \<open>pkg/gateway/grpc\<close>. \<open>App\<close>:
    \<open>cmd/ttmesh-node\<close>, which composes all of it. \<open>Clients\<close>: the programs \<open>ttmesh-worker\<close>,
    \<open>ttmesh-client\<close> and \<open>ttmesh-ctl\<close>. \<open>Directory\<close>: a worker, a node and the control tool together.
    \<open>Tools\<close>: the generators of sample frames and messages.

  \<^bold>\<open>How code becomes definitions.\<close> A struct is a \<open>record\<close> with one field per field of the code (mutexes,
  and channels that only signal, excepted), a method a function from the state to the result and
  the new state, an error an \<open>option\<close> or a sum, a panic an outer \<open>None\<close> or a constructor of its own.
  Fixed-width integers are words, or \<open>int\<close> with \<open>i64\<close> where the code computes with \<open>int64\<close>; times
  and durations are nanoseconds. A function that reads the clock takes the time as an argument, one
  that reads it several times a function \<open>clk\<close> from the number of the reading. Ranging over a map takes
  the order as an argument, constrained only to enumerate the keys. Goroutines are step relations
  whose steps are the critical sections of the code (\<open>worker_step\<close>, \<open>pipe_step\<close>, \<open>udp_step\<close>,
  \<open>udp_sess_step\<close>, \<open>q_step\<close>, \<open>mgr_reach\<close>): \<open>tryPop\<close> is one step of \<open>pipe_step\<close>, and the store a worker of the
  pipeline consults is the one its pipeline was made with. A loop that need not end takes the list of
  what it receives, and what its receiver does when nothing more comes is part of the model
  (\<open>expiry_wakes\<close>); a goroutine left behind is counted (\<open>await_answer\<close>).

  \<^bold>\<open>Parameters.\<close> The signature scheme (\<open>ed25519\<close>, with the law that an honest signature verifies), JSON
  and protobuf (\<open>json\<close>, \<open>pb_codec\<close>, with a round-trip hypothesis for the documents or envelopes in
  question only), CBOR, viper, quic-go and the operating system are arguments. Their hypotheses
  stand in the theorems that need them, and each such theorem is applied at a concrete instance.

  \<^bold>\<open>What is shown.\<close>

  \<^item> Round trips: headers, frames, streams of frames and fragmentation (\<open>Wire\<close>); messages over every
    transport that satisfies \<open>message_stream\<close>, which TCP, QUIC and, thanks to the chunks the buffered
    writer makes, the in-memory sessions do; the gRPC gateway; the handshake of both ends.
  \<^item> Refinement: the key-value store implements a flat map with deadlines, whose limit also counts what
    \<open>Update\<close> on expired entries lost; the worker registry
    implements a map of records, also when it lives inside a node whose sessions change the same
    key-value store (\<open>Directory\<close>), up to the listing a tool prints.
  \<^item> Invariants: the counters and the byte limit of the store, its expiry heap, the session manager
    closing every session it gives up, the order within a flow of the queue, the accounting of the
    pipeline. Optimality: the elected session, the shortest path of the router, the next hop.
  \<^item> Bounds, termination and liveness: the token bucket, back-off, paging through the registry,
    acknowledgements that stop; and where progress fails: lost wake-ups, starving flows, listings
    that never end, receivers that are never woken, a tool whose deadline counts only between
    messages.
  \<^item> What a node cannot do as written: no route is ever learned and, unless a peer claims the
    node's own id, nothing is ever forwarded; a HelloAck is believed without proof, a registration
    without a Hello.

  \<^bold>\<open>Bounds and fuel.\<close> Go's \<open>len\<close> and lengths on the wire are words; theorems say when a length fits
  (\<open>2 ^ 32\<close>, \<open>maxFrame\<close>). The router's search is a \<open>while_option\<close>, whose value \<open>None\<close> is a search
  that does not end; \<open>search_ends\<close> shows that it ends on every finite graph without negative costs.
  Following page tokens has the number of indexed workers plus one as fuel;
  \<open>filtered_listing_never_ends\<close> shows that this is enough whenever any fuel is; the reading loop of \<open>Pipes\<close> terminates because every \<open>Read\<close>
  delivers bytes or uses up a chunk.

  \<^bold>\<open>Not modelled.\<close> The generated protobuf code; sockets, TLS set-up and certificates; logging output,
  printing and flag parsing of the tools (a node's flags are); the body of \<open>tryJSONLog\<close>, which only
  logs; packages that hold an interface nobody implements or a package clause only (\<open>pkg/api\<close>,
  \<open>pkg/util\<close>, \<open>pkg/exec\<close>, \<open>pkg/consensus\<close>, \<open>pkg/plugins\<close>, \<open>pkg/gateway/http\<close>); tests. Data races the
  code has (the shaper map of the pipeline, the counters of the net stack) are outside: every
  step is atomic. The cancellation of a context appears as the call it leads to: closing a listener
  or a session.
\<close>

end
